(* ===== verification/Prelude.thy ===== *)
theory Prelude
  imports Complex_Main
    "HOL-Library.State_Monad"
    "HOL-Library.Finite_Map"
    "HOL-Library.Word"
    "HOL-Library.Signed_Division"
    "HOL-Library.Char_ord"
    "HOL-Library.List_Lexorder"
begin

text \<open>
  What the component theories share: Go errors, panics, byte slices, maps and 64-bit integers; the
  programs of the controller as state transformers over their own state and an outside world with
  a call trace; three interface locales: relations between the worlds before and after a program,
  keyed stores (token cache, provider clients), and transition systems with an invariant.
\<close>

named_theorems run_simps \<open>one step of a program run\<close>
named_theorems op_defs \<open>definitions of the operations of a component\<close>

section \<open>Go values\<close>

text \<open>
  An error value. \<open>ErrorString\<close> is \<^verbatim>\<open>errors.New\<close> and \<^verbatim>\<open>fmt.Errorf\<close> without \<open>%w\<close>;
  \<open>WrapError\<close> is \<^verbatim>\<open>fmt.Errorf\<close> with \<open>%w\<close> (the whole text and the wrapped error); \<open>ExtError\<close>
  comes from outside code and is known by its text, by what \<^verbatim>\<open>apierrors.IsNotFound\<close> says of it and
  by its gRPC status code.
\<close>

datatype error = ErrorString string | WrapError string error | ExtError string bool nat

primrec Error :: "error \<Rightarrow> string" where
  "Error (ErrorString s) = s"
| "Error (WrapError s e) = s"
| "Error (ExtError s nf c) = s"

primrec IsNotFound :: "error \<Rightarrow> bool" where
  "IsNotFound (ErrorString s) = False"
| "IsNotFound (WrapError s e) = IsNotFound e"
| "IsNotFound (ExtError s nf c) = nf"

text \<open>\<^verbatim>\<open>status.Code\<close>: an error that is no gRPC status has code Unknown (2).\<close>

primrec status_Code :: "error \<Rightarrow> nat" where
  "status_Code (ErrorString s) = 2"
| "status_Code (WrapError s e) = status_Code e"
| "status_Code (ExtError s nf c) = c"

text \<open>\<^verbatim>\<open>errors.Is\<close> against a sentinel that is compared by identity.\<close>

primrec errors_Is :: "error \<Rightarrow> error \<Rightarrow> bool" where
  "errors_Is (ErrorString s) t = (ErrorString s = t)"
| "errors_Is (WrapError s e) t = (WrapError s e = t \<or> errors_Is e t)"
| "errors_Is (ExtError s nf c) t = (ExtError s nf c = t)"

lemma errors_Is_refl [simp]: "errors_Is e e"
  by (cases e) simp_all

text \<open>The outcome of a call that may panic or run forever.\<close>

datatype 'a go = Ret 'a | Panic string | Diverges

text \<open>A byte slice; \<open>None\<close> is nil, which \<^verbatim>\<open>encoding/json\<close> and \<open>== nil\<close> tell from an empty one.\<close>

type_synonym bytes = "string option"

definition bcontent :: "bytes \<Rightarrow> string" where
  "bcontent b = (case b of None \<Rightarrow> [] | Some s \<Rightarrow> s)"

text \<open>\<^verbatim>\<open>append(a, b...)\<close>: appending no element returns \<open>a\<close> itself, so nil stays nil.\<close>

definition bappend :: "bytes \<Rightarrow> bytes \<Rightarrow> bytes" where
  "bappend a b = (if bcontent b = [] then a else Some (bcontent a @ bcontent b))"

lemma bcontent_simps [simp]: "bcontent None = []" "bcontent (Some s) = s"
  by (simp_all add: bcontent_def)

lemma bcontent_bappend [simp]: "bcontent (bappend a b) = bcontent a @ bcontent b"
  by (simp add: bappend_def)

lemma bappend_eq_None [simp]: "bappend a b = None \<longleftrightarrow> a = None \<and> bcontent b = []"
  by (auto simp: bappend_def)

text \<open>Maps are finite maps; where the source distinguishes a nil map, it is the \<open>None\<close> of an option.\<close>

type_synonym 'v gomap = "(string, 'v) fmap"

text \<open>64-bit signed integers wrap around; division truncates towards zero.\<close>

type_synonym int64 = "64 word"

definition go_quot :: "int64 \<Rightarrow> int64 \<Rightarrow> int64" where
  "go_quot a b = word_of_int (sint a sdiv sint b)"

section \<open>Programs\<close>

text \<open>
  Every method is a state transformer over its receiver's state and the outside world. The world is
  an arbitrary state of the environment and the trace of the calls the program made; the trace is
  the observable order of effects and no program reads it.
\<close>

record ('w, 'c) world =
  env_state :: 'w
  trace :: "'c list"

type_synonym ('p, 'w, 'c, 'a) prog = "('p \<times> ('w, 'c) world, 'a) state"

abbreviation return :: "'a \<Rightarrow> ('s, 'a) state" where
  "return \<equiv> State_Monad.return"

definition ext :: "('w \<Rightarrow> 'a \<times> 'w) \<Rightarrow> ('p, 'w, 'c, 'a) prog" where
  "ext f = State (\<lambda>(p, w). let (a, e) = f (env_state w) in (a, (p, w\<lparr>env_state := e\<rparr>)))"

definition ext_call :: "('a \<Rightarrow> 'c) \<Rightarrow> ('w \<Rightarrow> 'a \<times> 'w) \<Rightarrow> ('p, 'w, 'c, 'a) prog" where
  "ext_call c f = State (\<lambda>(p, w). let (a, e) = f (env_state w) in
     (a, (p, w\<lparr>env_state := e, trace := trace w @ [c a]\<rparr>)))"

definition self :: "('p, 'w, 'c, 'p) prog" where
  "self = State (\<lambda>(p, w). (p, (p, w)))"

definition modify_self :: "('p \<Rightarrow> 'p) \<Rightarrow> ('p, 'w, 'c, unit) prog" where
  "modify_self f = State (\<lambda>(p, w). ((), (f p, w)))"

text \<open>A call of a method of a field: it runs on the field's value and its result is written back.\<close>

definition zoom :: "('p \<Rightarrow> 'q) \<Rightarrow> ('q \<Rightarrow> 'p \<Rightarrow> 'p) \<Rightarrow> ('q, 'w, 'c, 'a) prog \<Rightarrow> ('p, 'w, 'c, 'a) prog" where
  "zoom g u m = State (\<lambda>(p, w). let (a, (q, w')) = run_state m (g p, w) in (a, (u q p, w')))"

lemma run_ext [run_simps]:
  "run_state (ext f) (p, w) = (fst (f (env_state w)), (p, w\<lparr>env_state := snd (f (env_state w))\<rparr>))"
  by (simp add: ext_def split_beta)

lemma run_ext_call [run_simps]:
  "run_state (ext_call c f) (p, w) = (fst (f (env_state w)),
     (p, w\<lparr>env_state := snd (f (env_state w)), trace := trace w @ [c (fst (f (env_state w)))]\<rparr>))"
  by (simp add: ext_call_def split_beta)

lemma run_self [run_simps]: "run_state self (p, w) = (p, (p, w))"
  by (simp add: self_def)

lemma run_modify_self [run_simps]: "run_state (modify_self f) (p, w) = ((), (f p, w))"
  by (simp add: modify_self_def)

lemma run_zoom [run_simps]:
  "run_state (zoom g u m) (p, w) =
     (case run_state m (g p, w) of (a, (q, w')) \<Rightarrow> (a, (u q p, w')))"
  by (simp add: zoom_def)

lemma run_case_option [run_simps]:
  "run_state (case x of None \<Rightarrow> m | Some a \<Rightarrow> f a) s =
     (case x of None \<Rightarrow> run_state m s | Some a \<Rightarrow> run_state (f a) s)"
  by (cases x) simp_all

lemma run_case_sum [run_simps]:
  "run_state (case x of Inl a \<Rightarrow> f a | Inr b \<Rightarrow> g b) s =
     (case x of Inl a \<Rightarrow> run_state (f a) s | Inr b \<Rightarrow> run_state (g b) s)"
  by (cases x) simp_all

lemma run_case_prod [run_simps]:
  "run_state (case x of (a, b) \<Rightarrow> f a b) s = (case x of (a, b) \<Rightarrow> run_state (f a b) s)"
  by (cases x) simp_all

lemma run_if [run_simps]:
  "run_state (if b then m else n) s = (if b then run_state m s else run_state n s)"
  by simp

text \<open>Runs of programs, decomposed at their first statement.\<close>

lemma run_bindE:
  assumes "run_state (State_Monad.bind m f) s = (b, t)"
  obtains a s' where "run_state m s = (a, s')" and "run_state (f a) s' = (b, t)"
  using assms by (cases "run_state m s") auto

lemma run_obtain:
  obtains a p w where "run_state m s = (a, (p, w))"
  by (metis prod_cases3)

section \<open>Effects\<close>

text \<open>
  What the runs of a program do to the world, as a reflexive and transitive relation between the
  world before and after: it holds of a program when it holds of its parts.
\<close>

locale effect_relation =
  fixes R :: "('w, 'c) world \<Rightarrow> ('w, 'c) world \<Rightarrow> bool"
  assumes refl: "R w w"
    and trans: "R u v \<Longrightarrow> R v w \<Longrightarrow> R u w"
begin

definition holds :: "('p, 'w, 'c, 'a) prog \<Rightarrow> bool" where
  "holds m \<longleftrightarrow> (\<forall>p w a p' w'. run_state m (p, w) = (a, (p', w')) \<longrightarrow> R w w')"

lemma holdsI: "(\<And>p w a p' w'. run_state m (p, w) = (a, (p', w')) \<Longrightarrow> R w w') \<Longrightarrow> holds m"
  unfolding holds_def by blast

lemma holdsD: "holds m \<Longrightarrow> run_state m (p, w) = (a, (p', w')) \<Longrightarrow> R w w'"
  unfolding holds_def by blast

lemma holds_return: "holds (return a)"
  by (rule holdsI) (simp add: refl)

lemma holds_bind:
  assumes "holds m" and "\<And>a. holds (f a)"
  shows "holds (State_Monad.bind m f)"
proof (rule holdsI)
  fix p w b p' w'
  assume "run_state (State_Monad.bind m f) (p, w) = (b, (p', w'))"
  then obtain a s where a: "run_state m (p, w) = (a, s)" and b: "run_state (f a) s = (b, (p', w'))"
    by (rule run_bindE)
  obtain p1 w1 where s: "s = (p1, w1)" by fastforce
  from holdsD [OF assms(1)] a s have "R w w1" by blast
  moreover from holdsD [OF assms(2)] b s have "R w1 w'" by blast
  ultimately show "R w w'" by (rule trans)
qed

lemma holds_ext: "(\<And>w. R w (w\<lparr>env_state := snd (f (env_state w))\<rparr>)) \<Longrightarrow> holds (ext f)"
  by (rule holdsI) (auto simp: run_simps)

lemma holds_ext_call:
  "(\<And>w. R w (w\<lparr>env_state := snd (f (env_state w)), trace := trace w @ [c (fst (f (env_state w)))]\<rparr>)) \<Longrightarrow> holds (ext_call c f)"
  by (rule holdsI) (auto simp: run_simps)

lemma holds_self: "holds self"
  by (rule holdsI) (auto simp: run_simps refl)

lemma holds_modify_self: "holds (modify_self f)"
  by (rule holdsI) (auto simp: run_simps refl)

lemma holds_zoom: "holds m \<Longrightarrow> holds (zoom g u m)"
  by (rule holdsI) (auto simp: run_simps dest: holdsD split: prod.splits)

lemma holds_if: "(b \<Longrightarrow> holds m) \<Longrightarrow> (\<not> b \<Longrightarrow> holds n) \<Longrightarrow> holds (if b then m else n)"
  by simp

lemma holds_case_option: "holds m \<Longrightarrow> (\<And>a. holds (f a)) \<Longrightarrow> holds (case x of None \<Rightarrow> m | Some a \<Rightarrow> f a)"
  by (cases x) simp_all

lemma holds_case_sum: "(\<And>a. holds (f a)) \<Longrightarrow> (\<And>b. holds (g b)) \<Longrightarrow> holds (case x of Inl a \<Rightarrow> f a | Inr b \<Rightarrow> g b)"
  by (cases x) simp_all

lemma holds_case_prod: "(\<And>a b. holds (f a b)) \<Longrightarrow> holds (case x of (a, b) \<Rightarrow> f a b)"
  by (cases x) simp

lemma holds_case_go:
  "(\<And>a. holds (f a)) \<Longrightarrow> (\<And>s. holds (g s)) \<Longrightarrow> holds h
   \<Longrightarrow> holds (case x of Ret a \<Rightarrow> f a | Panic s \<Rightarrow> g s | Diverges \<Rightarrow> h)"
  by (cases x) simp_all

lemmas holds_intros = holds_return holds_bind holds_self holds_modify_self holds_zoom holds_if
  holds_case_option holds_case_sum holds_case_prod holds_case_go

end

text \<open>\<open>emits P m\<close>: every call that a run of \<open>m\<close> adds to the trace satisfies \<open>P\<close>.\<close>

named_theorems emits_intros \<open>structural rules for the effects of a program\<close>

definition emitted :: "('c \<Rightarrow> bool) \<Rightarrow> ('w, 'c) world \<Rightarrow> ('w, 'c) world \<Rightarrow> bool" where
  "emitted P w w' \<longleftrightarrow> (\<exists>calls. trace w' = trace w @ calls \<and> list_all P calls)"

interpretation emitting: effect_relation "emitted P" for P
  by unfold_locales (auto simp: emitted_def)

abbreviation emits :: "('c \<Rightarrow> bool) \<Rightarrow> ('p, 'w, 'c, 'a) prog \<Rightarrow> bool" where
  "emits P m \<equiv> effect_relation.holds (emitted P) m"

lemma emitsI:
  assumes "\<And>p w a p' w'. run_state m (p, w) = (a, (p', w')) \<Longrightarrow> \<exists>calls. trace w' = trace w @ calls \<and> list_all P calls"
  shows "emits P m"
  using assms by (intro emitting.holdsI) (auto simp: emitted_def)

lemma emitsD:
  "emits P m \<Longrightarrow> run_state m (p, w) = (a, (p', w')) \<Longrightarrow> \<exists>calls. trace w' = trace w @ calls \<and> list_all P calls"
  using emitting.holdsD by (fastforce simp: emitted_def)

lemma emits_ext: "emits P (ext f)"
  by (rule emitting.holds_ext) (simp add: emitted_def)

lemma emits_ext_call: "(\<And>a. P (c a)) \<Longrightarrow> emits P (ext_call c f)"
  by (rule emitting.holds_ext_call) (simp add: emitted_def)

lemmas emits_return = emitting.holds_return and emits_bind = emitting.holds_bind
  and emits_zoom = emitting.holds_zoom and emits_case_sum = emitting.holds_case_sum

declare emitting.holds_intros [emits_intros] emits_ext [emits_intros] emits_ext_call [emits_intros]

text \<open>\<open>yields Q m\<close>: every run of \<open>m\<close> returns a value that satisfies \<open>Q\<close>.\<close>

named_theorems yields_intros \<open>structural rules for the results of a program\<close>

definition yields :: "('a \<Rightarrow> bool) \<Rightarrow> ('p, 'w, 'c, 'a) prog \<Rightarrow> bool" where
  "yields Q m \<longleftrightarrow> (\<forall>s. Q (fst (run_state m s)))"

lemma yieldsD: "yields Q m \<Longrightarrow> run_state m s = (a, t) \<Longrightarrow> Q a"
  unfolding yields_def by (metis fst_conv)

lemma yields_return [yields_intros]: "Q a \<Longrightarrow> yields Q (return a)"
  by (simp add: yields_def)

lemma yields_bind_with:
  assumes "yields R m" and "\<And>a. R a \<Longrightarrow> yields Q (f a)"
  shows "yields Q (State_Monad.bind m f)"
  unfolding yields_def
proof
  fix s
  obtain a t where a: "run_state m s = (a, t)" by (rule prod.exhaust)
  with yieldsD [OF assms(1)] assms(2) have "yields Q (f a)" by blast
  with a show "Q (fst (run_state (State_Monad.bind m f) s))" by (cases t) (simp add: yields_def)
qed

lemma yields_bind [yields_intros]: "(\<And>a. yields Q (f a)) \<Longrightarrow> yields Q (State_Monad.bind m f)"
  by (rule yields_bind_with [of "\<lambda>_. True"]) (simp_all add: yields_def)

lemma yields_case_sum [yields_intros]:
  "(\<And>a. x = Inl a \<Longrightarrow> yields Q (f a)) \<Longrightarrow> (\<And>b. x = Inr b \<Longrightarrow> yields Q (g b))
   \<Longrightarrow> yields Q (case x of Inl a \<Rightarrow> f a | Inr b \<Rightarrow> g b)"
  by (cases x) simp_all

lemma yields_case_prod [yields_intros]:
  "(\<And>a b. x = (a, b) \<Longrightarrow> yields Q (f a b)) \<Longrightarrow> yields Q (case x of (a, b) \<Rightarrow> f a b)"
  by (cases x) simp

lemma yields_case_go [yields_intros]:
  "(\<And>a. x = Ret a \<Longrightarrow> yields Q (f a)) \<Longrightarrow> (\<And>s. x = Panic s \<Longrightarrow> yields Q (g s)) \<Longrightarrow> (x = Diverges \<Longrightarrow> yields Q h)
   \<Longrightarrow> yields Q (case x of Ret a \<Rightarrow> f a | Panic s \<Rightarrow> g s | Diverges \<Rightarrow> h)"
  by (cases x) simp_all

lemma yields_zoom: "yields Q m \<Longrightarrow> yields Q (zoom g u m)"
  by (auto simp: yields_def run_simps split: prod.splits) (metis fst_conv)

text \<open>Effects of a program that depend on what an earlier part of it yields.\<close>

lemma emits_bind_with:
  assumes "yields R m" "emits P m" and "\<And>a. R a \<Longrightarrow> emits P (f a)"
  shows "emits P (State_Monad.bind m f)"
proof (rule emitsI)
  fix p w b p' w'
  assume "run_state (State_Monad.bind m f) (p, w) = (b, (p', w'))"
  then obtain a s where a: "run_state m (p, w) = (a, s)" and b: "run_state (f a) s = (b, (p', w'))"
    by (rule run_bindE)
  obtain p1 w1 where s: "s = (p1, w1)" by fastforce
  from emitsD [OF assms(2)] a s obtain c1 where "trace w1 = trace w @ c1" "list_all P c1" by blast
  moreover have e: "emits P (f a)" using yieldsD [OF assms(1) a] assms(3) by blast
  from emitsD [OF e b [unfolded s]] obtain c2 where "trace w' = trace w1 @ c2" "list_all P c2" by blast
  ultimately show "\<exists>calls. trace w' = trace w @ calls \<and> list_all P calls" by auto
qed

text \<open>\<open>keeps I m\<close>: every run of \<open>m\<close> preserves the relation \<open>I\<close> between its own state and the trace.\<close>

named_theorems keeps_intros \<open>structural rules for what a program preserves\<close>

definition keeps :: "('p \<Rightarrow> 'c list \<Rightarrow> bool) \<Rightarrow> ('p, 'w, 'c, 'a) prog \<Rightarrow> bool" where
  "keeps I m \<longleftrightarrow> (\<forall>p w a p' w'. run_state m (p, w) = (a, (p', w')) \<longrightarrow> I p (trace w) \<longrightarrow> I p' (trace w'))"

lemma keepsI:
  "(\<And>p w a p' w'. run_state m (p, w) = (a, (p', w')) \<Longrightarrow> I p (trace w) \<Longrightarrow> I p' (trace w')) \<Longrightarrow> keeps I m"
  unfolding keeps_def by blast

lemma keepsD: "keeps I m \<Longrightarrow> run_state m (p, w) = (a, (p', w')) \<Longrightarrow> I p (trace w) \<Longrightarrow> I p' (trace w')"
  unfolding keeps_def by blast

lemma keeps_return [keeps_intros]: "keeps I (return a)"
  by (rule keepsI) simp

lemma keeps_bind [keeps_intros]:
  assumes "keeps I m" and "\<And>a. keeps I (f a)"
  shows "keeps I (State_Monad.bind m f)"
proof (rule keepsI)
  fix p w b p' w'
  assume "run_state (State_Monad.bind m f) (p, w) = (b, (p', w'))" and i: "I p (trace w)"
  then obtain a s where a: "run_state m (p, w) = (a, s)" and b: "run_state (f a) s = (b, (p', w'))"
    by (blast elim: run_bindE)
  obtain p1 w1 where s: "s = (p1, w1)" by fastforce
  from keepsD [OF assms(1)] a s i have "I p1 (trace w1)" by blast
  with keepsD [OF assms(2)] b s show "I p' (trace w')" by blast
qed

lemma keeps_ext [keeps_intros]: "keeps I (ext f)"
  by (rule keepsI) (auto simp: run_simps)

lemma keeps_ext_call [keeps_intros]: "(\<And>p t a. I p t \<Longrightarrow> I p (t @ [c a])) \<Longrightarrow> keeps I (ext_call c f)"
  by (rule keepsI) (auto simp: run_simps)

lemma keeps_if [keeps_intros]: "keeps I m \<Longrightarrow> keeps I n \<Longrightarrow> keeps I (if b then m else n)"
  by simp

lemma keeps_case_option [keeps_intros]:
  "keeps I m \<Longrightarrow> (\<And>a. keeps I (f a)) \<Longrightarrow> keeps I (case x of None \<Rightarrow> m | Some a \<Rightarrow> f a)"
  by (cases x) simp_all

lemma keeps_case_sum [keeps_intros]:
  "(\<And>a. keeps I (f a)) \<Longrightarrow> (\<And>b. keeps I (g b)) \<Longrightarrow> keeps I (case x of Inl a \<Rightarrow> f a | Inr b \<Rightarrow> g b)"
  by (cases x) simp_all

lemma keeps_case_prod [keeps_intros]: "(\<And>a b. keeps I (f a b)) \<Longrightarrow> keeps I (case x of (a, b) \<Rightarrow> f a b)"
  by (cases x) simp

lemma keeps_case_go [keeps_intros]:
  "(\<And>a. keeps I (f a)) \<Longrightarrow> (\<And>s. keeps I (g s)) \<Longrightarrow> keeps I h
   \<Longrightarrow> keeps I (case x of Ret a \<Rightarrow> f a | Panic s \<Rightarrow> g s | Diverges \<Rightarrow> h)"
  by (cases x) simp_all

section \<open>Keyed stores\<close>

text \<open>
  The interface of a component that keeps one value per key under a lock: the token cache of the
  token manager and the provider clients of the client builder.
\<close>

locale keyed_store =
  fixes lookup :: "'s \<Rightarrow> 'k \<Rightarrow> 'v option"
    and insert_key :: "'k \<Rightarrow> 'v \<Rightarrow> 's \<Rightarrow> 's"
    and inv :: "'s \<Rightarrow> bool"
  assumes lookup_insert: "inv s \<Longrightarrow> lookup (insert_key k v s) k' = (if k' = k then Some v else lookup s k')"
    and inv_insert: "inv s \<Longrightarrow> inv (insert_key k v s)"
begin

lemma lookup_inserted: "inv s \<Longrightarrow> lookup (insert_key k v s) k = Some v"
  by (simp add: lookup_insert)

lemma lookup_other: "inv s \<Longrightarrow> k' \<noteq> k \<Longrightarrow> lookup (insert_key k v s) k' = lookup s k'"
  by (simp add: lookup_insert)

text \<open>A relation between keys and values that every stored entry satisfies.\<close>

definition entries_ok :: "('k \<Rightarrow> 'v \<Rightarrow> bool) \<Rightarrow> 's \<Rightarrow> bool" where
  "entries_ok R s \<longleftrightarrow> (\<forall>k v. lookup s k = Some v \<longrightarrow> R k v)"

lemma entries_ok_insert:
  "inv s \<Longrightarrow> entries_ok R s \<Longrightarrow> R k v \<Longrightarrow> entries_ok R (insert_key k v s)"
  by (auto simp: entries_ok_def lookup_insert split: if_splits)

lemma entries_okD: "entries_ok R s \<Longrightarrow> lookup s k = Some v \<Longrightarrow> R k v"
  by (simp add: entries_ok_def)

end

section \<open>Transition systems\<close>

inductive reach :: "('s \<Rightarrow> bool) \<Rightarrow> ('s \<Rightarrow> 's \<Rightarrow> bool) \<Rightarrow> 's \<Rightarrow> bool" for init step where
  reach_init: "init s \<Longrightarrow> reach init step s"
| reach_step: "reach init step s \<Longrightarrow> step s t \<Longrightarrow> reach init step t"

locale invariant_system =
  fixes init :: "'s \<Rightarrow> bool"
    and step :: "'s \<Rightarrow> 's \<Rightarrow> bool"
    and inv :: "'s \<Rightarrow> bool"
  assumes inv_init: "init s \<Longrightarrow> inv s"
    and inv_step: "inv s \<Longrightarrow> step s t \<Longrightarrow> inv t"
begin

lemma reach_inv: "reach init step s \<Longrightarrow> inv s"
  by (induction rule: reach.induct) (auto intro: inv_init inv_step)

end

end
