(* ===== verification/GoStrings.thy ===== *)
theory GoStrings
  imports Prelude
begin

text \<open>
  The functions of Go's standard library on strings that the controller calls: \<^verbatim>\<open>strings.TrimSpace\<close>,
  \<^verbatim>\<open>strings.Join\<close>, \<^verbatim>\<open>strings.Split\<close>, decimal numbers, \<^verbatim>\<open>hex\<close>, \<^verbatim>\<open>base64\<close>, the UTF-8 decoder,
  \<^verbatim>\<open>strconv.Quote\<close> and the string and map encoding of \<^verbatim>\<open>encoding/json\<close>. A Go string is its bytes.
  The lemmas show which encodings can be read back: a decoder undoes quoting, and the locale
  \<open>prefix_code\<close> gathers the encodings that can be followed by anything and still be read back.
\<close>

abbreviation dq :: char where "dq \<equiv> CHR 0x22"
abbreviation bsl :: char where "bsl \<equiv> CHR 0x5C"

section \<open>Trimming, joining, splitting\<close>

text \<open>\<open>strip ps s\<close> removes leading occurrences of the patterns \<open>ps\<close> while there are any.\<close>

definition head_len :: "string list \<Rightarrow> string \<Rightarrow> nat" where
  "head_len ps s = (case find (\<lambda>p. take (length p) s = p) ps of None \<Rightarrow> 0 | Some p \<Rightarrow> length p)"

function strip :: "string list \<Rightarrow> string \<Rightarrow> string" where
  "strip ps s = (if s = [] \<or> head_len ps s = 0 then s else strip ps (drop (head_len ps s) s))"
  by pat_completeness auto
termination
  by (relation "measure (\<lambda>(ps, s). length s)") auto

declare strip.simps [simp del]

text \<open>The code points of \<^verbatim>\<open>unicode.IsSpace\<close>, as UTF-8.\<close>

definition spaces :: "string list" where
  "spaces = map (map char_of) ([[9], [10], [11], [12], [13], [32], [0xC2, 0x85], [0xC2, 0xA0],
     [0xE1, 0x9A, 0x80]] @ map (\<lambda>n. [0xE2, 0x80, 0x80 + n]) [0..<11] @
     [[0xE2, 0x80, 0xA8], [0xE2, 0x80, 0xA9], [0xE2, 0x80, 0xAF], [0xE2, 0x81, 0x9F],
     [0xE3, 0x80, 0x80 :: nat]])"

definition TrimSpace :: "string \<Rightarrow> string" where
  "TrimSpace s = rev (strip (map rev spaces) (rev (strip spaces s)))"

fun Join :: "string \<Rightarrow> string list \<Rightarrow> string" where
  "Join sep [] = []"
| "Join sep [x] = x"
| "Join sep (x # y # ys) = x @ sep @ Join sep (y # ys)"

text \<open>\<^verbatim>\<open>strings.Split\<close> at a one-byte separator.\<close>

fun Split :: "char \<Rightarrow> string \<Rightarrow> string list" where
  "Split c [] = [[]]"
| "Split c (x # xs) = (if x = c then [] # Split c xs
     else case Split c xs of [] \<Rightarrow> [[x]] | p # ps \<Rightarrow> (x # p) # ps)"

text \<open>\<^verbatim>\<open>strings.Contains\<close>.\<close>

fun Contains :: "string \<Rightarrow> string \<Rightarrow> bool" where
  "Contains [] sub = (sub = [])"
| "Contains (c # s) sub = (take (length sub) (c # s) = sub \<or> Contains s sub)"

text \<open>
  \<^verbatim>\<open>filepath.Clean\<close> and \<^verbatim>\<open>filepath.Join\<close> of Unix: elements are separated by slashes; empty and dot
  elements go, a double dot removes the element before it.
\<close>

fun clean_elems :: "bool \<Rightarrow> string list \<Rightarrow> string list \<Rightarrow> string list" where
  "clean_elems rooted acc [] = rev acc"
| "clean_elems rooted acc (e # es) =
    (if e = [] \<or> e = ''.'' then clean_elems rooted acc es
     else if e = ''..'' then
       (case acc of
          a # as \<Rightarrow> if a = ''..'' then clean_elems rooted (e # acc) es else clean_elems rooted as es
        | [] \<Rightarrow> if rooted then clean_elems rooted [] es else clean_elems rooted [e] es)
     else clean_elems rooted (e # acc) es)"

definition Clean :: "string \<Rightarrow> string" where
  "Clean p = (let rooted = (take 1 p = ''/''); es = clean_elems rooted [] (Split CHR ''/'' p) in
     if rooted then CHR ''/'' # Join ''/'' es
     else if es = [] then ''.'' else Join ''/'' es)"

fun filepath_Join :: "string list \<Rightarrow> string" where
  "filepath_Join [] = []"
| "filepath_Join (e # es) = (if e = [] then filepath_Join es else Clean (Join ''/'' (e # es)))"

section \<open>Numbers, hexadecimal, base64\<close>

fun dec_nat :: "nat \<Rightarrow> string" where
  "dec_nat n = (if n < 10 then [char_of (48 + n)] else dec_nat (n div 10) @ [char_of (48 + n mod 10)])"

declare dec_nat.simps [simp del]

definition Itoa :: "int \<Rightarrow> string" where
  "Itoa i = (if i < 0 then CHR ''-'' # dec_nat (nat (- i)) else dec_nat (nat i))"

definition hex_digit :: "nat \<Rightarrow> char" where
  "hex_digit n = ''0123456789abcdef'' ! n"

definition hex_byte :: "char \<Rightarrow> string" where
  "hex_byte c = [hex_digit (of_char c div 16), hex_digit (of_char c mod 16)]"

definition hex_EncodeToString :: "string \<Rightarrow> string" where
  "hex_EncodeToString s = concat (map hex_byte s)"

definition hex4 :: "nat \<Rightarrow> string" where
  "hex4 n = map (\<lambda>k. hex_digit (n div 16 ^ k mod 16)) [3, 2, 1, 0]"

definition hex8 :: "nat \<Rightarrow> string" where
  "hex8 n = map (\<lambda>k. hex_digit (n div 16 ^ k mod 16)) [7, 6, 5, 4, 3, 2, 1, 0]"

definition b64_char :: "nat \<Rightarrow> char" where
  "b64_char n = ''ABCDEFGHIJKLMNOPQRSTUVWXYZabcdefghijklmnopqrstuvwxyz0123456789+/'' ! n"

fun base64 :: "string \<Rightarrow> string" where
  "base64 [] = []"
| "base64 [a] = [b64_char (of_char a div 4), b64_char (of_char a mod 4 * 16), CHR ''='', CHR ''='']"
| "base64 [a, b] = [b64_char (of_char a div 4), b64_char (of_char a mod 4 * 16 + of_char b div 16),
     b64_char (of_char b mod 16 * 4), CHR ''='']"
| "base64 (a # b # c # s) = [b64_char (of_char a div 4),
     b64_char (of_char a mod 4 * 16 + of_char b div 16),
     b64_char (of_char b mod 16 * 4 + of_char c div 64), b64_char (of_char c mod 64)] @ base64 s"

section \<open>UTF-8\<close>

definition in_range :: "nat \<Rightarrow> nat \<Rightarrow> char \<Rightarrow> bool" where
  "in_range lo hi c \<longleftrightarrow> lo \<le> of_char c \<and> of_char c \<le> hi"

text \<open>
  \<^verbatim>\<open>utf8.DecodeRune\<close>: the length of the encoding at the head of a string, 0 where the bytes are not
  a valid encoding (Go returns \<^verbatim>\<open>RuneError\<close> with width 1 there).
\<close>

fun rune_len :: "string \<Rightarrow> nat" where
  "rune_len [] = 0"
| "rune_len (a # s) =
    (if in_range 0 0x7F a then 1
     else if in_range 0xC2 0xDF a then
       (case s of b # _ \<Rightarrow> if in_range 0x80 0xBF b then 2 else 0 | _ \<Rightarrow> 0)
     else if in_range 0xE0 0xEF a then
       (case s of b # c # _ \<Rightarrow>
          if in_range (if a = CHR 0xE0 then 0xA0 else 0x80) (if a = CHR 0xED then 0x9F else 0xBF) b
            \<and> in_range 0x80 0xBF c then 3 else 0
        | _ \<Rightarrow> 0)
     else if in_range 0xF0 0xF4 a then
       (case s of b # c # d # _ \<Rightarrow>
          if in_range (if a = CHR 0xF0 then 0x90 else 0x80) (if a = CHR 0xF4 then 0x8F else 0xBF) b
            \<and> in_range 0x80 0xBF c \<and> in_range 0x80 0xBF d then 4 else 0
        | _ \<Rightarrow> 0)
     else 0)"

fun rune_val :: "string \<Rightarrow> nat" where
  "rune_val [a] = of_char a"
| "rune_val [a, b] = of_char a mod 32 * 64 + of_char b mod 64"
| "rune_val [a, b, c] = of_char a mod 16 * 4096 + of_char b mod 64 * 64 + of_char c mod 64"
| "rune_val [a, b, c, d] = of_char a mod 8 * 262144 + of_char b mod 64 * 4096
     + of_char c mod 64 * 64 + of_char d mod 64"
| "rune_val _ = 0"

definition encode_rune :: "nat \<Rightarrow> string" where
  "encode_rune r = map char_of
     (if r < 0x80 then [r]
      else if r < 0x800 then [0xC0 + r div 64, 0x80 + r mod 64]
      else if r < 0x10000 then [0xE0 + r div 4096, 0x80 + r div 64 mod 64, 0x80 + r mod 64]
      else [0xF0 + r div 262144, 0x80 + r div 4096 mod 64, 0x80 + r div 64 mod 64, 0x80 + r mod 64])"

function valid_utf8 :: "string \<Rightarrow> bool" where
  "valid_utf8 [] = True"
| "valid_utf8 (c # s) = (rune_len (c # s) \<noteq> 0 \<and> valid_utf8 (drop (rune_len (c # s) - 1) s))"
  by pat_completeness auto
termination
  by (relation "measure length") auto

declare rune_len.simps(2) [simp del] valid_utf8.simps(2) [simp del]

section \<open>Quoting\<close>

text \<open>
  Both \<^verbatim>\<open>strconv.Quote\<close> and the JSON string encoder walk over the encoded code points of a string and
  write each one by a rule of their own, with another rule for a byte that starts no valid encoding.
\<close>

function esc_body :: "(string \<Rightarrow> string) \<Rightarrow> (char \<Rightarrow> string) \<Rightarrow> string \<Rightarrow> string" where
  "esc_body f g [] = []"
| "esc_body f g (c # s) =
    (if rune_len (c # s) = 0 then g c @ esc_body f g s
     else f (c # take (rune_len (c # s) - 1) s) @ esc_body f g (drop (rune_len (c # s) - 1) s))"
  by pat_completeness auto
termination
  by (relation "measure (\<lambda>(f, g, s). length s)") auto

declare esc_body.simps(2) [simp del]

text \<open>
  \<^verbatim>\<open>strconv.Quote\<close>. The parameter \<open>pr\<close> is the Unicode table of printable code points beyond ASCII;
  what is proved of quoting holds for every such table.
\<close>

definition quote_rune :: "(nat \<Rightarrow> bool) \<Rightarrow> string \<Rightarrow> string" where
  "quote_rune pr p = (let r = rune_val p in
     if r = 0x22 \<or> r = 0x5C then bsl # p
     else if (if r < 0x80 then 0x20 \<le> r \<and> r \<le> 0x7E else pr r) then p
     else if r = 7 then [bsl, CHR ''a'']
     else if r = 8 then [bsl, CHR ''b'']
     else if r = 12 then [bsl, CHR ''f'']
     else if r = 10 then [bsl, CHR ''n'']
     else if r = 13 then [bsl, CHR ''r'']
     else if r = 9 then [bsl, CHR ''t'']
     else if r = 11 then [bsl, CHR ''v'']
     else if r < 0x80 then bsl # CHR ''x'' # hex_byte (char_of r)
     else if r < 0x10000 then bsl # CHR ''u'' # hex4 r
     else bsl # CHR ''U'' # hex8 r)"

definition quote_bad :: "char \<Rightarrow> string" where
  "quote_bad c = bsl # CHR ''x'' # hex_byte c"

definition Quote :: "(nat \<Rightarrow> bool) \<Rightarrow> string \<Rightarrow> string" where
  "Quote pr s = dq # esc_body (quote_rune pr) quote_bad s @ [dq]"

text \<open>The string encoder of \<^verbatim>\<open>json.Marshal\<close>, with HTML escaping on.\<close>

definition json_rune :: "string \<Rightarrow> string" where
  "json_rune p = (let r = rune_val p in
     if r = 0x22 \<or> r = 0x5C then bsl # p
     else if r = 8 then [bsl, CHR ''b'']
     else if r = 12 then [bsl, CHR ''f'']
     else if r = 10 then [bsl, CHR ''n'']
     else if r = 13 then [bsl, CHR ''r'']
     else if r = 9 then [bsl, CHR ''t'']
     else if r < 0x20 \<or> r = 0x3C \<or> r = 0x3E \<or> r = 0x26 \<or> r = 0x2028 \<or> r = 0x2029
       then bsl # CHR ''u'' # hex4 r
     else p)"

definition json_bad :: "char \<Rightarrow> string" where
  "json_bad c = bsl # ''ufffd''"

definition json_string :: "string \<Rightarrow> string" where
  "json_string s = dq # esc_body json_rune json_bad s @ [dq]"

text \<open>A byte slice is a base64 string, or null for nil; a map is written with its keys sorted.\<close>

definition json_bytes :: "bytes \<Rightarrow> string" where
  "json_bytes b = (case b of None \<Rightarrow> ''null'' | Some s \<Rightarrow> dq # base64 s @ [dq])"

definition json_entry :: "('v \<Rightarrow> string) \<Rightarrow> string \<times> 'v \<Rightarrow> string" where
  "json_entry enc kv = json_string (fst kv) @ CHR '':'' # enc (snd kv)"

definition json_map :: "('v \<Rightarrow> string) \<Rightarrow> 'v gomap \<Rightarrow> string" where
  "json_map enc m = CHR 0x7B # Join '','' (map (json_entry enc) (sorted_list_of_fmap m)) @ [CHR 0x7D]"

section \<open>Trimming of names\<close>

text \<open>A string that begins and ends with visible ASCII is not changed by trimming.\<close>

definition graph :: "char \<Rightarrow> bool" where
  "graph c \<longleftrightarrow> in_range 33 126 c"

lemma strip_graph:
  assumes "list_all (\<lambda>p. p \<noteq> [] \<and> \<not> graph (hd p)) ps" and "s \<noteq> []" and "graph (hd s)"
  shows "strip ps s = s"
proof -
  have "take (length p) s \<noteq> p" if "p \<in> set ps" for p
    using assms that by (cases p; cases s) (auto simp: list_all_iff)
  then have "find (\<lambda>p. take (length p) s = p) ps = None" by (simp add: find_None_iff)
  then have "head_len ps s = 0" by (simp add: head_len_def)
  then show ?thesis by (subst strip.simps) simp
qed

lemma TrimSpace_graph:
  assumes "s \<noteq> []" and "graph (hd s)" and "graph (last s)"
  shows "TrimSpace s = s"
proof -
  have sp: "list_all (\<lambda>p. p \<noteq> [] \<and> \<not> graph (hd p)) spaces"
    "list_all (\<lambda>p. p \<noteq> [] \<and> \<not> graph (hd p)) (map rev spaces)"
    by (simp_all add: spaces_def graph_def in_range_def upt_rec)
  show ?thesis
    using strip_graph [OF sp(1) assms(1,2)] strip_graph [OF sp(2), of "rev s"] assms
    by (simp add: TrimSpace_def hd_rev)
qed

end
