(* ===== verification/ApiTypes.thy ===== *)
theory ApiTypes
  imports Prelude
begin

text \<open>
  The data of the controller: the SecretSync API of \<^verbatim>\<open>api/v1alpha1/secretsync_types.go\<close>, the fields the
  controller reads and writes of the Kubernetes, CSI-driver and gRPC types it works on, and the
  calls it makes to the outside, which a run records in order.
\<close>

section \<open>Kubernetes metadata\<close>

text \<open>An instant is its nanoseconds since the epoch.\<close>

type_synonym time = int

text \<open>The zero \<^verbatim>\<open>time.Time\<close>: January 1, year 1.\<close>

definition zeroTime :: time where "zeroTime = -62135596800000000000"

record TypeMeta =
  tm_Kind :: string
  tm_APIVersion :: string

record OwnerReference =
  or_APIVersion :: string
  or_Kind :: string
  or_Name :: string
  or_UID :: string

record ObjectMeta =
  om_Name :: string
  om_Namespace :: string
  om_UID :: string
  om_Generation :: int64
  om_ResourceVersion :: string
  om_Labels :: "string gomap option"
  om_Annotations :: "string gomap option"
  om_OwnerReferences :: "OwnerReference list"

datatype ConditionStatus = ConditionTrue | ConditionFalse | ConditionUnknown

record Condition =
  c_Type :: string
  c_Status :: ConditionStatus
  c_ObservedGeneration :: int64
  c_LastTransitionTime :: time
  c_Reason :: string
  c_Message :: string

record NamespacedName =
  nn_Namespace :: string
  nn_Name :: string

section \<open>The SecretSync API\<close>

record SecretObjectData =
  sod_SourcePath :: string
  sod_TargetKey :: string

record SecretObject =
  so_Type :: string
  so_Data :: "SecretObjectData list"
  so_Labels :: "string gomap option"
  so_Annotations :: "string gomap option"

record SecretSyncSpec =
  sp_SecretSyncControllerName :: string
  sp_SecretProviderClassName :: string
  sp_ServiceAccountName :: string
  sp_SecretObject :: SecretObject
  sp_ForceSynchronization :: string

text \<open>
  A nil and an empty list of conditions behave alike under \<open>len\<close>, \<open>range\<close> and \<open>append\<close>, the
  only uses the controller has of it.
\<close>

record SecretSyncStatus =
  st_SyncHash :: string
  st_LastSuccessfulSyncTime :: "time option"
  st_Conditions :: "Condition list"

record SecretSync =
  ss_TypeMeta :: TypeMeta
  ss_Meta :: ObjectMeta
  ss_Spec :: SecretSyncSpec
  ss_Status :: SecretSyncStatus

record ListMeta =
  lm_SelfLink :: string
  lm_ResourceVersion :: string
  lm_Continue :: string
  lm_RemainingItemCount :: "int64 option"

record SecretSyncList =
  sl_TypeMeta :: TypeMeta
  sl_ListMeta :: ListMeta
  sl_Items :: "SecretSync list"

section \<open>What the controller uses of other APIs\<close>

record SecretProviderClass =
  spc_Meta :: ObjectMeta
  spc_Provider :: string
  spc_Parameters :: "string gomap option"

record Secret =
  sec_TypeMeta :: TypeMeta
  sec_Meta :: ObjectMeta
  sec_Data :: "bytes gomap"
  sec_Type :: string

record BoundObjectReference =
  bor_Kind :: string
  bor_APIVersion :: string
  bor_Name :: string
  bor_UID :: string

record TokenRequestSpec =
  trs_Audiences :: "string list option"
  trs_ExpirationSeconds :: "int64 option"
  trs_BoundObjectRef :: "BoundObjectReference option"

record TokenRequestStatus =
  tst_Token :: string
  tst_ExpirationTimestamp :: time

record TokenRequest =
  tr_Spec :: TokenRequestSpec
  tr_Status :: TokenRequestStatus

text \<open>
  The provider protocol. A client is made from a connection, and connections are told apart by a
  number. A nil response or error is \<open>None\<close>, and so is a nil list of object versions.
\<close>

datatype ClientConn = ClientConn nat

datatype CSIDriverProviderClient = NewCSIDriverProviderClient ClientConn

record ObjectVersion =
  ov_Id :: string
  ov_Version :: string

record MountRequest =
  mreq_Attributes :: string
  mreq_Secrets :: string
  mreq_Permission :: string
  mreq_CurrentObjectVersion :: "ObjectVersion list"
  mreq_TargetPath :: string

record File =
  f_Path :: string
  f_Contents :: bytes

record MountResponse =
  mr_Error :: "string option"
  mr_ObjectVersion :: "ObjectVersion list option"
  mr_Files :: "File list"

record VersionResponse =
  vr_RuntimeVersion :: string

text \<open>The options of gRPC that the code uses.\<close>

datatype CallOption = MaxCallRecvMsgSize int64

datatype TransportCredentials = insecure_NewCredentials

datatype DialOption =
    WithDefaultCallOptions "CallOption list"
  | WithTransportCredentials TransportCredentials
  | WithDefaultServiceConfig string

section \<open>Calls to the outside\<close>

text \<open>What a run of the controller leaves in its trace, with whether the call succeeded.\<close>

datatype call =
    GetSecretSync NamespacedName
  | GetSecretProviderClass NamespacedName
  | StatusUpdate SecretSync bool
  | PatchSecret string string string string bool
  | CreateToken string string TokenRequest "TokenRequest option"
  | DiscoverResources string
  | Mount CSIDriverProviderClient MountRequest
  | VersionRPC CSIDriverProviderClient string
  | Stat string
  | Lstat string
  | NewConn string "DialOption list" "ClientConn option"
  | CloseConn ClientConn
  | KlogErrorS string

type_synonym ('p, 'w, 'a) meth = "('p, 'w, call, 'a) prog"

text \<open>The error of a call, as Go returns it beside the value.\<close>

definition is_ok :: "error + 'a \<Rightarrow> bool" where
  "is_ok r = (case r of Inl _ \<Rightarrow> False | Inr _ \<Rightarrow> True)"

lemma is_ok_simps [simp]: "is_ok (Inl e) = False" "is_ok (Inr a) = True"
  by (simp_all add: is_ok_def)

text \<open>The calls that write to the cluster: the status of a SecretSync and the Secret itself.\<close>

definition is_write :: "call \<Rightarrow> bool" where
  "is_write c = (case c of StatusUpdate _ _ \<Rightarrow> True | PatchSecret _ _ _ _ _ \<Rightarrow> True | _ \<Rightarrow> False)"

abbreviation quiet :: "('p, 'w, 'a) meth \<Rightarrow> bool" where
  "quiet m \<equiv> emits (\<lambda>c. \<not> is_write c) m"

end
