(* ===== verification/SecretUtil.thy ===== *)
theory SecretUtil
  imports GoStrings ApiTypes
begin

text \<open>
  \<^verbatim>\<open>pkg/util/secretutil/secret.go\<close>: the data of the synchronized Secret, built from the files of the
  provider, with certificate and key extraction for TLS secrets. PEM, PKCS#12 and X.509 code is a
  parameter, the record \<open>crypto\<close>; a parsed private key is opaque.
\<close>

section \<open>PEM blocks and the cryptographic libraries\<close>

record Block =
  b_Type :: string
  b_Headers :: "string gomap"
  b_Bytes :: bytes

type_synonym key = string

datatype PrivateKey = rsa_PrivateKey key | ecdsa_PrivateKey key | other_PrivateKey key

record crypto =
  pem_Decode :: "bytes \<Rightarrow> Block option \<times> bytes"
  pem_EncodeToMemory :: "Block \<Rightarrow> bytes"
  pkcs12_ToPEM :: "bytes \<Rightarrow> string \<Rightarrow> error + Block list"
  ParsePKCS1PrivateKey :: "bytes \<Rightarrow> error + key"
  ParsePKCS8PrivateKey :: "bytes \<Rightarrow> error + PrivateKey"
  ParseECPrivateKey :: "bytes \<Rightarrow> error + key"
  MarshalPKCS1PrivateKey :: "key \<Rightarrow> bytes"
  MarshalECPrivateKey :: "key \<Rightarrow> error + bytes"

text \<open>
  What \<^verbatim>\<open>pem.Decode\<close> documents: it returns the next block and the remainder of the input, which no
  longer holds that block.
\<close>

definition pem_consumes :: "crypto \<Rightarrow> bool" where
  "pem_consumes C \<longleftrightarrow> (\<forall>data blk rest. pem_Decode C data = (Some blk, rest) \<longrightarrow>
     length (bcontent rest) < length (bcontent data))"

definition certType :: string where "certType = ''CERTIFICATE''"
definition privateKeyType :: string where "privateKeyType = ''PRIVATE KEY''"
definition privateKeyTypeRSA :: string where "privateKeyTypeRSA = ''RSA PRIVATE KEY''"
definition privateKeyTypeEC :: string where "privateKeyTypeEC = ''EC PRIVATE KEY''"

definition TLSPrivateKeyKey :: string where "TLSPrivateKeyKey = ''tls.key''"
definition TLSCertKey :: string where "TLSCertKey = ''tls.crt''"
definition SecretTypeTLS :: string where "SecretTypeTLS = ''kubernetes.io/tls''"

section \<open>Certificates\<close>

partial_function (option) getCert_loop :: "crypto \<Rightarrow> bytes \<Rightarrow> bytes \<Rightarrow> (bytes \<times> bytes) option" where
  "getCert_loop C data certs =
     (case pem_Decode C data of
        (None, rest) \<Rightarrow> Some (certs, data)
      | (Some pemBlock, rest) \<Rightarrow>
          getCert_loop C rest (if b_Type pemBlock = certType
            then bappend certs (pem_EncodeToMemory C pemBlock) else certs))"

declare getCert_loop.simps [code]

fun pfx_certs :: "crypto \<Rightarrow> bytes \<Rightarrow> Block list \<Rightarrow> bytes" where
  "pfx_certs C certs [] = certs"
| "pfx_certs C certs (block # blocks) =
     pfx_certs C (if b_Type block = certType then bappend certs (pem_EncodeToMemory C block) else certs) blocks"

definition getCert :: "crypto \<Rightarrow> bytes \<Rightarrow> (error + bytes) go" where
  "getCert C data = (case getCert_loop C data None of
      None \<Rightarrow> Diverges
    | Some (certs, rest) \<Rightarrow> Ret
        (if certs = None then
           (case pkcs12_ToPEM C rest [] of
              Inl err \<Rightarrow> Inl err
            | Inr pemBlocks \<Rightarrow> Inr (pfx_certs C certs pemBlocks))
         else Inr certs))"

section \<open>Private keys\<close>

partial_function (option) getPrivateKey_loop :: "crypto \<Rightarrow> bytes \<Rightarrow> bytes \<Rightarrow> (bytes \<times> bytes) option" where
  "getPrivateKey_loop C data der =
     (case pem_Decode C data of
        (None, rest) \<Rightarrow> Some (der, data)
      | (Some pemBlock, rest) \<Rightarrow>
          getPrivateKey_loop C rest (if b_Type pemBlock \<noteq> certType then b_Bytes pemBlock else der))"

declare getPrivateKey_loop.simps [code]

fun pfx_key :: "bytes \<Rightarrow> Block list \<Rightarrow> bytes" where
  "pfx_key der [] = der"
| "pfx_key der (block # blocks) =
     pfx_key (if b_Type block = privateKeyType then b_Bytes block else der) blocks"

text \<open>The three parsers are tried in turn; a later success overwrites an earlier one.\<close>

definition try_pkcs1 :: "crypto \<Rightarrow> bytes \<Rightarrow> string \<times> bytes \<Rightarrow> string \<times> bytes" where
  "try_pkcs1 C der acc = (case ParsePKCS1PrivateKey C der of
      Inl _ \<Rightarrow> acc
    | Inr key \<Rightarrow> (privateKeyTypeRSA, MarshalPKCS1PrivateKey C key))"

definition try_pkcs8 :: "crypto \<Rightarrow> bytes \<Rightarrow> string \<times> bytes \<Rightarrow> error + (string \<times> bytes)" where
  "try_pkcs8 C der acc = (case ParsePKCS8PrivateKey C der of
      Inl _ \<Rightarrow> Inr acc
    | Inr (rsa_PrivateKey key) \<Rightarrow> Inr (privateKeyTypeRSA, MarshalPKCS1PrivateKey C key)
    | Inr (ecdsa_PrivateKey key) \<Rightarrow>
        (case MarshalECPrivateKey C key of
           Inl err \<Rightarrow> Inl err
         | Inr derKey \<Rightarrow> Inr (privateKeyTypeEC, derKey))
    | Inr (other_PrivateKey key) \<Rightarrow>
        Inl (ErrorString ''unknown private key type found while getting key. Only rsa and ecdsa are supported''))"

definition try_ec :: "crypto \<Rightarrow> bytes \<Rightarrow> string \<times> bytes \<Rightarrow> error + (string \<times> bytes)" where
  "try_ec C der acc = (case ParseECPrivateKey C der of
      Inl _ \<Rightarrow> Inr acc
    | Inr key \<Rightarrow>
        (case MarshalECPrivateKey C key of
           Inl err \<Rightarrow> Inl err
         | Inr derKey \<Rightarrow> Inr (privateKeyTypeEC, derKey)))"

definition encode_key :: "crypto \<Rightarrow> bytes \<Rightarrow> error + bytes" where
  "encode_key C der =
     (case try_pkcs8 C der (try_pkcs1 C der (privateKeyType, None)) of
        Inl err \<Rightarrow> Inl err
      | Inr acc \<Rightarrow>
          (case try_ec C der acc of
             Inl err \<Rightarrow> Inl err
           | Inr (privKeyType, derKey) \<Rightarrow>
               Inr (pem_EncodeToMemory C \<lparr>b_Type = privKeyType, b_Headers = fmempty, b_Bytes = derKey\<rparr>)))"

definition getPrivateKey :: "crypto \<Rightarrow> bytes \<Rightarrow> (error + bytes) go" where
  "getPrivateKey C data = (case getPrivateKey_loop C data None of
      None \<Rightarrow> Diverges
    | Some (der, rest) \<Rightarrow> Ret
        (if der = None then
           (case pkcs12_ToPEM C rest [] of
              Inl err \<Rightarrow> Inl err
            | Inr pemBlocks \<Rightarrow> encode_key C (pfx_key der pemBlocks))
         else encode_key C der))"

definition GetCertPart :: "crypto \<Rightarrow> bytes \<Rightarrow> string \<Rightarrow> (error + bytes) go" where
  "GetCertPart C data key =
     (if key = TLSPrivateKeyKey then getPrivateKey C data
      else if key = TLSCertKey then getCert C data
      else Ret (Inl (ErrorString (''key '' @ [CHR 0x27] @ key @ [CHR 0x27] @ '' is not supported. Only ''
        @ [CHR 0x27] @ ''tls.key'' @ [CHR 0x27] @ '' and '' @ [CHR 0x27] @ ''tls.crt'' @ [CHR 0x27]
        @ '' are supported''))))"

section \<open>The data of the secret\<close>

definition errNoSourcePath :: error where
  "errNoSourcePath = ErrorString ''source path in secretObject.data is empty''"

definition errNoTargetKey :: error where
  "errNoTargetKey = ErrorString ''target key in secretObject.data is empty''"

definition errNoFile :: "string \<Rightarrow> error" where
  "errNoFile sourcePath = ErrorString (''file matching sourcePath '' @ sourcePath @ '' not found in the pod'')"

definition errCertData :: "string \<Rightarrow> error \<Rightarrow> error" where
  "errCertData dataKey err =
     WrapError (''failed to get cert data for '' @ dataKey @ '': '' @ Error err) err"

text \<open>The loop returns the map built so far together with the error, as the source does.\<close>

fun build_loop :: "crypto \<Rightarrow> string \<Rightarrow> bytes gomap \<Rightarrow> bytes gomap \<Rightarrow> SecretObjectData list
    \<Rightarrow> (bytes gomap \<times> error option) go" where
  "build_loop C secretType files datamap [] = Ret (datamap, None)"
| "build_loop C secretType files datamap (d # ds) =
     (let sourcePath = TrimSpace (sod_SourcePath d); dataKey = TrimSpace (sod_TargetKey d) in
      if sourcePath = [] then Ret (datamap, Some errNoSourcePath)
      else if dataKey = [] then Ret (datamap, Some errNoTargetKey)
      else case fmlookup files sourcePath of
        None \<Rightarrow> Ret (datamap, Some (errNoFile sourcePath))
      | Some content \<Rightarrow>
          if secretType = SecretTypeTLS then
            (case GetCertPart C content dataKey of
               Ret (Inl err) \<Rightarrow> Ret (fmupd dataKey content datamap, Some (errCertData dataKey err))
             | Ret (Inr c) \<Rightarrow> build_loop C secretType files (fmupd dataKey c (fmupd dataKey content datamap)) ds
             | Panic s \<Rightarrow> Panic s
             | Diverges \<Rightarrow> Diverges)
          else build_loop C secretType files (fmupd dataKey content datamap) ds)"

definition BuildKubeSecretData :: "crypto \<Rightarrow> SecretObjectData list \<Rightarrow> string \<Rightarrow> bytes gomap
    \<Rightarrow> (bytes gomap \<times> error option) go" where
  "BuildKubeSecretData C secretObjData secretType files =
     build_loop C secretType files fmempty secretObjData"

section \<open>The blocks of a PEM file\<close>

text \<open>\<open>pem_seq C data bs rest\<close>: repeated decoding of \<open>data\<close> yields the blocks \<open>bs\<close> and stops at \<open>rest\<close>.\<close>

inductive pem_seq :: "crypto \<Rightarrow> bytes \<Rightarrow> Block list \<Rightarrow> bytes \<Rightarrow> bool" for C where
  stop: "pem_Decode C data = (None, r) \<Longrightarrow> pem_seq C data [] data"
| more: "pem_Decode C data = (Some b, r) \<Longrightarrow> pem_seq C r bs rest \<Longrightarrow> pem_seq C data (b # bs) rest"

lemma pem_seq_exists:
  assumes "pem_consumes C"
  shows "\<exists>bs rest. pem_seq C data bs rest"
proof (induction "length (bcontent data)" arbitrary: data rule: less_induct)
  case less
  obtain ob r where d: "pem_Decode C data = (ob, r)" by fastforce
  show ?case
  proof (cases ob)
    case None
    with d show ?thesis by (auto intro: pem_seq.stop)
  next
    case (Some b)
    with d assms have "length (bcontent r) < length (bcontent data)"
      by (auto simp: pem_consumes_def)
    with less d Some show ?thesis by (meson pem_seq.more)
  qed
qed

lemma getCert_loop_blocks:
  "pem_seq C data bs rest \<Longrightarrow> getCert_loop C data certs = Some (pfx_certs C certs bs, rest)"
proof (induction arbitrary: certs rule: pem_seq.induct)
  case (stop data r)
  then show ?case by (subst getCert_loop.simps) simp
next
  case (more data b r bs rest)
  then show ?case by (subst getCert_loop.simps) simp
qed

text \<open>The bytes of the last block that satisfies \<open>P\<close>.\<close>

definition last_bytes :: "(Block \<Rightarrow> bool) \<Rightarrow> bytes \<Rightarrow> Block list \<Rightarrow> bytes" where
  "last_bytes P der bs = (case rev (filter P bs) of [] \<Rightarrow> der | b # _ \<Rightarrow> b_Bytes b)"

lemma last_bytes_simps [simp]:
  "last_bytes P der [] = der"
  "last_bytes P der (b # bs) = last_bytes P (if P b then b_Bytes b else der) bs"
  by (auto simp: last_bytes_def split: list.splits)

lemma getPrivateKey_loop_blocks:
  "pem_seq C data bs rest
   \<Longrightarrow> getPrivateKey_loop C data der = Some (last_bytes (\<lambda>b. b_Type b \<noteq> certType) der bs, rest)"
proof (induction arbitrary: der rule: pem_seq.induct)
  case (stop data r)
  then show ?case by (subst getPrivateKey_loop.simps) simp
next
  case (more data b r bs rest)
  then show ?case by (subst getPrivateKey_loop.simps) simp
qed

lemma pfx_key_last: "pfx_key der bs = last_bytes (\<lambda>b. b_Type b = privateKeyType) der bs"
  by (induction bs arbitrary: der) simp_all

definition cert_text :: "crypto \<Rightarrow> Block list \<Rightarrow> string" where
  "cert_text C bs = concat (map (\<lambda>b. bcontent (pem_EncodeToMemory C b)) (filter (\<lambda>b. b_Type b = certType) bs))"

lemma pfx_certs_content: "bcontent (pfx_certs C certs bs) = bcontent certs @ cert_text C bs"
  by (induction bs arbitrary: certs) (simp_all add: cert_text_def)

lemma pfx_certs_None: "pfx_certs C certs bs = None \<longleftrightarrow> certs = None \<and> cert_text C bs = []"
  by (induction bs arbitrary: certs) (simp_all add: cert_text_def)

text \<open>
  C26: getCert always returns. With the PEM blocks of its input it returns the concatenated
  re-encodings of the CERTIFICATE blocks, in order, and nothing else, so no key material reaches
  tls.crt; when the input has none it reads the remainder as PKCS#12 and returns the certificates
  found there, or the decoder's error.
\<close>

theorem getCert_certificates:
  assumes "pem_consumes C"
  shows "\<exists>bs rest. pem_seq C data bs rest \<and> (\<exists>r. getCert C data = Ret r \<and>
     (if cert_text C bs \<noteq> [] then map_sum id bcontent r = Inr (cert_text C bs)
      else map_sum id bcontent r = map_sum id (cert_text C) (pkcs12_ToPEM C rest [])))"
proof -
  obtain bs rest where s: "pem_seq C data bs rest" using pem_seq_exists [OF assms] by blast
  note loop = getCert_loop_blocks [OF s, of None]
  show ?thesis
  proof (cases "cert_text C bs = []")
    case True
    then have "pfx_certs C None bs = None" by (simp add: pfx_certs_None)
    with True s loop show ?thesis
      by (auto simp: getCert_def pfx_certs_content intro!: exI [of _ bs] exI [of _ rest] split: sum.splits)
  next
    case False
    then have "pfx_certs C None bs \<noteq> None" by (simp add: pfx_certs_None)
    with False s loop show ?thesis
      by (auto simp: getCert_def pfx_certs_content intro!: exI [of _ bs] exI [of _ rest])
  qed
qed

text \<open>A decoder for one fixed file of a certificate, a key and a certificate, for concrete runs.\<close>

definition demo_block :: "string \<Rightarrow> string \<Rightarrow> Block" where
  "demo_block t c = \<lparr>b_Type = t, b_Headers = fmempty, b_Bytes = Some c\<rparr>"

definition demo_decode :: "bytes \<Rightarrow> Block option \<times> bytes" where
  "demo_decode d = (case bcontent d of
      [] \<Rightarrow> (None, d)
    | c # s \<Rightarrow> if c = CHR ''C'' then (Some (demo_block certType ''c''), Some s)
        else if c = CHR ''K'' then (Some (demo_block privateKeyType ''k''), Some s)
        else (None, d))"

definition demo_crypto :: "(bytes \<Rightarrow> error + key) \<Rightarrow> crypto" where
  "demo_crypto pkcs1 = \<lparr>pem_Decode = demo_decode,
     pem_EncodeToMemory = (\<lambda>b. Some (b_Type b @ '':'' @ bcontent (b_Bytes b) @ '';'')),
     pkcs12_ToPEM = (\<lambda>d p. Inl (ErrorString ''pkcs12'')),
     ParsePKCS1PrivateKey = pkcs1,
     ParsePKCS8PrivateKey = (\<lambda>d. Inl (ErrorString ''pkcs8'')),
     ParseECPrivateKey = (\<lambda>d. Inl (ErrorString ''ec'')),
     MarshalPKCS1PrivateKey = (\<lambda>k. Some k),
     MarshalECPrivateKey = (\<lambda>k. Inr (Some k))\<rparr>"

definition demo_rsa :: crypto where
  "demo_rsa = demo_crypto (\<lambda>d. Inr (''rsa-'' @ bcontent d))"

lemma demo_consumes: "pem_consumes (demo_crypto f)"
  by (auto simp: pem_consumes_def demo_crypto_def demo_decode_def split: list.splits if_splits prod.splits)

lemma demo_rsa_consumes: "pem_consumes demo_rsa"
  by (simp add: demo_rsa_def demo_consumes)

theorem getCert_certificates_witness:
  "(\<exists>bs rest r. pem_seq demo_rsa (Some ''CKC'') bs rest \<and> getCert demo_rsa (Some ''CKC'') = Ret r)"
  using getCert_certificates [OF demo_rsa_consumes, of "Some ''CKC''"] by blast

text \<open>
  C27: getPrivateKey always returns. The key is the last PEM block that is not a certificate, or the
  last PRIVATE KEY block of a PKCS#12 file when there is no such block; it is never a certificate.
\<close>

theorem getPrivateKey_selects:
  assumes "pem_consumes C"
  shows "\<exists>bs rest. pem_seq C data bs rest \<and> getPrivateKey C data = Ret
     (let der = last_bytes (\<lambda>b. b_Type b \<noteq> certType) None bs in
      if der \<noteq> None then encode_key C der
      else case pkcs12_ToPEM C rest [] of
        Inl e \<Rightarrow> Inl e
      | Inr ps \<Rightarrow> encode_key C (last_bytes (\<lambda>b. b_Type b = privateKeyType) None ps))"
proof -
  obtain bs rest where s: "pem_seq C data bs rest" using pem_seq_exists [OF assms] by blast
  show ?thesis
    using s getPrivateKey_loop_blocks [OF s, of None]
    by (intro exI [of _ bs] exI [of _ rest])
      (auto simp: getPrivateKey_def pfx_key_last Let_def split: sum.splits)
qed

theorem getPrivateKey_selects_witness:
  "\<exists>bs rest. pem_seq demo_rsa (Some ''CKC'') bs rest
     \<and> (\<exists>r. getPrivateKey demo_rsa (Some ''CKC'') = Ret r)"
  using getPrivateKey_selects [OF demo_rsa_consumes, of "Some ''CKC''"] by blast

text \<open>
  C28: What encode_key makes of a key. When none of the three parsers accepts it, the result is no error but
  the PEM encoding of a generic PRIVATE KEY block without any bytes. Otherwise an error means that the key is
  of a kind that is not supported or that an EC key could not be marshalled, and a result is the PEM encoding of
  one block: an RSA key that a parser accepted, as PKCS 1, or an EC key that a parser accepted.
\<close>

theorem encode_key_type:
  "if \<not> is_ok (ParsePKCS1PrivateKey C der) \<and> \<not> is_ok (ParsePKCS8PrivateKey C der) \<and> \<not> is_ok (ParseECPrivateKey C der)
   then encode_key C der = Inr (pem_EncodeToMemory C \<lparr>b_Type = privateKeyType, b_Headers = fmempty, b_Bytes = None\<rparr>)
   else case encode_key C der of
       Inl err \<Rightarrow> (\<exists>key. ParsePKCS8PrivateKey C der = Inr (other_PrivateKey key))
         \<or> (\<exists>key. (ParsePKCS8PrivateKey C der = Inr (ecdsa_PrivateKey key) \<or> ParseECPrivateKey C der = Inr key) \<and> MarshalECPrivateKey C key = Inl err)
     | Inr pem \<Rightarrow> \<exists>t k. pem = pem_EncodeToMemory C \<lparr>b_Type = t, b_Headers = fmempty, b_Bytes = k\<rparr>
         \<and> (t = privateKeyTypeRSA \<and> (\<exists>key. (ParsePKCS1PrivateKey C der = Inr key \<or> ParsePKCS8PrivateKey C der = Inr (rsa_PrivateKey key))
               \<and> k = MarshalPKCS1PrivateKey C key)
            \<or> t = privateKeyTypeEC \<and> (\<exists>key. (ParsePKCS8PrivateKey C der = Inr (ecdsa_PrivateKey key) \<or> ParseECPrivateKey C der = Inr key)
               \<and> MarshalECPrivateKey C key = Inr k))"
  by (auto simp: encode_key_def try_pkcs1_def try_pkcs8_def try_ec_def split: sum.splits PrivateKey.splits)

section \<open>What the data of a secret holds\<close>

text \<open>The specification of one entry: the value it contributes under its target key, or its error.\<close>

definition target :: "SecretObjectData \<Rightarrow> string" where
  "target d = TrimSpace (sod_TargetKey d)"

definition entry_result :: "crypto \<Rightarrow> string \<Rightarrow> bytes gomap \<Rightarrow> SecretObjectData \<Rightarrow> (error + bytes) go" where
  "entry_result C secretType files d =
     (if TrimSpace (sod_SourcePath d) = [] then Ret (Inl errNoSourcePath)
      else if target d = [] then Ret (Inl errNoTargetKey)
      else case fmlookup files (TrimSpace (sod_SourcePath d)) of
        None \<Rightarrow> Ret (Inl (errNoFile (TrimSpace (sod_SourcePath d))))
      | Some content \<Rightarrow>
          if secretType \<noteq> SecretTypeTLS then Ret (Inr content)
          else map_go (map_sum (errCertData (target d)) id) (GetCertPart C content (target d)))"

lemma GetCertPart_returns:
  assumes "pem_consumes C"
  shows "\<exists>r. GetCertPart C data key = Ret r"
proof -
  obtain bs rest where s: "pem_seq C data bs rest" using pem_seq_exists [OF assms] by blast
  from getCert_loop_blocks [OF s, of None] getPrivateKey_loop_blocks [OF s, of None] show ?thesis
    by (auto simp: GetCertPart_def getCert_def getPrivateKey_def)
qed

lemma entry_result_returns:
  assumes "pem_consumes C"
  shows "\<exists>r. entry_result C secretType files d = Ret r"
proof (cases "fmlookup files (TrimSpace (sod_SourcePath d))")
  case (Some content)
  with GetCertPart_returns [OF assms, of content "target d"] show ?thesis
    by (auto simp: entry_result_def)
qed (simp add: entry_result_def)

lemma build_loop_Cons:
  "\<exists>dm. build_loop C secretType files datamap (d # ds) =
     (case entry_result C secretType files d of
        Ret (Inl e) \<Rightarrow> Ret (dm, Some e)
      | Ret (Inr v) \<Rightarrow> build_loop C secretType files (fmupd (target d) v datamap) ds
      | Panic s \<Rightarrow> Panic s
      | Diverges \<Rightarrow> Diverges)"
  by (auto simp: entry_result_def target_def Let_def split: option.splits go.splits sum.splits)

lemma find_append: "find P (xs @ ys) = (case find P xs of None \<Rightarrow> find P ys | Some x \<Rightarrow> Some x)"
  by (induction xs) simp_all

text \<open>The value of key \<open>k\<close> after the entries \<open>ds\<close>: that of the last entry that targets it.\<close>

definition entry_for :: "string \<Rightarrow> SecretObjectData list \<Rightarrow> SecretObjectData option" where
  "entry_for k ds = find (\<lambda>d. target d = k) (rev ds)"

lemma entry_for_simps:
  "entry_for k [] = None"
  "entry_for k (d # ds) = (case entry_for k ds of
     Some e \<Rightarrow> Some e | None \<Rightarrow> if target d = k then Some d else None)"
  by (simp_all add: entry_for_def find_append split: option.split)

lemma build_loop_success:
  assumes "build_loop C secretType files datamap ds = Ret (m, None)"
  shows "case entry_for k ds of
      None \<Rightarrow> fmlookup m k = fmlookup datamap k
    | Some d \<Rightarrow> \<exists>v. entry_result C secretType files d = Ret (Inr v) \<and> fmlookup m k = Some v"
  using assms
proof (induction ds arbitrary: datamap)
  case Nil
  then show ?case by (simp add: entry_for_simps)
next
  case (Cons d ds)
  have "\<exists>v. entry_result C secretType files d = Ret (Inr v)
      \<and> build_loop C secretType files (fmupd (target d) v datamap) ds = Ret (m, None)"
  proof (cases "entry_result C secretType files d")
    case (Ret x)
    with build_loop_Cons [of C secretType files datamap d ds] Cons.prems show ?thesis
      by (cases x) (auto simp del: build_loop.simps)
  qed (use build_loop_Cons [of C secretType files datamap d ds] Cons.prems in
      \<open>auto simp del: build_loop.simps\<close>)
  then obtain v where v: "entry_result C secretType files d = Ret (Inr v)"
    and r: "build_loop C secretType files (fmupd (target d) v datamap) ds = Ret (m, None)"
    by blast
  from Cons.IH [OF r] v show ?case
    by (auto simp: entry_for_simps split: option.splits)
qed

text \<open>
  C14: A successful BuildKubeSecretData holds exactly the requested keys, each with the value of the
  last entry that targets it: the file its trimmed source path names, or for a TLS secret the
  certificate or key part of that file.
\<close>

theorem BuildKubeSecretData_lookup:
  assumes "BuildKubeSecretData C ds secretType files = Ret (m, None)"
  shows "case entry_for k ds of
      None \<Rightarrow> fmlookup m k = None
    | Some d \<Rightarrow> \<exists>v. entry_result C secretType files d = Ret (Inr v) \<and> fmlookup m k = Some v"
  using build_loop_success [of C secretType files fmempty ds m k] assms
  by (simp add: BuildKubeSecretData_def split: option.splits)

definition demo_entry :: "string \<Rightarrow> string \<Rightarrow> SecretObjectData" where
  "demo_entry p k = \<lparr>sod_SourcePath = p, sod_TargetKey = k\<rparr>"

definition demo_entries :: "SecretObjectData list" where
  "demo_entries = [demo_entry ''f'' ''tls.crt'', demo_entry ''f'' ''tls.key'']"

definition demo_files :: "bytes gomap" where
  "demo_files = fmap_of_list [(''f'', Some ''CKC'')]"

definition demo_data :: "bytes gomap" where
  "demo_data = fmap_of_list [(''tls.crt'', Some ''CERTIFICATE:c;CERTIFICATE:c;''),
     (''tls.key'', Some ''RSA PRIVATE KEY:rsa-k;'')]"

lemma demo_trim: "TrimSpace ''f'' = ''f''" "TrimSpace ''tls.crt'' = ''tls.crt''"
    "TrimSpace ''tls.key'' = ''tls.key''"
  by (rule TrimSpace_graph; code_simp)+

lemma demo_parts:
  "GetCertPart demo_rsa (Some ''CKC'') ''tls.crt'' = Ret (Inr (Some ''CERTIFICATE:c;CERTIFICATE:c;''))"
  "GetCertPart demo_rsa (Some ''CKC'') ''tls.key'' = Ret (Inr (Some ''RSA PRIVATE KEY:rsa-k;''))"
  by code_simp+

lemma demo_build: "BuildKubeSecretData demo_rsa demo_entries SecretTypeTLS demo_files = Ret (demo_data, None)"
proof -
  have "fmlookup demo_files ''f'' = Some (Some ''CKC'')" by code_simp
  moreover have "fmupd ''tls.key'' (Some ''RSA PRIVATE KEY:rsa-k;'') (fmupd ''tls.key'' (Some ''CKC'')
      (fmupd ''tls.crt'' (Some ''CERTIFICATE:c;CERTIFICATE:c;'') (fmupd ''tls.crt'' (Some ''CKC'') fmempty)))
      = demo_data" by code_simp
  ultimately show ?thesis
    by (simp add: BuildKubeSecretData_def demo_entries_def demo_entry_def demo_trim demo_parts)
qed

theorem BuildKubeSecretData_lookup_witness:
  "\<exists>d v. entry_for ''tls.key'' demo_entries = Some d
     \<and> entry_result demo_rsa SecretTypeTLS demo_files d = Ret (Inr v)
     \<and> fmlookup demo_data ''tls.key'' = Some v"
proof -
  have "entry_for ''tls.key'' demo_entries = Some (demo_entry ''f'' ''tls.key'')"
    by (simp add: entry_for_simps demo_entries_def target_def demo_entry_def demo_trim)
  with BuildKubeSecretData_lookup [OF demo_build, of "''tls.key''"] show ?thesis by simp
qed

text \<open>\<open>first_error C t files ds e\<close>: \<open>e\<close> is the error of the first failing entry of \<open>ds\<close>, if there is one.\<close>

definition first_error :: "crypto \<Rightarrow> string \<Rightarrow> bytes gomap \<Rightarrow> SecretObjectData list \<Rightarrow> error option \<Rightarrow> bool" where
  "first_error C secretType files ds e \<longleftrightarrow> (case e of
      None \<Rightarrow> list_all (\<lambda>d. \<exists>v. entry_result C secretType files d = Ret (Inr v)) ds
    | Some err \<Rightarrow> \<exists>ds1 d ds2. ds = ds1 @ d # ds2
        \<and> list_all (\<lambda>d. \<exists>v. entry_result C secretType files d = Ret (Inr v)) ds1
        \<and> entry_result C secretType files d = Ret (Inl err))"

lemma first_error_here:
  "entry_result C secretType files d = Ret (Inl err) \<Longrightarrow> first_error C secretType files (d # ds) (Some err)"
  unfolding first_error_def by (auto intro: exI [of _ "[]"])

lemma first_error_later:
  assumes "entry_result C secretType files d = Ret (Inr v)" and "first_error C secretType files ds e"
  shows "first_error C secretType files (d # ds) e"
proof (cases e)
  case (Some err)
  with assms(2) obtain ds1 d' ds2 where "ds = ds1 @ d' # ds2"
    "list_all (\<lambda>d. \<exists>v. entry_result C secretType files d = Ret (Inr v)) ds1"
    "entry_result C secretType files d' = Ret (Inl err)" by (auto simp: first_error_def)
  with assms(1) Some show ?thesis
    unfolding first_error_def by (auto intro!: exI [of _ "d # ds1"])
qed (use assms in \<open>simp add: first_error_def\<close>)

lemma build_loop_first_error:
  assumes "pem_consumes C"
  shows "\<exists>m e. build_loop C secretType files datamap ds = Ret (m, e) \<and> first_error C secretType files ds e"
proof (induction ds arbitrary: datamap)
  case Nil
  then show ?case by (simp add: first_error_def)
next
  case (Cons d ds)
  obtain r where r: "entry_result C secretType files d = Ret r"
    using entry_result_returns [OF assms] by blast
  obtain dm where dm: "build_loop C secretType files datamap (d # ds) =
     (case r of Inl e \<Rightarrow> Ret (dm, Some e)
      | Inr v \<Rightarrow> build_loop C secretType files (fmupd (target d) v datamap) ds)"
    using build_loop_Cons [of C secretType files datamap d ds] r by auto
  show ?case
  proof (cases r)
    case (Inl e)
    with dm r show ?thesis by (auto simp del: build_loop.simps intro: first_error_here)
  next
    case (Inr v)
    with Cons.IH [of "fmupd (target d) v datamap"] dm r show ?thesis
      by (auto simp del: build_loop.simps intro: first_error_later)
  qed
qed

text \<open>
  C25: BuildKubeSecretData always returns, and the error it returns is the error of the first entry
  that fails; it succeeds exactly when no entry fails.
\<close>

theorem BuildKubeSecretData_first_error:
  assumes "pem_consumes C"
  shows "\<exists>m e. BuildKubeSecretData C ds secretType files = Ret (m, e) \<and> first_error C secretType files ds e"
  using build_loop_first_error [OF assms] by (simp add: BuildKubeSecretData_def)

theorem BuildKubeSecretData_first_error_witness:
  "\<exists>m e. BuildKubeSecretData demo_rsa demo_entries SecretTypeTLS demo_files = Ret (m, e)"
  using BuildKubeSecretData_first_error [OF demo_rsa_consumes] by blast

end
