(* ===== verification/Encodings.thy ===== *)
theory Encodings
  imports GoStrings
begin

text \<open>
  Which of the encodings of the previous theory can be read back. A decoder inverts quoting, so
  quoted strings, JSON strings and JSON maps are self-delimiting; the token manager's cache keys and
  the input of the state hash are built from them.
\<close>

section \<open>Reading hexadecimal and escapes\<close>

definition unhex :: "char \<Rightarrow> nat" where
  "unhex c = (if of_char c < (58::nat) then of_char c - 48 else of_char c - 87)"

definition hexval :: "string \<Rightarrow> nat" where
  "hexval s = foldl (\<lambda>a c. 16 * a + unhex c) 0 s"

lemma unhex_digits: "list_all (\<lambda>n. unhex (hex_digit n) = n) [0..<16]"
  by code_simp

lemma unhex_digit [simp]: "n < 16 \<Longrightarrow> unhex (hex_digit n) = n"
  using unhex_digits by (simp add: list_all_iff)

lemma of_char_less [simp]: "of_char c < (256 :: nat)"
  using nat_of_char_less_256 by simp

lemma hexval_byte [simp]: "hexval (hex_byte c) = of_char c"
proof -
  have "(of_char c :: nat) div 16 < 16"
    using of_char_less [of c] by linarith
  then show ?thesis
    by (simp add: hexval_def hex_byte_def)
qed

lemma hex_step: "16 * (n div (m * 16)) + n div m mod 16 = n div (m :: nat)"
  by (simp add: div_mult2_eq)

lemma hexval_hex4: "n < 0x10000 \<Longrightarrow> hexval (hex4 n) = n"
  using hex_step [of n 1] hex_step [of n 16] hex_step [of n 256]
  by (simp add: hexval_def hex4_def)

lemma hexval_hex8: "n < 0x100000000 \<Longrightarrow> hexval (hex8 n) = n"
  using hex_step [of n 1] hex_step [of n 16] hex_step [of n 256] hex_step [of n 4096]
    hex_step [of n 65536] hex_step [of n 1048576] hex_step [of n 16777216]
    less_mult_imp_div_less [of n 16 268435456]
  by (simp add: hexval_def hex8_def)

lemma length_hex [simp]: "length (hex_byte c) = 2" "length (hex4 n) = 4" "length (hex8 n) = 8"
  by (simp_all add: hex_byte_def hex4_def hex8_def)

fun unescape :: "string \<Rightarrow> (string \<times> string) option" where
  "unescape [] = None"
| "unescape (e # t) =
    (if e = dq \<or> e = bsl then Some ([e], t)
     else if e = CHR ''a'' then Some ([CHR 7], t)
     else if e = CHR ''b'' then Some ([CHR 8], t)
     else if e = CHR ''f'' then Some ([CHR 12], t)
     else if e = CHR ''n'' then Some ([CHR 10], t)
     else if e = CHR ''r'' then Some ([CHR 13], t)
     else if e = CHR ''t'' then Some ([CHR 9], t)
     else if e = CHR ''v'' then Some ([CHR 11], t)
     else if e = CHR ''x'' then Some ([char_of (hexval (take 2 t))], drop 2 t)
     else if e = CHR ''u'' then Some (encode_rune (hexval (take 4 t)), drop 4 t)
     else if e = CHR ''U'' then Some (encode_rune (hexval (take 8 t)), drop 8 t)
     else None)"

lemma unescape_length: "unescape t = Some (p, u) \<Longrightarrow> length u < length t"
  by (cases t) (auto split: if_splits)

definition push :: "string \<Rightarrow> (string \<times> string) option \<Rightarrow> (string \<times> string) option" where
  "push p r = map_option (\<lambda>(s, t). (p @ s, t)) r"

text \<open>The decoder: the string before the closing quote, and what follows the quote.\<close>

function unquote :: "string \<Rightarrow> (string \<times> string) option" where
  "unquote [] = None"
| "unquote (c # t) =
    (if c = dq then Some ([], t)
     else if c = bsl then (case unescape t of None \<Rightarrow> None | Some (p, u) \<Rightarrow> push p (unquote u))
     else push [c] (unquote t))"
  by pat_completeness auto
termination
  by (relation "measure length") (auto dest: unescape_length)

declare unquote.simps(2) [simp del]

lemma unquote_dq [simp]: "unquote (dq # t) = Some ([], t)"
  by (simp add: unquote.simps)

lemma unquote_plain: "c \<noteq> dq \<Longrightarrow> c \<noteq> bsl \<Longrightarrow> unquote (c # t) = push [c] (unquote t)"
  by (simp add: unquote.simps)

lemma unquote_esc:
  "unescape t = Some (p, u) \<Longrightarrow> unquote (bsl # t) = push p (unquote u)"
  by (simp add: unquote.simps)

lemma push_simps [simp]: "push [] r = r" "push p (push q r) = push (p @ q) r" "push p None = None"
  "push p (Some (s, t)) = Some (p @ s, t)"
  by (cases r; simp add: push_def split_beta)+

lemma unquote_plains: "dq \<notin> set p \<Longrightarrow> bsl \<notin> set p \<Longrightarrow> unquote (p @ t) = push p (unquote t)"
  by (induction p) (auto simp: unquote_plain)

section \<open>Code points\<close>


definition valid_rune :: "string \<Rightarrow> bool" where
  "valid_rune p \<longleftrightarrow> p \<noteq> [] \<and> rune_len p = length p"

lemma rune_len_cases:
  assumes "rune_len (a # s) \<noteq> 0"
  obtains (ascii) "rune_len (a # s) = 1" "rune_len [a] = 1"
  | (two) b t where "s = b # t" "rune_len (a # s) = 2" "rune_len [a, b] = 2"
  | (three) b c t where "s = b # c # t" "rune_len (a # s) = 3" "rune_len [a, b, c] = 3"
  | (four) b c d t where "s = b # c # d # t" "rune_len (a # s) = 4" "rune_len [a, b, c, d] = 4"
proof -
  consider "in_range 0 0x7F a" | "\<not> in_range 0 0x7F a" "in_range 0xC2 0xDF a"
    | "\<not> in_range 0 0x7F a" "\<not> in_range 0xC2 0xDF a" "in_range 0xE0 0xEF a"
    | "\<not> in_range 0 0x7F a" "\<not> in_range 0xC2 0xDF a" "\<not> in_range 0xE0 0xEF a" "in_range 0xF0 0xF4 a"
    using assms by (auto simp: rune_len.simps(2) split: if_splits)
  then show thesis
  proof cases
    case 1
    then show thesis by (intro ascii) (simp_all add: rune_len.simps(2))
  next
    case 2
    with assms show thesis
      by (cases s) (auto simp: rune_len.simps(2) split: if_splits intro: two)
  next
    case 3
    with assms show thesis
      by (cases s; cases "tl s") (auto simp: rune_len.simps(2) split: if_splits intro!: three)
  next
    case 4
    with assms show thesis
      by (cases s; cases "tl s"; cases "tl (tl s)")
        (auto simp: rune_len.simps(2) split: if_splits intro!: four)
  qed
qed

lemma rune_len_take:
  assumes "rune_len (c # s) \<noteq> 0"
  shows "valid_rune (c # take (rune_len (c # s) - 1) s)"
  by (rule rune_len_cases [OF assms]) (simp_all add: valid_rune_def)

abbreviation byte :: "nat \<Rightarrow> char" where "byte \<equiv> char_of"

lemma in_range_eq: "in_range lo hi a \<longleftrightarrow> (\<exists>n. a = byte n \<and> lo \<le> n \<and> n \<le> hi \<and> n < 256)"
  by (auto simp: in_range_def intro!: exI [of _ "of_char a"])

lemma cont_byte: "in_range 0x80 0xBF a \<Longrightarrow> \<exists>y < 64. a = byte (0x80 + y :: nat)"
  by (auto simp: in_range_def intro!: exI [of _ "of_char a - 0x80"])

lemma lead_byte: "in_range lo hi a \<Longrightarrow> b \<le> lo \<Longrightarrow> \<exists>x. a = byte (b + x) \<and> lo - b \<le> x \<and> x \<le> hi - b"
  by (auto simp: in_range_def intro!: exI [of _ "of_char a - b"])

lemma lead_chars: "byte 0xE0 = CHR 0xE0" "byte 0xF0 = CHR 0xF0" "of_char dq = (34 :: nat)" "of_char bsl = (92 :: nat)"
  by code_simp+

lemma second_byte:
  assumes "in_range (if a = c then lo else 0x80) 0xBF b" and "0x80 \<le> lo" and "x = 0 \<Longrightarrow> a = c"
  shows "\<exists>y < 64. b = byte (0x80 + y) \<and> (x = 0 \<longrightarrow> lo - 0x80 \<le> y)"
proof (cases "a = c")
  case True
  then have "in_range lo 0xBF b" using assms(1) by simp
  from lead_byte [OF this assms(2)] obtain y where "b = byte (0x80 + y)" "lo - 0x80 \<le> y" "y \<le> 0xBF - 0x80"
    by blast
  then show ?thesis by (intro exI [of _ y]) auto
next
  case False
  then show ?thesis using assms(1,3) cont_byte [of b] by auto
qed

lemma rune_len_1D: "rune_len [a] = 1 \<Longrightarrow> in_range 0 0x7F a"
  by (simp add: rune_len.simps(2) split: if_splits)

lemma rune_len_2D: "rune_len [a, b] = 2 \<Longrightarrow> in_range 0xC2 0xDF a \<and> in_range 0x80 0xBF b"
  by (simp add: rune_len.simps(2) split: if_splits)

lemma rune_len_3D: "rune_len [a, b, c] = 3 \<Longrightarrow> in_range 0xE0 0xEF a
   \<and> in_range (if a = CHR 0xE0 then 0xA0 else 0x80) (if a = CHR 0xED then 0x9F else 0xBF) b \<and> in_range 0x80 0xBF c"
  by (simp only: rune_len.simps(2) list.case split: if_split_asm)

lemma rune_len_4D: "rune_len [a, b, c, d] = 4 \<Longrightarrow> in_range 0xF0 0xF4 a
   \<and> in_range (if a = CHR 0xF0 then 0x90 else 0x80) (if a = CHR 0xF4 then 0x8F else 0xBF) b
   \<and> in_range 0x80 0xBF c \<and> in_range 0x80 0xBF d"
  by (simp only: rune_len.simps(2) list.case split: if_split_asm)

lemma valid_rune_cases [consumes 1, case_names ascii two three four]:
  assumes "valid_rune p"
  obtains (ascii) x where "p = [byte x]" "x < 0x80"
  | (two) x y where "p = [byte (0xC0 + x), byte (0x80 + y)]" "2 \<le> x" "x < 32" "y < 64"
  | (three) x y z where "p = [byte (0xE0 + x), byte (0x80 + y), byte (0x80 + z)]"
      "x < 16" "y < 64" "z < 64" "x = 0 \<Longrightarrow> 32 \<le> y"
  | (four) x y z u where "p = [byte (0xF0 + x), byte (0x80 + y), byte (0x80 + z), byte (0x80 + u)]"
      "x < 5" "y < 64" "z < 64" "u < 64" "x = 0 \<Longrightarrow> 16 \<le> y"
proof -
  from assms obtain a s where p: "p = a # s" and len: "rune_len (a # s) = Suc (length s)"
    by (cases p) (auto simp: valid_rune_def)
  then have nz: "rune_len (a # s) \<noteq> 0" by simp
  show thesis
  proof (cases rule: rune_len_cases [OF nz])
    case 1
    then have "p = [a]" and "in_range 0 0x7F a" using len p rune_len_1D by auto
    then show thesis using lead_byte [of 0 "0x7F" a 0] ascii by auto
  next
    case (2 b t)
    then have "p = [a, b]" "in_range 0xC2 0xDF a" "in_range 0x80 0xBF b"
      using len p rune_len_2D [of a b] by auto
    then show thesis using lead_byte [of "0xC2" "0xDF" a "0xC0"] cont_byte [of b] two by fastforce
  next
    case (3 b c t)
    then have "p = [a, b, c]" "in_range 0xE0 0xEF a" "in_range 0x80 0xBF c"
      and b: "in_range (if a = CHR 0xE0 then 0xA0 else 0x80) 0xBF b"
      using len p rune_len_3D [of a b c] by (auto simp: in_range_def split: if_splits)
    moreover obtain x where x: "a = byte (0xE0 + x)" "x < 16"
      using calculation(2) lead_byte [of "0xE0" "0xEF" a "0xE0"] by auto
    moreover obtain y where "b = byte (0x80 + y)" "y < 64" "x = 0 \<Longrightarrow> 32 \<le> y"
      using second_byte [OF b, of x] x lead_chars(1,2) by auto
    ultimately show thesis using cont_byte [of c] three by blast
  next
    case (4 b c d t)
    then have "p = [a, b, c, d]" "in_range 0xF0 0xF4 a" "in_range 0x80 0xBF c" "in_range 0x80 0xBF d"
      and b: "in_range (if a = CHR 0xF0 then 0x90 else 0x80) 0xBF b"
      using len p rune_len_4D [of a b c d] by (auto simp: in_range_def split: if_splits)
    moreover obtain x where x: "a = byte (0xF0 + x)" "x < 5"
      using calculation(2) lead_byte [of "0xF0" "0xF4" a "0xF0"] by auto
    moreover obtain y where "b = byte (0x80 + y)" "y < 64" "x = 0 \<Longrightarrow> 16 \<le> y"
      using second_byte [OF b, of x] x lead_chars(1,2) by auto
    ultimately show thesis using cont_byte [of c] cont_byte [of d] four by blast
  qed
qed

lemma digit_div: "r < b \<Longrightarrow> (q * b + r) div b = q" and digit_mod: "r < b \<Longrightarrow> (q * b + r) mod b = (r :: nat)"
  by simp_all

lemma rune_val_two: "x < 32 \<Longrightarrow> y < 64 \<Longrightarrow> rune_val [byte (0xC0 + x), byte (0x80 + y)] = x * 64 + y"
  using digit_mod [of x 32 6] digit_mod [of y 64 2] by simp

lemma rune_val_three:
  "x < 16 \<Longrightarrow> y < 64 \<Longrightarrow> z < 64 \<Longrightarrow>
   rune_val [byte (0xE0 + x), byte (0x80 + y), byte (0x80 + z)] = x * 4096 + y * 64 + z"
  using digit_mod [of x 16 14] digit_mod [of y 64 2] digit_mod [of z 64 2] by simp

lemma rune_val_four:
  "x < 5 \<Longrightarrow> y < 64 \<Longrightarrow> z < 64 \<Longrightarrow> u < 64 \<Longrightarrow>
   rune_val [byte (0xF0 + x), byte (0x80 + y), byte (0x80 + z), byte (0x80 + u)]
     = x * 262144 + y * 4096 + z * 64 + u"
  using digit_mod [of x 8 30] digit_mod [of y 64 2] digit_mod [of z 64 2] digit_mod [of u 64 2] by simp

lemmas rune_vals = rune_val_two rune_val_three rune_val_four

declare rune_val.simps(2-4) [simp del]

lemma encode_rune_ascii: "x < 0x80 \<Longrightarrow> encode_rune x = [byte x]"
  by (simp add: encode_rune_def)

lemma encode_rune_two: "2 \<le> x \<Longrightarrow> x < 32 \<Longrightarrow> y < 64 \<Longrightarrow> encode_rune (x * 64 + y) = [byte (0xC0 + x), byte (0x80 + y)]"
  using digit_div [of y 64 x] digit_mod [of y 64 x] by (simp add: encode_rune_def)

lemma encode_rune_three:
  assumes "x < 16" "y < 64" "z < 64" "x = 0 \<Longrightarrow> 32 \<le> y"
  shows "encode_rune (x * 4096 + y * 64 + z) = [byte (0xE0 + x), byte (0x80 + y), byte (0x80 + z)]"
proof -
  have "\<not> x * 4096 + y * 64 + z < 0x800" "x * 4096 + y * 64 + z < 0x10000"
    using assms by (cases "x = 0"; simp)+
  then show ?thesis
    using assms digit_div [of "y * 64 + z" 4096 x] digit_div [of z 64 "x * 64 + y"]
      digit_mod [of y 64 x] digit_mod [of z 64 "x * 64 + y"]
    by (simp add: encode_rune_def algebra_simps)
qed

lemma encode_rune_four:
  assumes "x < 5" "y < 64" "z < 64" "u < 64" "x = 0 \<Longrightarrow> 16 \<le> y"
  shows "encode_rune (x * 262144 + y * 4096 + z * 64 + u)
    = [byte (0xF0 + x), byte (0x80 + y), byte (0x80 + z), byte (0x80 + u)]"
proof -
  have "\<not> x * 262144 + y * 4096 + z * 64 + u < 0x10000"
    using assms by (cases "x = 0"; simp)
  then show ?thesis
    using assms digit_div [of "y * 4096 + z * 64 + u" 262144 x] digit_div [of "z * 64 + u" 4096 "x * 64 + y"]
      digit_div [of u 64 "(x * 64 + y) * 64 + z"] digit_mod [of y 64 x] digit_mod [of z 64 "x * 64 + y"]
      digit_mod [of u 64 "(x * 64 + y) * 64 + z"]
    by (simp add: encode_rune_def algebra_simps)
qed

lemma encode_rune_val: "valid_rune p \<Longrightarrow> encode_rune (rune_val p) = p"
  by (erule valid_rune_cases)
    (simp_all add: rune_vals encode_rune_ascii encode_rune_two encode_rune_three encode_rune_four)

lemma rune_val_bound: "valid_rune p \<Longrightarrow> rune_val p < 0x100000000"
  by (erule valid_rune_cases) (simp_all add: rune_vals)

lemma rune_ascii: "valid_rune p \<Longrightarrow> rune_val p < 0x80 \<Longrightarrow> p = [byte (rune_val p)]"
  by (erule valid_rune_cases) (auto simp: rune_vals)

lemma high_byte:
  assumes "128 \<le> n" "n < 256"
  shows "dq \<noteq> byte n" "bsl \<noteq> byte n"
proof -
  have "of_char (byte n) = n" using assms by simp
  then show "dq \<noteq> byte n" using assms lead_chars(3) by (cases "dq = byte n") auto
  from \<open>of_char (byte n) = n\<close> show "bsl \<noteq> byte n" using assms lead_chars(4) by (cases "bsl = byte n") auto
qed

lemma rune_high: "valid_rune p \<Longrightarrow> 0x80 \<le> rune_val p \<Longrightarrow> dq \<notin> set p \<and> bsl \<notin> set p"
  by (erule valid_rune_cases) (auto simp: high_byte)

section \<open>Quoting can be undone\<close>

lemma unquote_esc_body:
  assumes "\<And>p t. valid_rune p \<Longrightarrow> unquote (f p @ t) = push p (unquote t)"
    and "valid_utf8 s \<or> (\<forall>c t. unquote (g c @ t) = push [c] (unquote t))"
  shows "unquote (esc_body f g s @ dq # r) = Some (s, r)"
  using assms
proof (induction f g s rule: esc_body.induct)
  case (2 f g c s)
  let ?n = "rune_len (c # s) - 1"
  show ?case
  proof (cases "rune_len (c # s) = 0")
    case True
    with 2 show ?thesis by (auto simp: esc_body.simps valid_utf8.simps)
  next
    case False
    have "unquote (esc_body f g (c # s) @ dq # r) = push (c # take ?n s) (unquote (esc_body f g (drop ?n s) @ dq # r))"
      using False "2.prems"(1) [OF rune_len_take [OF False]] by (simp add: esc_body.simps)
    also have "unquote (esc_body f g (drop ?n s) @ dq # r) = Some (drop ?n s, r)"
      using False "2.prems" by (intro "2.IH"(2)) (auto simp: valid_utf8.simps)
    finally show ?thesis by simp
  qed
qed simp

lemma unquote_hex:
  "unquote (bsl # CHR ''x'' # hex_byte c @ t) = push [c] (unquote t)"
  "n < 0x10000 \<Longrightarrow> unquote (bsl # CHR ''u'' # hex4 n @ t) = push (encode_rune n) (unquote t)"
  "n < 0x100000000 \<Longrightarrow> unquote (bsl # CHR ''U'' # hex8 n @ t) = push (encode_rune n) (unquote t)"
  by (simp_all add: unquote_esc hexval_hex4 hexval_hex8)

lemma byte_chars: "byte 7 = CHR 7" "byte 8 = CHR 8" "byte 9 = CHR 9" "byte 10 = CHR 10" "byte 11 = CHR 11"
  "byte 12 = CHR 12" "byte 13 = CHR 13" "byte 34 = dq" "byte 92 = bsl"
  by code_simp+

lemma unquote_named:
  "unquote (bsl # CHR ''a'' # t) = push [CHR 7] (unquote t)" "unquote (bsl # CHR ''b'' # t) = push [CHR 8] (unquote t)"
  "unquote (bsl # CHR ''f'' # t) = push [CHR 12] (unquote t)" "unquote (bsl # CHR ''n'' # t) = push [CHR 10] (unquote t)"
  "unquote (bsl # CHR ''r'' # t) = push [CHR 13] (unquote t)" "unquote (bsl # CHR ''t'' # t) = push [CHR 9] (unquote t)"
  "unquote (bsl # CHR ''v'' # t) = push [CHR 11] (unquote t)" "unquote (bsl # bsl # t) = push [bsl] (unquote t)"
  "unquote (bsl # dq # t) = push [dq] (unquote t)"
  by (simp_all add: unquote_esc)

lemma byte_plain: "r < 0x80 \<Longrightarrow> byte r = dq \<longleftrightarrow> r = 34" "r < 0x80 \<Longrightarrow> byte r = bsl \<longleftrightarrow> r = 92"
proof -
  assume "r < 0x80"
  then have r: "of_char (byte r) = r" by simp
  show "byte r = dq \<longleftrightarrow> r = 34" using r lead_chars(3) byte_chars(8) by metis
  show "byte r = bsl \<longleftrightarrow> r = 92" using r lead_chars(4) byte_chars(9) by metis
qed

lemmas unquote_runs = unquote_named unquote_hex byte_chars byte_plain unquote_plain encode_rune_ascii

lemma unquote_json_rune:
  assumes "valid_rune p"
  shows "unquote (json_rune p @ t) = push p (unquote t)"
proof (cases "rune_val p < 0x80")
  case True
  from assms True have "p = [byte (rune_val p)]" by (rule rune_ascii)
  then obtain r where p: "p = [byte r]" "rune_val p = r" by blast
  show ?thesis
    using True p by (auto simp: json_rune_def Let_def unquote_runs)
next
  case False
  then have "dq \<notin> set p" "bsl \<notin> set p" using assms rune_high by auto
  with False encode_rune_val [OF assms] show ?thesis
    by (auto simp: json_rune_def Let_def unquote_hex unquote_plains)
qed

lemma unquote_quote_rune:
  assumes "valid_rune p"
  shows "unquote (quote_rune pr p @ t) = push p (unquote t)"
proof (cases "rune_val p < 0x80")
  case True
  from assms True have "p = [byte (rune_val p)]" by (rule rune_ascii)
  then obtain r where p: "p = [byte r]" "rune_val p = r" by blast
  show ?thesis
    using True p by (simp add: quote_rune_def Let_def unquote_runs)
next
  case False
  then have "dq \<notin> set p" "bsl \<notin> set p" using assms rune_high by auto
  with False encode_rune_val [OF assms] rune_val_bound [OF assms] show ?thesis
    by (simp add: quote_rune_def Let_def unquote_hex unquote_plains)
qed

theorem unquote_Quote: "unquote (tl (Quote pr s @ r)) = Some (s, r)"
  using unquote_esc_body [of "quote_rune pr" s quote_bad r, OF unquote_quote_rune]
  by (simp add: Quote_def quote_bad_def unquote_hex)

theorem unquote_json_string: "valid_utf8 s \<Longrightarrow> unquote (tl (json_string s @ r)) = Some (s, r)"
  using unquote_esc_body [of json_rune s json_bad r, OF unquote_json_rune]
  by (simp add: json_string_def)

section \<open>Self-delimiting encodings\<close>

text \<open>
  An encoding of the values that satisfy \<open>ok\<close> which determines the value and what follows it. A
  quoted encoding starts with a fixed byte, so lists of it can be separated and closed.
\<close>

lemma Join_Cons: "Join sep (x # xs) = x @ concat (map (\<lambda>y. sep @ y) xs)"
  by (induction xs arbitrary: x) simp_all

locale prefix_code =
  fixes enc :: "'a \<Rightarrow> string" and ok :: "'a \<Rightarrow> bool"
  assumes split: "ok x \<Longrightarrow> ok y \<Longrightarrow> enc x @ r = enc y @ s \<Longrightarrow> x = y \<and> r = s"
begin

lemma enc_inj: "ok x \<Longrightarrow> ok y \<Longrightarrow> enc x = enc y \<Longrightarrow> x = y"
  using split [of x y "[]" "[]"] by simp

end

locale quoted_code = prefix_code +
  fixes q :: char
  assumes starts: "ok x \<Longrightarrow> \<exists>t. enc x = q # t"
begin

lemma tail_split:
  assumes "list_all ok xs" "list_all ok ys" "sc \<noteq> close"
    and "concat (map (\<lambda>x. sc # sep @ enc x) xs) @ close # r = concat (map (\<lambda>x. sc # sep @ enc x) ys) @ close # s"
  shows "xs = ys \<and> r = s"
  using assms
proof (induction xs arbitrary: ys)
  case Nil
  then show ?case by (cases ys) auto
next
  case (Cons x xs)
  show ?case
  proof (cases ys)
    case Nil
    with Cons.prems show ?thesis by auto
  next
    case ys: (Cons y zs)
    with Cons.prems have "enc x @ (concat (map (\<lambda>x. sc # sep @ enc x) xs) @ close # r)
      = enc y @ (concat (map (\<lambda>x. sc # sep @ enc x) zs) @ close # s)"
      by simp
    with split [OF _ _ this] Cons.prems ys Cons.IH [of zs] show ?thesis by auto
  qed
qed

lemma Join_split:
  assumes "list_all ok xs" "list_all ok ys" "sc \<noteq> close" "q \<noteq> close"
    and "Join (sc # sep) (map enc xs) @ close # r = Join (sc # sep) (map enc ys) @ close # s"
  shows "xs = ys \<and> r = s"
proof (cases xs)
  case Nil
  then show ?thesis using assms starts by (cases ys) (fastforce simp: Join_Cons)+
next
  case xs: (Cons x xs')
  show ?thesis
  proof (cases ys)
    case Nil
    then show ?thesis using assms xs starts by (fastforce simp: Join_Cons)
  next
    case ys: (Cons y ys')
    have "enc x @ (concat (map (\<lambda>x. sc # sep @ enc x) xs') @ close # r)
      = enc y @ (concat (map (\<lambda>x. sc # sep @ enc x) ys') @ close # s)"
      using assms(5) xs ys by (simp add: Join_Cons comp_def)
    with split [OF _ _ this] assms(1-3) xs ys tail_split [of xs' ys' sc close sep r s] show ?thesis by auto
  qed
qed

end

section \<open>Delimited fields\<close>

lemma delim_split:
  assumes "list_all P a" "list_all P b" "\<not> P c" "\<not> P d" "a @ c # r = b @ d # s"
  shows "a = b \<and> c = d \<and> r = s"
proof -
  have "takeWhile P (a @ c # r) = a" "takeWhile P (b @ d # s) = b"
    using assms(1-4) by (simp_all add: takeWhile_append2 list_all_iff)
  with assms(5) show ?thesis by auto
qed

definition decimal_char :: "char \<Rightarrow> bool" where
  "decimal_char c \<longleftrightarrow> c \<in> set ''-0123456789''"

definition digit_val :: "string \<Rightarrow> nat" where
  "digit_val s = foldl (\<lambda>a c. 10 * a + (of_char c - 48)) 0 s"

lemma digit_chars: "list_all (\<lambda>n. byte (48 + n) \<in> set ''0123456789'') [0..<10]"
  by code_simp

lemma digit_char: "n < 10 \<Longrightarrow> byte (48 + n) \<in> set ''0123456789''"
  using digit_chars by (simp only: list_all_iff set_upt) auto

lemma dec_nat_digits: "set (dec_nat n) \<subseteq> set ''0123456789''"
proof (induction n rule: dec_nat.induct)
  case (1 n)
  show ?case
    using 1 digit_char [of n] digit_char [of "n mod 10"] by (subst dec_nat.simps) auto
qed

lemma dec_nat_nonempty: "dec_nat n \<noteq> []"
  by (subst dec_nat.simps) simp

lemma digit_val_dec_nat: "digit_val (dec_nat n) = n"
proof (induction n rule: dec_nat.induct)
  case (1 n)
  show ?case
  proof (cases "n < 10")
    case True
    then show ?thesis by (subst dec_nat.simps) (simp add: digit_val_def)
  next
    case False
    then have "digit_val (dec_nat n) = 10 * digit_val (dec_nat (n div 10)) + n mod 10"
      by (subst dec_nat.simps) (simp add: digit_val_def)
    with False 1 show ?thesis by simp
  qed
qed

lemma Itoa_inj: "Itoa i = Itoa j \<Longrightarrow> i = j"
proof -
  assume eq: "Itoa i = Itoa j"
  have no_minus: "dec_nat n \<noteq> CHR ''-'' # t" for n t
    using dec_nat_digits [of n] by (auto simp del: dec_nat.simps)
  have "nat \<bar>i\<bar> = nat \<bar>j\<bar> \<and> (i < 0 \<longleftrightarrow> j < 0)"
    using eq no_minus no_minus [symmetric] digit_val_dec_nat
    by (auto simp: Itoa_def split: if_splits) (metis digit_val_dec_nat)+
  then show "i = j" by arith
qed

lemma decimal_chars: "list_all decimal_char ''0123456789''" "decimal_char CHR ''-''"
  by code_simp+

lemma Itoa_chars: "list_all decimal_char (Itoa i)"
proof -
  have "list_all decimal_char (dec_nat n)" for n
    using dec_nat_digits [of n] decimal_chars(1) by (simp only: list_all_iff) blast
  then show ?thesis by (simp add: Itoa_def decimal_chars(2))
qed

lemma Itoa_split:
  assumes "\<not> decimal_char c" "\<not> decimal_char d" "Itoa i @ c # r = Itoa j @ d # s"
  shows "i = j \<and> c = d \<and> r = s"
  using delim_split [OF Itoa_chars Itoa_chars assms] Itoa_inj by blast

lemma Itoa_nonempty [simp]: "Itoa i \<noteq> []"
  by (simp add: Itoa_def dec_nat_nonempty)

section \<open>Base64\<close>

definition b64_val :: "char \<Rightarrow> nat" where
  "b64_val c = length (takeWhile (\<lambda>d. d \<noteq> c) ''ABCDEFGHIJKLMNOPQRSTUVWXYZabcdefghijklmnopqrstuvwxyz0123456789+/'')"

lemma b64_chars: "list_all (\<lambda>n. b64_val (b64_char n) = n \<and> b64_char n \<noteq> dq \<and> b64_char n \<noteq> CHR ''='') [0..<64]"
  by code_simp

lemma b64_char: "n < 64 \<Longrightarrow> b64_val (b64_char n) = n \<and> b64_char n \<noteq> dq \<and> b64_char n \<noteq> CHR ''=''"
  using b64_chars by (simp only: list_all_iff set_upt) auto

lemma b64_char_inj: "m < 64 \<Longrightarrow> n < 64 \<Longrightarrow> b64_char m = b64_char n \<longleftrightarrow> m = n"
  using b64_char by metis

lemma b64_bounds:
  "of_char a div 4 < (64 :: nat)" "of_char a mod 4 * 16 + of_char b div 16 < (64 :: nat)"
  "of_char a mod 4 * 16 < (64 :: nat)" "of_char b mod 16 * 4 < (64 :: nat)"
  "of_char b mod 16 * 4 + of_char c div 64 < (64 :: nat)" "of_char c mod 64 < (64 :: nat)"
  using of_char_less [of a] of_char_less [of b] of_char_less [of c] by linarith+

lemma b64_neq:
  "n < 64 \<Longrightarrow> b64_char n \<noteq> dq" "n < 64 \<Longrightarrow> dq \<noteq> b64_char n"
  "n < 64 \<Longrightarrow> b64_char n \<noteq> CHR ''=''" "n < 64 \<Longrightarrow> CHR ''='' \<noteq> b64_char n"
  using b64_char by metis+

lemma base64_no_dq: "dq \<notin> set (base64 s)"
  by (induction s rule: base64.induct) (simp_all add: b64_neq b64_bounds)

lemma digits_eq: "r < b \<Longrightarrow> r' < b \<Longrightarrow> q * b + r = q' * b + r' \<longleftrightarrow> q = q' \<and> r = (r' :: nat)"
  by (metis digit_div digit_mod)

lemma of_char_eqI: "of_char a div n = (of_char b div n :: nat) \<Longrightarrow> of_char a mod n = (of_char b mod n :: nat) \<Longrightarrow> a = b"
  by (metis mult_div_mod_eq of_char_eq_iff)

lemma b64_pair:
  "(of_char a :: nat) mod 4 * 16 + of_char b div 16 = of_char a' mod 4 * 16 + of_char b' div 16 \<longleftrightarrow>
     (of_char a :: nat) mod 4 = of_char a' mod 4 \<and> (of_char b :: nat) div 16 = of_char b' div 16"
  "(of_char a :: nat) mod 16 * 4 + of_char b div 64 = of_char a' mod 16 * 4 + of_char b' div 64 \<longleftrightarrow>
     (of_char a :: nat) mod 16 = of_char a' mod 16 \<and> (of_char b :: nat) div 64 = of_char b' div 64"
  using of_char_less [of b] of_char_less [of b'] by (intro digits_eq; linarith)+

lemma base64_inj: "base64 s = base64 t \<Longrightarrow> s = t"
proof (induction s arbitrary: t rule: base64.induct)
  case 1
  then show ?case by (cases t rule: base64.cases) simp_all
next
  case (2 a)
  then show ?case
    by (cases t rule: base64.cases) (auto simp: b64_char_inj b64_bounds b64_neq intro: of_char_eqI)
next
  case (3 a b)
  then show ?case
    by (cases t rule: base64.cases) (auto simp: b64_char_inj b64_bounds b64_neq b64_pair intro: of_char_eqI)
next
  case (4 a b c s)
  show ?case
  proof (cases t rule: base64.cases)
    case (4 a' b' c' s')
    with "4.prems" have "a = a'" "b = b'" "c = c'" "base64 s = base64 s'"
      by (auto simp: b64_char_inj b64_bounds b64_pair intro: of_char_eqI)
    with 4 "4.IH" show ?thesis by simp
  qed (use "4.prems" in \<open>auto simp: b64_neq b64_bounds\<close>)
qed

section \<open>The encodings of the controller\<close>

interpretation quote: quoted_code "Quote pr" "\<lambda>_. True" dq for pr
proof
  fix x y r s
  assume "Quote pr x @ r = Quote pr y @ s"
  then show "x = y \<and> r = s"
    using unquote_Quote [of pr x r] unquote_Quote [of pr y s] by (metis option.inject prod.inject)
qed (simp add: Quote_def)

interpretation json_str: quoted_code json_string valid_utf8 dq
proof
  fix x y r s
  assume "valid_utf8 x" "valid_utf8 y" "json_string x @ r = json_string y @ s"
  then show "x = y \<and> r = s"
    using unquote_json_string [of x r] unquote_json_string [of y s] by (metis option.inject prod.inject)
qed (simp add: json_string_def)

text \<open>A self-delimiting encoding of values gives one of JSON objects with these values.\<close>

locale json_value = prefix_code

sublocale json_value \<subseteq> entry: quoted_code "json_entry enc" "\<lambda>(k, v). valid_utf8 k \<and> ok v" dq
proof
  fix x y r s
  assume "case x of (k, v) \<Rightarrow> valid_utf8 k \<and> ok v" "case y of (k, v) \<Rightarrow> valid_utf8 k \<and> ok v"
    and "json_entry enc x @ r = json_entry enc y @ s"
  then show "x = y \<and> r = s"
    using json_str.split [of "fst x" "fst y" "CHR '':'' # enc (snd x) @ r" "CHR '':'' # enc (snd y) @ s"]
      split [of "snd x" "snd y" r s]
    by (auto simp: json_entry_def prod_eq_iff split_beta)
next
  fix x :: "string \<times> 'a"
  show "\<exists>t. json_entry enc x = dq # t" by (simp add: json_entry_def json_string_def)
qed

lemma sorted_list_of_fmap_inj: "sorted_list_of_fmap m = sorted_list_of_fmap n \<Longrightarrow> m = n"
  by (metis map_of_sorted_list fmap_ext)

definition fm_all :: "(string \<Rightarrow> 'v \<Rightarrow> bool) \<Rightarrow> 'v gomap \<Rightarrow> bool" where
  "fm_all P m \<longleftrightarrow> list_all (\<lambda>(k, v). P k v) (sorted_list_of_fmap m)"

lemma fm_all_iff: "fm_all P m \<longleftrightarrow> fmpred P m"
  by (simp add: fm_all_def curry_def)

sublocale json_value \<subseteq> object: prefix_code "json_map enc" "fm_all (\<lambda>k v. valid_utf8 k \<and> ok v)"
proof
  fix x y :: "'a gomap" and r s
  assume ok: "fm_all (\<lambda>k v. valid_utf8 k \<and> ok v) x" "fm_all (\<lambda>k v. valid_utf8 k \<and> ok v) y"
    and eq: "json_map enc x @ r = json_map enc y @ s"
  from ok have "list_all (\<lambda>(k, v). valid_utf8 k \<and> ok v) (sorted_list_of_fmap x)"
    and "list_all (\<lambda>(k, v). valid_utf8 k \<and> ok v) (sorted_list_of_fmap y)"
    by (simp_all only: fm_all_def)
  from entry.Join_split [OF this, of "CHR '',''" "CHR 0x7D" "[]" r s] eq
  show "x = y \<and> r = s"
    by (auto simp: json_map_def dest: sorted_list_of_fmap_inj)
qed

interpretation json_b: json_value json_bytes "\<lambda>_. True"
proof
  fix x y r s
  assume "json_bytes x @ r = json_bytes y @ s"
  then show "x = y \<and> r = s"
    using delim_split [of "\<lambda>c. c \<noteq> dq" "base64 (bcontent x)" "base64 (bcontent y)" dq dq r s]
      base64_no_dq [of "bcontent x"] base64_no_dq [of "bcontent y"]
    by (auto simp: json_bytes_def list_all_iff dest: base64_inj split: option.splits)
qed

interpretation json_s: json_value json_string valid_utf8
  by unfold_locales

text \<open>ASCII strings are valid UTF-8.\<close>

definition is_ascii :: "string \<Rightarrow> bool" where
  "is_ascii s \<longleftrightarrow> list_all (\<lambda>c. of_char c < (0x80 :: nat)) s"

lemma is_ascii_valid: "is_ascii s \<Longrightarrow> valid_utf8 s"
proof (induction s rule: valid_utf8.induct)
  case (2 c s)
  then have "rune_len (c # s) = 1"
    by (simp add: is_ascii_def rune_len.simps(2) in_range_def)
  with 2 show ?case by (simp add: is_ascii_def valid_utf8.simps)
qed simp

end
