(* ===== verification/TokenManager.thy ===== *)
theory TokenManager
  imports Encodings ApiTypes "HOL-Library.Log_Nat"
begin

text \<open>
  \<^verbatim>\<open>pkg/token/token_manager.go\<close>: service account tokens, cached by a printed key and renewed before
  they expire. The API server, the clock and the random source are parameters, the record
  \<open>token_env\<close>; \<open>pr\<close> is the table of printable code points of \<open>%q\<close>.
\<close>

section \<open>State and environment\<close>

text \<open>
  The discovery \<open>once\<close> and its result live in the closure of \<^verbatim>\<open>NewManager\<close>; \<open>mg_client\<close> says whether
  the client is not nil. \<open>Float64\<close> is in units of \<open>2 ^ - 63\<close>, of which every value of
  \<^verbatim>\<open>rand.Float64\<close> is a multiple.
\<close>

record Manager =
  mg_client :: bool
  mg_once :: bool
  mg_supported :: bool
  mg_cache :: "TokenRequest gomap"

record 'w token_env =
  Now :: "'w \<Rightarrow> time \<times> 'w"
  Float64 :: "'w \<Rightarrow> nat \<times> 'w"
  ServerResourcesForGroupVersion :: "string \<Rightarrow> 'w \<Rightarrow> (error + string list) \<times> 'w"
  ServiceAccounts_CreateToken :: "string \<Rightarrow> string \<Rightarrow> TokenRequest \<Rightarrow> 'w \<Rightarrow> (error + TokenRequest) \<times> 'w"
  Time_MarshalJSON :: "time \<Rightarrow> error + string"
  isPrint :: "nat \<Rightarrow> bool"

definition NewManager :: "bool \<Rightarrow> Manager" where
  "NewManager c = \<lparr>mg_client = c, mg_once = False, mg_supported = False, mg_cache = fmempty\<rparr>"

definition Second :: int64 where "Second = 1000000000"
definition maxTTL :: int64 where "maxTTL = 24 * 3600 * Second"
definition gcPeriod :: int64 where "gcPeriod = 60 * Second"
definition maxJitter :: int64 where "maxJitter = 10 * Second"

section \<open>Fetching a token\<close>

definition tokenRequestsSupported :: "'w token_env \<Rightarrow> (Manager, 'w, bool) meth" where
  "tokenRequestsSupported E = do {
     m \<leftarrow> self;
     if mg_once m then return (mg_supported m)
     else do {
       r \<leftarrow> ext_call (\<lambda>_. DiscoverResources ''v1'') (ServerResourcesForGroupVersion E ''v1'');
       (let supported = (case r of Inl err \<Rightarrow> mg_supported m
           | Inr resources \<Rightarrow> mg_supported m \<or> ''serviceaccounts/token'' \<in> set resources) in do {
         modify_self (\<lambda>m. m\<lparr>mg_once := True, mg_supported := supported\<rparr>);
         return supported
       })
     }
   }"

definition errStandalone :: error where
  "errStandalone = ErrorString ''cannot use TokenManager when kubelet is in standalone mode''"

definition errNoEndpoints :: error where
  "errNoEndpoints = ErrorString ''the API server does not have TokenRequest endpoints enabled''"

definition getToken :: "'w token_env \<Rightarrow> string \<Rightarrow> string \<Rightarrow> TokenRequest
    \<Rightarrow> (Manager, 'w, error + TokenRequest) meth" where
  "getToken E name namespace tr = do {
     m \<leftarrow> self;
     if \<not> mg_client m then return (Inl errStandalone)
     else do {
       r \<leftarrow> ext_call (\<lambda>r. CreateToken namespace name tr (case r of Inl _ \<Rightarrow> None | Inr t \<Rightarrow> Some t))
         (ServiceAccounts_CreateToken E namespace name tr);
       case r of
         Inr tokenRequest \<Rightarrow> return (Inr tokenRequest)
       | Inl err \<Rightarrow>
           if IsNotFound err then do {
             supported \<leftarrow> tokenRequestsSupported E;
             return (if supported then Inl err else Inl errNoEndpoints)
           } else return (Inl err)
     }
   }"

section \<open>Cache keys\<close>

definition show_strings :: "(nat \<Rightarrow> bool) \<Rightarrow> string list option \<Rightarrow> string" where
  "show_strings pr a = (case a of
      None \<Rightarrow> ''[]string(nil)''
    | Some xs \<Rightarrow> ''[]string'' @ CHR 0x7B # Join '', '' (map (Quote pr) xs) @ [CHR 0x7D])"

definition show_ref :: "(nat \<Rightarrow> bool) \<Rightarrow> BoundObjectReference \<Rightarrow> string" where
  "show_ref pr ref = ''v1.BoundObjectReference'' @ CHR 0x7B #
     ''Kind:'' @ Quote pr (bor_Kind ref) @ '', APIVersion:'' @ Quote pr (bor_APIVersion ref)
     @ '', Name:'' @ Quote pr (bor_Name ref) @ '', UID:'' @ Quote pr (bor_UID ref) @ [CHR 0x7D]"

definition zeroRef :: BoundObjectReference where
  "zeroRef = \<lparr>bor_Kind = [], bor_APIVersion = [], bor_Name = [], bor_UID = []\<rparr>"

text \<open>What a key stands for: a nil expiration reads as 0 and a nil reference as the zero one.\<close>

definition key_exp :: "TokenRequest \<Rightarrow> int64" where
  "key_exp tr = (case trs_ExpirationSeconds (tr_Spec tr) of None \<Rightarrow> 0 | Some e \<Rightarrow> e)"

definition key_ref :: "TokenRequest \<Rightarrow> BoundObjectReference" where
  "key_ref tr = (case trs_BoundObjectRef (tr_Spec tr) of None \<Rightarrow> zeroRef | Some r \<Rightarrow> r)"

definition keyFunc :: "(nat \<Rightarrow> bool) \<Rightarrow> string \<Rightarrow> string \<Rightarrow> TokenRequest \<Rightarrow> string" where
  "keyFunc pr name namespace tr =
     Quote pr name @ ''/'' @ Quote pr namespace @ ''/'' @ show_strings pr (trs_Audiences (tr_Spec tr))
     @ ''/'' @ Itoa (sint (key_exp tr)) @ ''/'' @ show_ref pr (key_ref tr)"

section \<open>Expiry\<close>

text \<open>
  \<open>fl n\<close> is the natural number \<open>n\<close> rounded to 53 significant bits, half to even: double-precision
  arithmetic on the multiples of \<open>2 ^ - 63\<close>. \<open>jitter_of f\<close> is
  \<^verbatim>\<open>time.Duration(f * maxJitter.Seconds()) * time.Second\<close>.
\<close>

definition fl :: "nat \<Rightarrow> nat" where
  "fl n = (let u = 2 ^ (floorlog 2 n - 53); q = n div u; r = n mod u in
     (if u < 2 * r \<or> (u = 2 * r \<and> odd q) then (q + 1) * u else q * u))"

definition jitter_of :: "nat \<Rightarrow> int64" where
  "jitter_of f = word_of_nat (fl (f * 10) div 2 ^ 63) * Second"

definition time_Add :: "time \<Rightarrow> int64 \<Rightarrow> time" where
  "time_Add t d = t + sint d"

definition refresh_due :: "int64 \<Rightarrow> time \<Rightarrow> time \<Rightarrow> int64 \<Rightarrow> bool" where
  "refresh_due secs expiry now jitter =
     (let iat = time_Add expiry (-1 * secs * Second) in
      if now > time_Add iat (maxTTL - jitter) then True
      else if now > time_Add expiry (-1 * go_quot (secs * 20) 100 * Second - jitter) then True
      else False)"

definition requiresRefresh :: "'w token_env \<Rightarrow> TokenRequest \<Rightarrow> ('p, 'w, bool) meth" where
  "requiresRefresh E tr = (case trs_ExpirationSeconds (tr_Spec tr) of
      None \<Rightarrow> return False
    | Some secs \<Rightarrow> do {
        now \<leftarrow> ext (Now E);
        f \<leftarrow> ext (Float64 E);
        return (refresh_due secs (tst_ExpirationTimestamp (tr_Status tr)) now (jitter_of f))
      })"

definition expired :: "'w token_env \<Rightarrow> TokenRequest \<Rightarrow> ('p, 'w, bool) meth" where
  "expired E t = do {
     now \<leftarrow> ext (Now E);
     return (now > tst_ExpirationTimestamp (tr_Status t))
   }"

section \<open>The cache\<close>

definition Manager_get :: "string \<Rightarrow> (Manager, 'w, TokenRequest option) meth" where
  "Manager_get key = do {
     m \<leftarrow> self;
     return (fmlookup (mg_cache m) key)
   }"

definition cache_put :: "string \<Rightarrow> TokenRequest \<Rightarrow> Manager \<Rightarrow> Manager" where
  "cache_put key tr m = m\<lparr>mg_cache := fmupd key tr (mg_cache m)\<rparr>"

definition Manager_set :: "string \<Rightarrow> TokenRequest \<Rightarrow> (Manager, 'w, unit) meth" where
  "Manager_set key tr = modify_self (cache_put key tr)"

text \<open>
  The loop of \<^verbatim>\<open>cleanup\<close> visits the keys of the cache in an unspecified order, the argument; it reads
  the clock for each of them.
\<close>

primrec cleanup_loop :: "'w token_env \<Rightarrow> string list \<Rightarrow> (Manager, 'w, unit) meth" where
  "cleanup_loop E [] = return ()"
| "cleanup_loop E (k # ks) = do {
     m \<leftarrow> self;
     case fmlookup (mg_cache m) k of
       None \<Rightarrow> cleanup_loop E ks
     | Some tr \<Rightarrow> do {
         e \<leftarrow> expired E tr;
         if e then do {
           modify_self (\<lambda>m. m\<lparr>mg_cache := fmdrop k (mg_cache m)\<rparr>);
           cleanup_loop E ks
         } else cleanup_loop E ks
       }
   }"

definition cleanup :: "'w token_env \<Rightarrow> string list \<Rightarrow> (Manager, 'w, unit) meth" where
  "cleanup E order = cleanup_loop E order"

definition errFetch :: "error \<Rightarrow> error" where
  "errFetch err = WrapError (''failed to fetch token: '' @ Error err) err"

definition errExpired :: "string \<Rightarrow> error \<Rightarrow> error" where
  "errExpired key err = WrapError (''token '' @ key @ '' expired and refresh failed: '' @ Error err) err"

definition GetServiceAccountToken :: "'w token_env \<Rightarrow> string \<Rightarrow> string \<Rightarrow> TokenRequest
    \<Rightarrow> (Manager, 'w, error + TokenRequest) meth" where
  "GetServiceAccountToken E namespace name tr =
     (let key = keyFunc (isPrint E) name namespace tr in do {
       ctr \<leftarrow> Manager_get key;
       refresh \<leftarrow> (case ctr of None \<Rightarrow> return True | Some c \<Rightarrow> requiresRefresh E c);
       if \<not> refresh then return (Inr (the ctr))
       else do {
         r \<leftarrow> getToken E name namespace tr;
         case r of
           Inl err \<Rightarrow> (case ctr of
               None \<Rightarrow> return (Inl (errFetch err))
             | Some c \<Rightarrow> do {
                 e \<leftarrow> expired E c;
                 return (if e then Inl (errExpired key err) else Inr c)
               })
         | Inr tr' \<Rightarrow> do {
             Manager_set key tr';
             return (Inr tr')
           }
       }
     })"

section \<open>Tokens for a provider\<close>

definition tokenExpirationSeconds :: int64 where "tokenExpirationSeconds = 600"

definition audience_request :: "string \<Rightarrow> TokenRequest" where
  "audience_request aud = \<lparr>tr_Spec = \<lparr>trs_Audiences = Some [aud],
       trs_ExpirationSeconds = Some tokenExpirationSeconds, trs_BoundObjectRef = None\<rparr>,
     tr_Status = \<lparr>tst_Token = [], tst_ExpirationTimestamp = zeroTime\<rparr>\<rparr>"

primrec attrs_loop :: "'w token_env \<Rightarrow> string \<Rightarrow> string \<Rightarrow> string list \<Rightarrow> TokenRequestStatus gomap
    \<Rightarrow> (Manager, 'w, error + TokenRequestStatus gomap) meth" where
  "attrs_loop E namespace sa [] outputs = return (Inr outputs)"
| "attrs_loop E namespace sa (aud # auds) outputs = do {
     r \<leftarrow> GetServiceAccountToken E namespace sa (audience_request aud);
     case r of
       Inl err \<Rightarrow> return (Inl err)
     | Inr tr \<Rightarrow> attrs_loop E namespace sa auds (fmupd aud (tr_Status tr) outputs)
   }"

definition json_time :: "'w token_env \<Rightarrow> time \<Rightarrow> string" where
  "json_time E t = (case Time_MarshalJSON E t of Inl _ \<Rightarrow> [] | Inr s \<Rightarrow> s)"

definition json_status :: "'w token_env \<Rightarrow> TokenRequestStatus \<Rightarrow> string" where
  "json_status E st = CHR 0x7B # json_string ''token'' @ '':'' @ json_string (tst_Token st) @ '',''
     @ json_string ''expirationTimestamp'' @ '':'' @ json_time E (tst_ExpirationTimestamp st) @ [CHR 0x7D]"

definition tokensKey :: string where
  "tokensKey = ''csi.storage.k8s.io/serviceAccount.tokens''"

definition errMarshalTokens :: error where
  "errMarshalTokens = ErrorString ''failed to marshal token request output: *json.MarshalerError''"

definition SecretProviderServiceAccountTokenAttrs :: "'w token_env \<Rightarrow> string \<Rightarrow> string \<Rightarrow> string list
    \<Rightarrow> (Manager, 'w, error + string gomap option) meth" where
  "SecretProviderServiceAccountTokenAttrs E namespace serviceAccountName audiences =
     (if audiences = [] then return (Inr None)
      else do {
        r \<leftarrow> attrs_loop E namespace serviceAccountName audiences fmempty;
        return (case r of
            Inl err \<Rightarrow> Inl err
          | Inr outputs \<Rightarrow>
              if fm_all (\<lambda>aud st. is_ok (Time_MarshalJSON E (tst_ExpirationTimestamp st))) outputs
              then Inr (Some (fmupd tokensKey (json_map (json_status E) outputs) fmempty))
              else Inl errMarshalTokens)
      })"

section \<open>Cache keys identify what was asked for\<close>

interpretation key_strings: prefix_code "show_strings pr" "\<lambda>_. True" for pr
proof
  fix a b r s
  assume eq: "show_strings pr a @ r = show_strings pr b @ s"
  show "a = b \<and> r = s"
  proof (cases a; cases b)
    fix xs ys assume "a = Some xs" "b = Some ys"
    with eq quote.Join_split [where xs = xs and ys = ys and sc = "CHR '',''" and close = "CHR 0x7D"
        and sep = "'' ''" and r = r and s = s and pr = pr] show ?thesis
      by (simp add: show_strings_def list_all_iff)
  qed (use eq in \<open>simp_all add: show_strings_def\<close>)
qed

interpretation key_ref: prefix_code "show_ref pr" "\<lambda>_. True" for pr
proof
  fix a b r s
  assume eq: "show_ref pr a @ r = show_ref pr b @ s"
  then have 1: "Quote pr (bor_Kind a) @ '', APIVersion:'' @ Quote pr (bor_APIVersion a)
      @ '', Name:'' @ Quote pr (bor_Name a) @ '', UID:'' @ Quote pr (bor_UID a) @ CHR 0x7D # r
    = Quote pr (bor_Kind b) @ '', APIVersion:'' @ Quote pr (bor_APIVersion b)
      @ '', Name:'' @ Quote pr (bor_Name b) @ '', UID:'' @ Quote pr (bor_UID b) @ CHR 0x7D # s"
    by (simp add: show_ref_def)
  note 2 = quote.split [OF TrueI TrueI 1]
  then have 3: "Quote pr (bor_APIVersion a) @ '', Name:'' @ Quote pr (bor_Name a) @ '', UID:'' @ Quote pr (bor_UID a) @ CHR 0x7D # r
    = Quote pr (bor_APIVersion b) @ '', Name:'' @ Quote pr (bor_Name b) @ '', UID:'' @ Quote pr (bor_UID b) @ CHR 0x7D # s"
    by simp
  note 4 = quote.split [OF TrueI TrueI 3]
  then have 5: "Quote pr (bor_Name a) @ '', UID:'' @ Quote pr (bor_UID a) @ CHR 0x7D # r
    = Quote pr (bor_Name b) @ '', UID:'' @ Quote pr (bor_UID b) @ CHR 0x7D # s"
    by simp
  note 6 = quote.split [OF TrueI TrueI 5]
  then have 7: "Quote pr (bor_UID a) @ CHR 0x7D # r = Quote pr (bor_UID b) @ CHR 0x7D # s" by simp
  from 2 4 6 quote.split [OF TrueI TrueI 7] show "a = b \<and> r = s" by simp
qed

lemma keyFunc_key:
  "keyFunc pr name namespace tr = keyFunc pr name' namespace' tr' \<longleftrightarrow>
     name = name' \<and> namespace = namespace'
     \<and> trs_Audiences (tr_Spec tr) = trs_Audiences (tr_Spec tr')
     \<and> key_exp tr = key_exp tr' \<and> key_ref tr = key_ref tr'"
proof
  assume "keyFunc pr name namespace tr = keyFunc pr name' namespace' tr'"
  then have 1: "Quote pr name @ ''/'' @ Quote pr namespace @ ''/'' @ show_strings pr (trs_Audiences (tr_Spec tr))
     @ ''/'' @ Itoa (sint (key_exp tr)) @ ''/'' @ show_ref pr (key_ref tr)
    = Quote pr name' @ ''/'' @ Quote pr namespace' @ ''/'' @ show_strings pr (trs_Audiences (tr_Spec tr'))
     @ ''/'' @ Itoa (sint (key_exp tr')) @ ''/'' @ show_ref pr (key_ref tr')"
    by (simp only: keyFunc_def)
  note 2 = quote.split [OF TrueI TrueI 1]
  then have 3: "Quote pr namespace @ ''/'' @ show_strings pr (trs_Audiences (tr_Spec tr))
     @ ''/'' @ Itoa (sint (key_exp tr)) @ ''/'' @ show_ref pr (key_ref tr)
    = Quote pr namespace' @ ''/'' @ show_strings pr (trs_Audiences (tr_Spec tr'))
     @ ''/'' @ Itoa (sint (key_exp tr')) @ ''/'' @ show_ref pr (key_ref tr')" by simp
  note 4 = quote.split [OF TrueI TrueI 3]
  then have 5: "show_strings pr (trs_Audiences (tr_Spec tr)) @ ''/'' @ Itoa (sint (key_exp tr)) @ ''/'' @ show_ref pr (key_ref tr)
    = show_strings pr (trs_Audiences (tr_Spec tr')) @ ''/'' @ Itoa (sint (key_exp tr')) @ ''/'' @ show_ref pr (key_ref tr')" by simp
  note 6 = key_strings.split [OF TrueI TrueI 5]
  then have 7: "Itoa (sint (key_exp tr)) @ CHR ''/'' # show_ref pr (key_ref tr)
    = Itoa (sint (key_exp tr')) @ CHR ''/'' # show_ref pr (key_ref tr')" by simp
  note 8 = Itoa_split [OF _ _ 7]
  then have 9: "sint (key_exp tr) = sint (key_exp tr')" "show_ref pr (key_ref tr) = show_ref pr (key_ref tr')"
    by (simp_all add: decimal_char_def)
  from 2 4 6 9 key_ref.enc_inj [OF TrueI TrueI 9(2)]
  show "name = name' \<and> namespace = namespace'
     \<and> trs_Audiences (tr_Spec tr) = trs_Audiences (tr_Spec tr')
     \<and> key_exp tr = key_exp tr' \<and> key_ref tr = key_ref tr'" by (simp add: signed_word_eqI)
qed (simp add: keyFunc_def)

text \<open>
  C16: Two requests share a cache key only if they ask for the same service account in the same
  namespace, for the same audiences (nil and empty apart), the same expiration (nil read as 0) and
  the same bound object (nil read as the zero reference), whatever characters the names contain.
\<close>

theorem keyFunc_injective:
  "keyFunc pr name namespace tr = keyFunc pr name' namespace' tr' \<longleftrightarrow>
     name = name' \<and> namespace = namespace'
     \<and> trs_Audiences (tr_Spec tr) = trs_Audiences (tr_Spec tr')
     \<and> key_exp tr = key_exp tr' \<and> key_ref tr = key_ref tr'"
  by (rule keyFunc_key)

section \<open>The refresh window\<close>

lemma sint_mult_bound:
  fixes a b :: int64
  assumes "- (2 ^ 63) \<le> sint a * sint b" and "sint a * sint b < 2 ^ 63"
  shows "sint (a * b) = sint a * sint b"
  using assms by (simp add: sint_word_ariths signed_take_bit_int_eq_self)

lemma sint_minus_bound:
  fixes a b :: int64
  assumes "- (2 ^ 63) \<le> sint a - sint b" and "sint a - sint b < 2 ^ 63"
  shows "sint (a - b) = sint a - sint b"
  using assms by (simp add: sint_word_ariths signed_take_bit_int_eq_self)

lemma sint_consts:
  "sint (Second) = 1000000000" "sint maxTTL = 86400000000000" "sint (-1 :: int64) = -1"
  "sint (20 :: int64) = 20" "sint (100 :: int64) = 100"
  by (simp_all add: Second_def maxTTL_def)

lemma sint_go_quot_100:
  assumes "0 \<le> sint a"
  shows "sint (go_quot a 100) = sint a div 100"
proof -
  have "sint a < 2 ^ 63" using sint_lt [of a] by simp
  with assms have "0 \<le> sint a div 100" "sint a div 100 < 2 ^ 63" by auto
  with assms show ?thesis
    by (simp add: go_quot_def sint_consts signed_divide_int_def sint_sbintrunc' signed_take_bit_int_eq_self sgn_if)
qed

lemma refresh_due_aux:
  assumes "0 \<le> sint secs" "sint secs \<le> 9223372036" "0 \<le> sint jitter" "sint jitter \<le> 10000000000"
  shows "refresh_due secs expiry now jitter \<longleftrightarrow>
     expiry - sint secs * 1000000000 + 86400000000000 - sint jitter < now
     \<or> expiry - sint secs * 20 div 100 * 1000000000 - sint jitter < now"
proof -
  have n: "sint (-1 * secs) = - sint secs"
    using sint_mult_bound [of "-1" secs] assms by (simp add: sint_consts)
  have a: "sint (-1 * secs * Second) = - sint secs * 1000000000"
    using sint_mult_bound [of "-1 * secs" Second] assms n by (simp add: sint_consts)
  have t: "sint (maxTTL - jitter) = 86400000000000 - sint jitter"
    using sint_minus_bound [of maxTTL jitter] assms by (simp add: sint_consts)
  have m: "sint (secs * 20) = sint secs * 20"
    using sint_mult_bound [of secs 20] assms by (simp add: sint_consts)
  have q: "sint (go_quot (secs * 20) 100) = sint secs * 20 div 100"
    using sint_go_quot_100 [of "secs * 20"] assms m by simp
  have qb: "0 \<le> sint secs * 20 div 100" "sint secs * 20 div 100 \<le> 1844674408" using assms by auto
  have nq: "sint (-1 * go_quot (secs * 20) 100) = - (sint secs * 20 div 100)"
    using sint_mult_bound [of "-1" "go_quot (secs * 20) 100"] q qb by (simp add: sint_consts)
  have p: "sint (-1 * go_quot (secs * 20) 100 * Second) = - (sint secs * 20 div 100) * 1000000000"
    using sint_mult_bound [of "-1 * go_quot (secs * 20) 100" Second] nq qb by (simp add: sint_consts)
  have d: "sint (-1 * go_quot (secs * 20) 100 * Second - jitter)
      = - (sint secs * 20 div 100) * 1000000000 - sint jitter"
    using sint_minus_bound [of "-1 * go_quot (secs * 20) 100 * Second" jitter] p qb assms by simp
  show ?thesis
    unfolding refresh_due_def Let_def time_Add_def a t d by (auto simp: algebra_simps)
qed

text \<open>
  C29: For a lifetime between 0 and 9223372036 seconds (292 years) no arithmetic of requiresRefresh
  overflows: a refresh is due exactly when the token is older than 24 hours less the jitter, or when
  less than a fifth of its lifetime plus the jitter is left.
\<close>

theorem refresh_due_exact:
  assumes "0 \<le> sint secs" "sint secs \<le> 9223372036" "0 \<le> sint jitter" "sint jitter \<le> 10000000000"
  shows "refresh_due secs expiry now jitter \<longleftrightarrow>
     expiry - sint secs * 1000000000 + 86400000000000 - sint jitter < now
     \<or> expiry - sint secs * 20 div 100 * 1000000000 - sint jitter < now"
  using assms by (rule refresh_due_aux)

theorem refresh_due_exact_witness:
  "refresh_due 600 1000000000000 900000000000 3000000000 \<longleftrightarrow>
     1000000000000 - 600 * 1000000000 + 86400000000000 - 3000000000 < (900000000000 :: int)
     \<or> 1000000000000 - 600 * 20 div 100 * 1000000000 - 3000000000 < (900000000000 :: int)"
  using refresh_due_exact [of 600 3000000000 1000000000000 900000000000] by simp

section \<open>Where cached tokens come from\<close>

interpretation cache: keyed_store "\<lambda>m. fmlookup (mg_cache m)" cache_put "\<lambda>_. True"
  by unfold_locales (simp_all add: cache_put_def)

text \<open>\<open>issued pr calls k t\<close>: the API server answered with \<open>t\<close> to a request whose key is \<open>k\<close>.\<close>

definition issued :: "(nat \<Rightarrow> bool) \<Rightarrow> call list \<Rightarrow> string \<Rightarrow> TokenRequest \<Rightarrow> bool" where
  "issued pr calls k t \<longleftrightarrow> (\<exists>namespace name tr.
     CreateToken namespace name tr (Some t) \<in> set calls \<and> k = keyFunc pr name namespace tr)"

definition cache_ok :: "(nat \<Rightarrow> bool) \<Rightarrow> Manager \<Rightarrow> call list \<Rightarrow> bool" where
  "cache_ok pr m calls \<longleftrightarrow> cache.entries_ok (issued pr calls) m"

lemma issued_mono: "issued pr calls k t \<Longrightarrow> issued pr (calls @ later) k t"
  by (auto simp: issued_def)

lemma cache_ok_more: "cache_ok pr m calls \<Longrightarrow> mg_cache m' = mg_cache m \<Longrightarrow> cache_ok pr m' (calls @ later)"
  by (auto simp: cache_ok_def cache.entries_ok_def intro: issued_mono)

lemma cache_ok_put:
  "cache_ok pr m calls \<Longrightarrow> issued pr calls k t \<Longrightarrow> cache_ok pr (cache_put k t m) calls"
  by (simp add: cache_ok_def cache.entries_ok_insert)

lemma cache_ok_NewManager: "cache_ok pr (NewManager c) calls"
  by (simp add: cache_ok_def cache.entries_ok_def NewManager_def)

lemma run_requiresRefresh:
  "run_state (requiresRefresh E tr) (m, w) = (b, (m', w')) \<Longrightarrow> m' = m \<and> trace w' = trace w"
  by (auto simp: requiresRefresh_def run_simps split: option.splits)

lemma run_expired:
  "run_state (expired E tr) (m, w) = (tst_ExpirationTimestamp (tr_Status tr) < fst (Now E (env_state w)),
     (m, w\<lparr>env_state := snd (Now E (env_state w))\<rparr>))"
  by (simp add: expired_def run_simps)

text \<open>What a fetch does to the manager and what it leaves in the trace.\<close>

definition fetch_calls :: "string \<Rightarrow> string \<Rightarrow> TokenRequest \<Rightarrow> error + TokenRequest \<Rightarrow> call list \<Rightarrow> bool" where
  "fetch_calls namespace name tr r calls \<longleftrightarrow> (case r of
      Inr t \<Rightarrow> calls = [CreateToken namespace name tr (Some t)]
    | Inl err \<Rightarrow> calls = [CreateToken namespace name tr None]
        \<or> calls = [CreateToken namespace name tr None, DiscoverResources ''v1'']
        \<or> calls = [] \<and> err = errStandalone)"

lemma run_tokenRequestsSupported:
  assumes "run_state (tokenRequestsSupported E) (m, w) = (b, (m', w'))"
  shows "mg_cache m' = mg_cache m \<and> (trace w' = trace w \<or> trace w' = trace w @ [DiscoverResources ''v1''])"
  using assms by (auto simp: tokenRequestsSupported_def run_simps Let_def split: if_splits)

lemma run_getToken:
  assumes "run_state (getToken E name namespace tr) (m, w) = (r, (m', w'))"
  shows "\<exists>calls. trace w' = trace w @ calls \<and> mg_cache m' = mg_cache m
     \<and> fetch_calls namespace name tr r calls"
proof (cases "mg_client m")
  case False
  with assms show ?thesis by (auto simp: getToken_def run_simps fetch_calls_def)
next
  case client: True
  obtain a e where a: "ServiceAccounts_CreateToken E namespace name tr (env_state w) = (a, e)" by fastforce
  show ?thesis
  proof (cases a)
    case (Inr t)
    with a client assms show ?thesis by (auto simp: getToken_def run_simps fetch_calls_def)
  next
    case (Inl err)
    let ?w = "w\<lparr>env_state := e, trace := trace w @ [CreateToken namespace name tr None]\<rparr>"
    obtain b m1 w1 where t: "run_state (tokenRequestsSupported E) (m, ?w) = (b, (m1, w1))"
      by (rule run_obtain)
    from run_tokenRequestsSupported [OF t] t a client Inl assms show ?thesis
      by (cases "IsNotFound err") (auto simp: getToken_def run_simps fetch_calls_def split: if_splits)
  qed
qed

text \<open>
  The four ways GetServiceAccountToken can end, with the calls it made: the cached token, a new
  token that is now cached, the old token after a failed renewal, or an error.
\<close>

definition token_outcome :: "'w token_env \<Rightarrow> string \<Rightarrow> string \<Rightarrow> TokenRequest \<Rightarrow> Manager
    \<Rightarrow> error + TokenRequest \<Rightarrow> Manager \<Rightarrow> call list \<Rightarrow> bool" where
  "token_outcome E namespace name tr m r m' calls \<longleftrightarrow>
     (let key = keyFunc (isPrint E) name namespace tr in
      case r of
        Inr t \<Rightarrow> calls = [] \<and> m' = m \<and> fmlookup (mg_cache m) key = Some t
          \<or> calls = [CreateToken namespace name tr (Some t)] \<and> mg_cache m' = fmupd key t (mg_cache m)
          \<or> mg_cache m' = mg_cache m \<and> fmlookup (mg_cache m) key = Some t
              \<and> (\<exists>err. fetch_calls namespace name tr (Inl err) calls)
      | Inl e \<Rightarrow> mg_cache m' = mg_cache m \<and> (\<exists>err. fetch_calls namespace name tr (Inl err) calls
          \<and> (if fmlookup (mg_cache m) key = None then e = errFetch err else e = errExpired key err)))"

lemma run_GetServiceAccountToken:
  assumes "run_state (GetServiceAccountToken E namespace name tr) (m, w) = (r, (m', w'))"
  shows "\<exists>calls. trace w' = trace w @ calls \<and> token_outcome E namespace name tr m r m' calls"
proof -
  let ?key = "keyFunc (isPrint E) name namespace tr"
  let ?ctr = "fmlookup (mg_cache m) ?key"
  note defs = GetServiceAccountToken_def Manager_get_def Manager_set_def Let_def run_simps run_expired
    token_outcome_def
  obtain b m1 w1 where b: "run_state (case ?ctr of None \<Rightarrow> return True | Some c \<Rightarrow> requiresRefresh E c) (m, w)
      = (b, (m1, w1))" by (rule run_obtain)
  then have 1: "m1 = m" "trace w1 = trace w" "?ctr = None \<Longrightarrow> b"
    by (auto dest: run_requiresRefresh split: option.splits)
  show ?thesis
  proof (cases b)
    case False
    with 1(3) obtain c where "?ctr = Some c" by auto
    with False b 1 assms show ?thesis by (auto simp: defs)
  next
    case True
    obtain a m2 w2 where a: "run_state (getToken E name namespace tr) (m, w1) = (a, (m2, w2))"
      by (rule run_obtain)
    obtain calls where g: "trace w2 = trace w @ calls" "mg_cache m2 = mg_cache m"
      "fetch_calls namespace name tr a calls" using run_getToken [OF a] 1 by auto
    have "case a of
        Inr t \<Rightarrow> r = Inr t \<and> m' = cache_put ?key t m2 \<and> w' = w2
      | Inl err \<Rightarrow> m' = m2 \<and> trace w' = trace w2 \<and> (case ?ctr of
            None \<Rightarrow> r = Inl (errFetch err)
          | Some c \<Rightarrow> r = Inl (errExpired ?key err) \<or> r = Inr c)"
    proof (cases a)
      case (Inr t)
      with True a b 1 assms show ?thesis by (auto simp: defs)
    next
      case (Inl err)
      with True a b 1 assms show ?thesis by (cases ?ctr) (auto simp: defs split: if_splits)
    qed
    with g show ?thesis
      by (intro exI [of _ calls])
        (auto simp: token_outcome_def Let_def cache_put_def fetch_calls_def split: sum.splits option.splits)
  qed
qed

lemma isolation_aux:
  assumes "cache_ok (isPrint E) m (trace w)"
    and "run_state (GetServiceAccountToken E namespace name tr) (m, w) = (r, (m', w'))"
  shows "cache_ok (isPrint E) m' (trace w') \<and>
     (case r of
        Inl _ \<Rightarrow> True
      | Inr t \<Rightarrow> \<exists>req. CreateToken namespace name req (Some t) \<in> set (trace w')
          \<and> trs_Audiences (tr_Spec tr) = trs_Audiences (tr_Spec req)
          \<and> key_exp tr = key_exp req \<and> key_ref tr = key_ref req)"
proof -
  let ?key = "keyFunc (isPrint E) name namespace tr"
  obtain calls where c: "trace w' = trace w @ calls" and o: "token_outcome E namespace name tr m r m' calls"
    using run_GetServiceAccountToken [OF assms(2)] by blast
  have issued: "issued (isPrint E) (trace w') ?key t" if "r = Inr t" for t
  proof -
    from o that have "fmlookup (mg_cache m) ?key = Some t \<or> CreateToken namespace name tr (Some t) \<in> set calls"
      by (auto simp: token_outcome_def Let_def)
    with assms(1) c show ?thesis
      using cache.entries_okD [of "issued (isPrint E) (trace w)" m ?key t]
      by (auto simp: cache_ok_def issued_def)
  qed
  have "cache_ok (isPrint E) m' (trace w')"
  proof (cases "mg_cache m' = mg_cache m")
    case True
    with assms(1) c show ?thesis by (simp add: cache_ok_more)
  next
    case False
    with o obtain t where t: "r = Inr t" "mg_cache m' = fmupd ?key t (mg_cache m)"
      by (auto simp: token_outcome_def Let_def split: sum.splits)
    have "cache_ok (isPrint E) (cache_put ?key t m) (trace w')"
      using assms(1) c issued [OF t(1)] by (simp add: cache_ok_more cache_ok_put)
    with t(2) show ?thesis by (simp add: cache_ok_def cache.entries_ok_def cache_put_def)
  qed
  with issued show ?thesis
    by (auto simp: issued_def keyFunc_key split: sum.splits)
qed

text \<open>
  C15: Token isolation. When every cached token was issued by the API server for the request its
  key prints, the token GetServiceAccountToken returns was issued, in this or an earlier call, for
  the very service account, namespace and audiences asked for, and the cache keeps that invariant:
  a token never leaks to another account, namespace or audience.
\<close>

theorem GetServiceAccountToken_isolation:
  assumes "cache_ok (isPrint E) m (trace w)"
    and "run_state (GetServiceAccountToken E namespace name tr) (m, w) = (r, (m', w'))"
  shows "cache_ok (isPrint E) m' (trace w') \<and>
     (case r of
        Inl _ \<Rightarrow> True
      | Inr t \<Rightarrow> \<exists>req. CreateToken namespace name req (Some t) \<in> set (trace w')
          \<and> trs_Audiences (tr_Spec tr) = trs_Audiences (tr_Spec req)
          \<and> key_exp tr = key_exp req \<and> key_ref tr = key_ref req)"
  using assms by (rule isolation_aux)

text \<open>An API server that issues ten-minute tokens at time 0, for concrete runs.\<close>

definition demo_token :: "string \<Rightarrow> TokenRequest \<Rightarrow> TokenRequest" where
  "demo_token name tr = tr\<lparr>tr_Status := \<lparr>tst_Token = name, tst_ExpirationTimestamp = 600000000000\<rparr>\<rparr>"

definition demo_tokens :: "'w token_env" where
  "demo_tokens = \<lparr>Now = (\<lambda>w. (0, w)), Float64 = (\<lambda>w. (0, w)),
     ServerResourcesForGroupVersion = (\<lambda>g w. (Inr [], w)),
     ServiceAccounts_CreateToken = (\<lambda>namespace name tr w. (Inr (demo_token name tr), w)),
     Time_MarshalJSON = (\<lambda>t. Inr ''0''), isPrint = (\<lambda>r. False)\<rparr>"

definition demo_world :: "(unit, call) world" where
  "demo_world = \<lparr>env_state = (), trace = []\<rparr>"

lemma demo_GetServiceAccountToken:
  "run_state (GetServiceAccountToken demo_tokens ''ns'' ''sa'' tr) (NewManager True, demo_world) =
     (Inr (demo_token ''sa'' tr),
      (cache_put (keyFunc (\<lambda>r. False) ''sa'' ''ns'' tr) (demo_token ''sa'' tr) (NewManager True),
       demo_world\<lparr>trace := [CreateToken ''ns'' ''sa'' tr (Some (demo_token ''sa'' tr))]\<rparr>))"
  by (simp add: GetServiceAccountToken_def Manager_get_def Manager_set_def getToken_def run_simps Let_def
      NewManager_def demo_tokens_def demo_world_def)

theorem GetServiceAccountToken_isolation_witness:
  "cache_ok (\<lambda>r. False) (cache_put (keyFunc (\<lambda>r. False) ''sa'' ''ns'' (audience_request ''a''))
      (demo_token ''sa'' (audience_request ''a'')) (NewManager True))
     [CreateToken ''ns'' ''sa'' (audience_request ''a'') (Some (demo_token ''sa'' (audience_request ''a'')))]"
  using GetServiceAccountToken_isolation [OF _ demo_GetServiceAccountToken, of "audience_request ''a''"]
  by (simp add: cache_ok_NewManager demo_tokens_def demo_world_def)

section \<open>When tokens are renewed\<close>

text \<open>
  While the clock has not passed the expiry of the cached token, GetServiceAccountToken does not
  fail, whatever the API server answers.
\<close>

theorem GetServiceAccountToken_no_error:
  assumes "fmlookup (mg_cache m) (keyFunc (isPrint E) name namespace tr) = Some c"
    and "\<And>w. fst (Now E w) \<le> tst_ExpirationTimestamp (tr_Status c)"
  shows "is_ok (fst (run_state (GetServiceAccountToken E namespace name tr) (m, w)))"
proof -
  obtain b m1 w1 where b: "run_state (requiresRefresh E c) (m, w) = (b, (m1, w1))" by (rule run_obtain)
  then have "m1 = m" by (simp add: run_requiresRefresh)
  obtain a m2 w2 where "run_state (getToken E name namespace tr) (m, w1) = (a, (m2, w2))"
    by (rule run_obtain)
  with b \<open>m1 = m\<close> assms show ?thesis
    by (cases b; cases a) (auto simp: GetServiceAccountToken_def Manager_get_def Manager_set_def run_simps
        run_expired Let_def not_less [symmetric])
qed

theorem GetServiceAccountToken_no_error_witness:
  "is_ok (fst (run_state (GetServiceAccountToken
      (demo_tokens\<lparr>ServiceAccounts_CreateToken := \<lambda>namespace name tr w. (Inl (ErrorString ''down''), w)\<rparr>)
      ''ns'' ''sa'' (audience_request ''a''))
    (cache_put (keyFunc (\<lambda>r. False) ''sa'' ''ns'' (audience_request ''a''))
      (demo_token ''sa'' (audience_request ''a'')) (NewManager True), demo_world)))"
  by (rule GetServiceAccountToken_no_error [where c = "demo_token ''sa'' (audience_request ''a'')"])
    (simp_all add: demo_tokens_def demo_token_def cache_put_def)

text \<open>
  \<^verbatim>\<open>rand.Float64\<close> returns a double in the half-open unit interval: the rounded product with 10 stays below 10,
  so the jitter is a whole number of seconds from 0 to 9.
\<close>

lemma fl_le_pow:
  assumes "n < 2 ^ k" "53 \<le> k"
  shows "fl n \<le> 2 ^ k"
proof -
  let ?e = "floorlog 2 n - 53"
  have "floorlog 2 n \<le> k" using assms(1) by (cases "n = 0") (simp_all add: floorlog_leI)
  then have "2 ^ ?e dvd (2 :: nat) ^ k" by (simp add: le_imp_power_dvd)
  then obtain c where c: "2 ^ k = 2 ^ ?e * (c :: nat)" ..
  with assms(1) have "n div 2 ^ ?e < c" by (simp add: less_mult_imp_div_less mult.commute)
  then have "(n div 2 ^ ?e + 1) * 2 ^ ?e \<le> c * 2 ^ ?e" by (intro mult_right_mono) simp_all
  then have "(n div 2 ^ ?e + 1) * 2 ^ ?e \<le> 2 ^ k" by (simp only: c mult.commute)
  then show ?thesis by (auto simp: fl_def Let_def)
qed

lemma floorlog_range: "2 ^ k \<le> n \<Longrightarrow> n < 2 ^ Suc k \<Longrightarrow> floorlog 2 n = Suc k"
  by (intro antisym floorlog_leI floorlog_geI) simp_all

lemma double_below_one:
  assumes "fl f = f" "f < 2 ^ 63"
  shows "f \<le> 2 ^ 63 - 2 ^ 10"
proof (cases "f < 2 ^ 62")
  case False
  then have "floorlog 2 f = 63" using floorlog_range [of 62 f] assms by simp
  then have "fl f mod 1024 = 0" by (simp add: fl_def Let_def)
  then have "1024 dvd f" using assms(1) by (simp add: mod_eq_0_iff_dvd)
  then obtain k where "f = 1024 * k" ..
  with assms(2) show ?thesis by simp
qed simp

lemma fl_ten_bound:
  assumes "n \<le> 10 * 2 ^ 63 - 10240"
  shows "fl n < 10 * 2 ^ 63"
proof (cases "n < 2 ^ 66")
  case True
  then show ?thesis using fl_le_pow [of n 66] by simp
next
  case False
  have "floorlog 2 n = 67" using floorlog_range [of 66 n] False assms by simp
  then have u: "fl n = (if 16384 < 2 * (n mod 16384) \<or> 16384 = 2 * (n mod 16384) \<and> odd (n div 16384)
      then (n div 16384 + 1) * 16384 else n div 16384 * 16384)"
    by (simp add: fl_def Let_def)
  have s: "n = n div 16384 * 16384 + n mod 16384" by (rule div_mult_mod_eq [symmetric])
  have "fl n \<le> n + 8192"
  proof (cases "16384 \<le> 2 * (n mod 16384)")
    case True
    have "fl n \<le> n div 16384 * 16384 + 16384" unfolding u by simp
    with s True show ?thesis by linarith
  next
    case False
    with u have "fl n = n div 16384 * 16384" by simp
    with s show ?thesis by linarith
  qed
  with assms show ?thesis by simp
qed

lemma jitter_bounds_aux:
  assumes "fl f = f" "f < 2 ^ 63"
  shows "\<exists>k < 10. jitter_of f = word_of_nat k * Second \<and> sint (jitter_of f) = int k * 1000000000"
proof -
  let ?k = "fl (f * 10) div 2 ^ 63"
  have k: "?k < 10" using fl_ten_bound [of "f * 10"] double_below_one [OF assms] by (simp add: div_less_iff_less_mult)
  then have "sint (word_of_nat ?k :: int64) = int ?k"
    by (simp add: signed_of_nat signed_take_bit_int_eq_self)
  with k have "sint (jitter_of f) = int ?k * 1000000000"
    using sint_mult_bound [of "word_of_nat ?k" Second] by (simp add: jitter_of_def sint_consts)
  with k show ?thesis by (auto simp: jitter_of_def)
qed

text \<open>
  The jitter that requiresRefresh draws is a whole number of seconds between 0 and 9, for every
  double of the half-open unit interval.
\<close>

theorem jitter_bounds:
  assumes "fl f = f" "f < 2 ^ 63"
  shows "\<exists>k < 10. jitter_of f = word_of_nat k * Second \<and> sint (jitter_of f) = int k * 1000000000"
  using assms by (rule jitter_bounds_aux)

theorem jitter_bounds_witness:
  "\<exists>k < 10. jitter_of 0 = word_of_nat k * Second \<and> sint (jitter_of 0) = int k * 1000000000"
  by (rule jitter_bounds) (simp_all add: fl_def)

text \<open>
  The ten-minute tokens the controller asks for are used as they are until 129 seconds before
  they expire, and are always renewed during their last 120 seconds.
\<close>

theorem ten_minute_window:
  assumes "fl f = f" "f < 2 ^ 63"
  shows "if now \<le> expiry - 129 * 1000000000 then \<not> refresh_due tokenExpirationSeconds expiry now (jitter_of f)
     else if expiry - 120 * 1000000000 < now then refresh_due tokenExpirationSeconds expiry now (jitter_of f)
     else True"
proof -
  obtain k where k: "k < 10" "sint (jitter_of f) = int k * 1000000000"
    using jitter_bounds_aux [OF assms] by blast
  have "refresh_due tokenExpirationSeconds expiry now (jitter_of f) \<longleftrightarrow>
     expiry - 600 * 1000000000 + 86400000000000 - int k * 1000000000 < now
     \<or> expiry - 120 * 1000000000 - int k * 1000000000 < now"
    using refresh_due_aux [of tokenExpirationSeconds "jitter_of f" expiry now] k
    by (simp add: tokenExpirationSeconds_def)
  with k(1) show ?thesis by auto
qed

theorem ten_minute_window_witness:
  "refresh_due tokenExpirationSeconds 600000000000 500000000000 (jitter_of 0)"
  using ten_minute_window [of 0 500000000000 600000000000] by (simp add: fl_def)

text \<open>
  A cached token whose spec has no expiration is handed out for ever, even when it has expired:
  no renewal is attempted until cleanup drops it.
\<close>

theorem GetServiceAccountToken_nil_expiration:
  assumes "fmlookup (mg_cache m) (keyFunc (isPrint E) name namespace tr) = Some c"
    and "trs_ExpirationSeconds (tr_Spec c) = None"
  shows "run_state (GetServiceAccountToken E namespace name tr) (m, w) = (Inr c, (m, w))"
  using assms by (simp add: GetServiceAccountToken_def Manager_get_def requiresRefresh_def run_simps Let_def)

definition demo_endless :: TokenRequest where
  "demo_endless = \<lparr>tr_Spec = \<lparr>trs_Audiences = None, trs_ExpirationSeconds = None, trs_BoundObjectRef = None\<rparr>,
     tr_Status = \<lparr>tst_Token = ''t'', tst_ExpirationTimestamp = -1\<rparr>\<rparr>"

theorem GetServiceAccountToken_nil_expiration_witness:
  "run_state (GetServiceAccountToken demo_tokens ''ns'' ''sa'' demo_endless)
     (cache_put (keyFunc (\<lambda>r. False) ''sa'' ''ns'' demo_endless) demo_endless (NewManager True), demo_world)
   = (Inr demo_endless,
     (cache_put (keyFunc (\<lambda>r. False) ''sa'' ''ns'' demo_endless) demo_endless (NewManager True), demo_world))"
  by (rule GetServiceAccountToken_nil_expiration)
    (simp_all add: cache_put_def demo_tokens_def demo_endless_def)

section \<open>Cleanup\<close>

definition kept_entry :: "time \<Rightarrow> time \<Rightarrow> TokenRequest option \<Rightarrow> TokenRequest option \<Rightarrow> bool" where
  "kept_entry t0 t1 old new \<longleftrightarrow> (case old of
      None \<Rightarrow> new = None
    | Some tr \<Rightarrow> if tst_ExpirationTimestamp (tr_Status tr) < t0 then new = None
        else if t1 \<le> tst_ExpirationTimestamp (tr_Status tr) then new = Some tr
        else new \<in> {None, Some tr})"

lemma kept_entry_None [simp]: "kept_entry t0 t1 None new \<longleftrightarrow> new = None"
  by (simp add: kept_entry_def)

lemma run_cleanup_loop:
  assumes "run_state (cleanup_loop E ks) (m, w) = (u, (m', w'))"
    and clock: "\<And>w. t0 \<le> fst (Now E w) \<and> fst (Now E w) \<le> t1"
  shows "trace w' = trace w \<and> m' = m\<lparr>mg_cache := mg_cache m'\<rparr> \<and>
     (if k \<in> set ks then kept_entry t0 t1 (fmlookup (mg_cache m) k) (fmlookup (mg_cache m') k)
      else fmlookup (mg_cache m') k = fmlookup (mg_cache m) k)"
  using assms(1)
proof (induction ks arbitrary: m w)
  case Nil
  then show ?case by simp
next
  case (Cons x ks)
  show ?case
  proof (cases "fmlookup (mg_cache m) x")
    case None
    with Cons.prems Cons.IH [of m w] show ?thesis
      by (cases "k = x"; cases "x \<in> set ks") (auto simp: run_simps)
  next
    case (Some tr)
    let ?now = "fst (Now E (env_state w))" and ?w = "w\<lparr>env_state := snd (Now E (env_state w))\<rparr>"
    let ?m = "if tst_ExpirationTimestamp (tr_Status tr) < ?now then m\<lparr>mg_cache := fmdrop x (mg_cache m)\<rparr> else m"
    have run: "run_state (cleanup_loop E ks) (?m, ?w) = (u, (m', w'))"
      using Cons.prems Some by (simp add: run_simps run_expired split: if_splits)
    show ?thesis
    proof (cases "k = x")
      case True
      with Cons.IH [OF run] clock [of "env_state w"] Some show ?thesis
        by (cases "x \<in> set ks") (auto simp: kept_entry_def split: if_splits)
    next
      case False
      with Cons.IH [OF run] show ?thesis by (auto split: if_splits)
    qed
  qed
qed

text \<open>
  C30: Cleanup, over the cached keys in any order and with a clock that reads between t0 and t1
  meanwhile, drops every token that expired before t0, keeps every token that lives until t1, touches
  nothing else and calls nobody.
\<close>

theorem cleanup_drops_expired:
  assumes "run_state (cleanup E order) (m, w) = (u, (m', w'))"
    and "\<And>w. t0 \<le> fst (Now E w) \<and> fst (Now E w) \<le> t1"
    and "set order = fset (fmdom (mg_cache m))"
  shows "kept_entry t0 t1 (fmlookup (mg_cache m) k) (fmlookup (mg_cache m') k)
     \<and> m' = m\<lparr>mg_cache := mg_cache m'\<rparr> \<and> trace w' = trace w"
proof (cases "fmlookup (mg_cache m) k")
  case None
  with run_cleanup_loop [OF assms(1) [unfolded cleanup_def] assms(2), of k] assms(3) show ?thesis
    by (simp add: kept_entry_def fmdom_notD split: if_splits)
next
  case (Some tr)
  with assms(3) have "k \<in> set order" by (simp add: fmdomI)
  with run_cleanup_loop [OF assms(1) [unfolded cleanup_def] assms(2), of k] show ?thesis by simp
qed

definition demo_late :: "'w token_env" where
  "demo_late = demo_tokens\<lparr>Now := \<lambda>w. (600000000001, w)\<rparr>"

theorem cleanup_drops_expired_witness:
  "fst (snd (run_state (cleanup demo_late [''k'']) (cache_put ''k'' (demo_token ''sa'' demo_endless) (NewManager True), demo_world)))
     = NewManager True
   \<and> kept_entry 600000000001 600000000001 (Some (demo_token ''sa'' demo_endless))
       (fmlookup (mg_cache (NewManager True)) ''k'')"
proof -
  have run: "run_state (cleanup demo_late [''k'']) (cache_put ''k'' (demo_token ''sa'' demo_endless) (NewManager True), demo_world)
     = ((), (NewManager True, demo_world))"
    by (simp add: cleanup_def run_simps run_expired cache_put_def NewManager_def demo_late_def demo_tokens_def
        demo_token_def demo_world_def fmap_ext)
  have "set [''k''] = fset (fmdom (mg_cache (cache_put ''k'' (demo_token ''sa'' demo_endless) (NewManager True))))"
    by (simp add: cache_put_def NewManager_def)
  from cleanup_drops_expired [OF run _ this, of 600000000001 600000000001 "''k''"] run show ?thesis
    by (simp add: demo_late_def cache_put_def)
qed

section \<open>Tokens for a provider, by audience\<close>

text \<open>\<open>issued_for calls namespace sa aud st\<close>: the API server issued \<open>st\<close> to this account for this audience alone.\<close>

definition issued_for :: "call list \<Rightarrow> string \<Rightarrow> string \<Rightarrow> string \<Rightarrow> TokenRequestStatus \<Rightarrow> bool" where
  "issued_for calls namespace sa aud st \<longleftrightarrow> (\<exists>req t. CreateToken namespace sa req (Some t) \<in> set calls
     \<and> trs_Audiences (tr_Spec req) = Some [aud] \<and> tr_Status t = st)"

lemma issued_for_mono: "issued_for calls namespace sa aud st \<Longrightarrow> issued_for (calls @ later) namespace sa aud st"
  unfolding issued_for_def by (metis UnI1 set_append)

lemma run_attrs_loop:
  assumes "run_state (attrs_loop E namespace sa auds outputs) (m, w) = (r, (m', w'))"
    and "cache_ok (isPrint E) m (trace w)"
    and "fm_all (issued_for (trace w) namespace sa) outputs"
  shows "cache_ok (isPrint E) m' (trace w') \<and> set (trace w) \<subseteq> set (trace w') \<and>
     (case r of
        Inl _ \<Rightarrow> True
      | Inr outputs' \<Rightarrow> fm_all (issued_for (trace w') namespace sa) outputs'
          \<and> fset (fmdom outputs') = fset (fmdom outputs) \<union> set auds)"
  using assms
proof (induction auds arbitrary: outputs m w)
  case Nil
  then show ?case by auto
next
  case (Cons aud auds)
  obtain a m1 w1 where a: "run_state (GetServiceAccountToken E namespace sa (audience_request aud)) (m, w)
      = (a, (m1, w1))" by (rule run_obtain)
  obtain calls where t1: "trace w1 = trace w @ calls"
    using run_GetServiceAccountToken [OF a] by blast
  note iso = isolation_aux [OF Cons.prems(2) a]
  show ?case
  proof (cases a)
    case (Inl err)
    with a Cons.prems iso t1 show ?thesis by auto
  next
    case (Inr t)
    with iso obtain req where "CreateToken namespace sa req (Some t) \<in> set (trace w1)"
      "trs_Audiences (tr_Spec (audience_request aud)) = trs_Audiences (tr_Spec req)" by auto
    then have iss: "issued_for (trace w1) namespace sa aud (tr_Status t)"
      unfolding issued_for_def audience_request_def by (intro exI [of _ req] exI [of _ t]) simp
    have "fm_all (issued_for (trace w1) namespace sa) outputs"
      using Cons.prems(3) t1 by (auto simp: fm_all_iff fmpred_iff intro: issued_for_mono)
    with iss have ok: "fm_all (issued_for (trace w1) namespace sa) (fmupd aud (tr_Status t) outputs)"
      by (simp add: fm_all_iff fmpred_iff)
    have run: "run_state (attrs_loop E namespace sa auds (fmupd aud (tr_Status t) outputs)) (m1, w1) = (r, (m', w'))"
      using Cons.prems(1) a Inr by simp
    from Cons.IH [OF run _ ok] iso t1 show ?thesis by (auto split: sum.splits)
  qed
qed

lemma run_TokenAttrs:
  assumes "cache_ok (isPrint E) m (trace w)"
    and "run_state (SecretProviderServiceAccountTokenAttrs E namespace sa audiences) (m, w) = (r, (m', w'))"
  shows "cache_ok (isPrint E) m' (trace w') \<and>
     (case r of
        Inl _ \<Rightarrow> True
      | Inr attrs \<Rightarrow> if audiences = [] then attrs = None
          else \<exists>outputs. attrs = Some (fmupd tokensKey (json_map (json_status E) outputs) fmempty)
            \<and> fset (fmdom outputs) = set audiences \<and> fm_all (issued_for (trace w') namespace sa) outputs)"
proof (cases "audiences = []")
  case True
  with assms show ?thesis by (auto simp: SecretProviderServiceAccountTokenAttrs_def)
next
  case False
  obtain a m1 w1 where a: "run_state (attrs_loop E namespace sa audiences fmempty) (m, w) = (a, (m1, w1))"
    by (rule run_obtain)
  from run_attrs_loop [OF a assms(1)] a False assms(2) show ?thesis
    by (cases a) (auto simp: SecretProviderServiceAccountTokenAttrs_def fm_all_iff split: if_splits)
qed

text \<open>
  What a provider is told. For a non-empty list of audiences the successful result has the one
  attribute of the CSI token convention, the JSON map from each requested audience to a token status;
  every one of these was issued to the named service account of the namespace for that audience
  alone.
\<close>

theorem SecretProviderServiceAccountTokenAttrs_tokens:
  assumes "audiences \<noteq> []" and "cache_ok (isPrint E) m (trace w)"
    and "run_state (SecretProviderServiceAccountTokenAttrs E namespace sa audiences) (m, w) = (Inr attrs, (m', w'))"
  shows "\<exists>outputs. attrs = Some (fmupd tokensKey (json_map (json_status E) outputs) fmempty)
     \<and> fset (fmdom outputs) = set audiences
     \<and> fm_all (issued_for (trace w') namespace sa) outputs
     \<and> cache_ok (isPrint E) m' (trace w')"
  using run_TokenAttrs [OF assms(2,3)] assms(1) by auto

lemma demo_attrs:
  "run_state (SecretProviderServiceAccountTokenAttrs demo_tokens ''ns'' ''sa'' [''a'']) (NewManager True, demo_world)
   = (Inr (Some (fmupd tokensKey (json_map (json_status (demo_tokens :: unit token_env))
        (fmupd ''a'' \<lparr>tst_Token = ''sa'', tst_ExpirationTimestamp = 600000000000\<rparr> fmempty)) fmempty)),
      (cache_put (keyFunc (\<lambda>r. False) ''sa'' ''ns'' (audience_request ''a''))
         (demo_token ''sa'' (audience_request ''a'')) (NewManager True),
       demo_world\<lparr>trace := [CreateToken ''ns'' ''sa'' (audience_request ''a'')
         (Some (demo_token ''sa'' (audience_request ''a'')))]\<rparr>))"
  by (simp add: SecretProviderServiceAccountTokenAttrs_def demo_GetServiceAccountToken fm_all_iff demo_token_def
      fmpred_iff) (simp add: demo_tokens_def)

theorem SecretProviderServiceAccountTokenAttrs_tokens_witness:
  "\<exists>outputs. fset (fmdom outputs) = {''a''} \<and>
     fm_all (issued_for [CreateToken ''ns'' ''sa'' (audience_request ''a'')
         (Some (demo_token ''sa'' (audience_request ''a'')))] ''ns'' ''sa'') outputs"
  using SecretProviderServiceAccountTokenAttrs_tokens [OF _ _ demo_attrs]
  by (auto simp: cache_ok_NewManager demo_tokens_def)

section \<open>Effects\<close>

lemma quiet_requiresRefresh [emits_intros]: "emits P (requiresRefresh E tr)"
  unfolding requiresRefresh_def by (intro emits_intros)

lemma quiet_expired [emits_intros]: "emits P (expired E tr)"
  unfolding expired_def by (intro emits_intros)

text \<open>A predicate that admits the calls the token manager makes for one account.\<close>

definition token_calls :: "(call \<Rightarrow> bool) \<Rightarrow> string \<Rightarrow> string \<Rightarrow> bool" where
  "token_calls P namespace name \<longleftrightarrow> (\<forall>tr r. P (CreateToken namespace name tr r)) \<and> (\<forall>g. P (DiscoverResources g))"

lemma emits_getToken: "token_calls P namespace name \<Longrightarrow> emits P (getToken E name namespace tr)"
  unfolding getToken_def tokenRequestsSupported_def Let_def
  by (intro emits_intros) (simp_all add: token_calls_def)

lemma emits_GetServiceAccountToken: "token_calls P namespace name \<Longrightarrow> emits P (GetServiceAccountToken E namespace name tr)"
  unfolding GetServiceAccountToken_def Let_def Manager_get_def Manager_set_def
  by (intro emits_intros emits_getToken)

lemma emits_attrs_loop: "token_calls P namespace sa \<Longrightarrow> emits P (attrs_loop E namespace sa auds outputs)"
  by (induction auds arbitrary: outputs) (simp_all add: emits_intros emits_GetServiceAccountToken)

lemma emits_TokenAttrs: "token_calls P namespace sa \<Longrightarrow> emits P (SecretProviderServiceAccountTokenAttrs E namespace sa auds)"
  unfolding SecretProviderServiceAccountTokenAttrs_def by (intro emits_intros emits_attrs_loop)

lemma quiet_TokenAttrs: "quiet (SecretProviderServiceAccountTokenAttrs E namespace sa auds)"
  by (rule emits_TokenAttrs) (simp add: token_calls_def is_write_def)

end
