(* ===== verification/ProviderClient.thy ===== *)
theory ProviderClient
  imports Encodings ApiTypes
begin

text \<open>
  \<^verbatim>\<open>pkg/provider/provider_client.go\<close>: the gRPC clients of the provider plugins, one per provider name
  and found by its socket, and the two calls the controller makes on them. The file system, the
  dialer and the remote procedures are parameters, the record \<open>provider_env\<close>.
\<close>

section \<open>State and environment\<close>

record PluginClientBuilder =
  pcb_clients :: "CSIDriverProviderClient gomap"
  pcb_conns :: "ClientConn gomap"
  pcb_socketPaths :: "string list"
  pcb_opts :: "DialOption list"

record 'w provider_env =
  os_Stat :: "string \<Rightarrow> 'w \<Rightarrow> error option \<times> 'w"
  os_Lstat :: "string \<Rightarrow> 'w \<Rightarrow> error option \<times> 'w"
  IsRuntimeWindows :: bool
  grpc_NewClient :: "string \<Rightarrow> DialOption list \<Rightarrow> 'w \<Rightarrow> (error + ClientConn) \<times> 'w"
  ClientConn_Close :: "ClientConn \<Rightarrow> 'w \<Rightarrow> error option \<times> 'w"
  client_Mount :: "CSIDriverProviderClient \<Rightarrow> MountRequest \<Rightarrow> 'w \<Rightarrow> (error + MountResponse option) \<times> 'w"
  client_Version :: "CSIDriverProviderClient \<Rightarrow> string \<Rightarrow> 'w \<Rightarrow> (error + VersionResponse) \<times> 'w"
  provider_isPrint :: "nat \<Rightarrow> bool"

text \<open>The lines of the literal, with their tabs; it begins and ends with a newline.\<close>

definition tabs :: "nat \<Rightarrow> string \<Rightarrow> string" where
  "tabs n s = replicate n (CHR 0x09) @ s @ [CHR 0x0A]"

definition ServiceConfig :: string where
  "ServiceConfig = concat [tabs 0 [], tabs 0 ''{'',
     tabs 1 ''\"methodConfig\": ['',
     tabs 2 ''{'',
     tabs 3 ''\"name\": [{\"service\": \"v1alpha1.CSIDriverProvider\"}],'',
     tabs 3 ''\"waitForReady\": true,'',
     tabs 3 ''\"retryPolicy\": {'',
     tabs 4 ''\"MaxAttempts\": 3,'',
     tabs 4 ''\"InitialBackoff\": \"1s\",'',
     tabs 4 ''\"MaxBackoff\": \"10s\",'',
     tabs 4 ''\"BackoffMultiplier\": 1.1,'',
     tabs 4 ''\"RetryableStatusCodes\": [ \"UNAVAILABLE\" ]'',
     tabs 3 ''}'', tabs 2 ''}'', tabs 1 '']'', tabs 0 ''}'']"

definition dial_opts :: "DialOption list \<Rightarrow> DialOption list" where
  "dial_opts opts = opts @ [WithTransportCredentials insecure_NewCredentials, WithDefaultServiceConfig ServiceConfig]"

definition NewPluginClientBuilder :: "string list \<Rightarrow> DialOption list \<Rightarrow> PluginClientBuilder" where
  "NewPluginClientBuilder paths opts = \<lparr>pcb_clients = fmempty, pcb_conns = fmempty, pcb_socketPaths = paths, pcb_opts = dial_opts opts\<rparr>"

text \<open>The regular expression \<^verbatim>\<open>^[a-zA-Z0-9_-]{0,30}$\<close>.\<close>

definition plugin_char :: "char \<Rightarrow> bool" where
  "plugin_char c \<longleftrightarrow> in_range 97 122 c \<or> in_range 65 90 c \<or> in_range 48 57 c \<or> c = CHR ''_'' \<or> c = CHR ''-''"

definition pluginNameRe :: "string \<Rightarrow> bool" where
  "pluginNameRe s \<longleftrightarrow> list_all plugin_char s \<and> length s \<le> 30"

definition errInvalidProvider :: error where
  "errInvalidProvider = ErrorString ''invalid provider''"

definition errProviderNotFound :: error where
  "errProviderNotFound = ErrorString ''provider not found''"

definition errMissingObjectVersions :: error where
  "errMissingObjectVersions = ErrorString ''missing object versions''"

definition errProvider :: "(nat \<Rightarrow> bool) \<Rightarrow> error \<Rightarrow> string \<Rightarrow> error" where
  "errProvider pr e provider = WrapError (Error e @ '': provider '' @ Quote pr provider) e"

section \<open>Clients\<close>

definition sock_path :: "string \<Rightarrow> string \<Rightarrow> string" where
  "sock_path dir provider = filepath_Join [dir, provider @ ''.sock'']"

primrec find_socket :: "'w provider_env \<Rightarrow> string \<Rightarrow> string list \<Rightarrow> (PluginClientBuilder, 'w, string option) meth" where
  "find_socket E provider [] = return None"
| "find_socket E provider (dir # dirs) =
     (let tryPath = sock_path dir provider in do {
       err \<leftarrow> ext_call (\<lambda>_. Stat tryPath) (os_Stat E tryPath);
       if err = None then return (Some tryPath)
       else if IsRuntimeWindows E then do {
         err' \<leftarrow> ext_call (\<lambda>_. Lstat tryPath) (os_Lstat E tryPath);
         if err' = None then return (Some tryPath) else find_socket E provider dirs
       } else find_socket E provider dirs
     })"

definition put_client :: "string \<Rightarrow> ClientConn \<Rightarrow> PluginClientBuilder \<Rightarrow> PluginClientBuilder" where
  "put_client provider conn p = p\<lparr>pcb_conns := fmupd provider conn (pcb_conns p),
     pcb_clients := fmupd provider (NewCSIDriverProviderClient conn) (pcb_clients p)\<rparr>"

text \<open>The region of Get under the write lock: a client stored meanwhile wins.\<close>

definition store_client :: "string \<Rightarrow> ClientConn \<Rightarrow> (PluginClientBuilder, 'w, CSIDriverProviderClient) meth" where
  "store_client provider conn = do {
     p \<leftarrow> self;
     case fmlookup (pcb_clients p) provider of
       Some r \<Rightarrow> return r
     | None \<Rightarrow> do {
         modify_self (put_client provider conn);
         return (NewCSIDriverProviderClient conn)
       }
   }"

definition Get :: "'w provider_env \<Rightarrow> string \<Rightarrow> (PluginClientBuilder, 'w, error + CSIDriverProviderClient) meth" where
  "Get E provider = do {
     p \<leftarrow> self;
     case fmlookup (pcb_clients p) provider of
       Some out \<Rightarrow> return (Inr out)
     | None \<Rightarrow>
         if \<not> pluginNameRe provider
         then return (Inl (errProvider (provider_isPrint E) errInvalidProvider provider))
         else do {
           socketPath \<leftarrow> find_socket E provider (pcb_socketPaths p);
           case socketPath of
             None \<Rightarrow> return (Inl (errProvider (provider_isPrint E) errProviderNotFound provider))
           | Some path \<Rightarrow> do {
               r \<leftarrow> ext_call (\<lambda>r. NewConn (''unix://'' @ path) (pcb_opts p) (case r of Inl _ \<Rightarrow> None | Inr c \<Rightarrow> Some c))
                 (grpc_NewClient E (''unix://'' @ path) (pcb_opts p));
               case r of
                 Inl err \<Rightarrow> return (Inl err)
               | Inr conn \<Rightarrow> do {
                   out \<leftarrow> store_client provider conn;
                   return (Inr out)
                 }
             }
         }
   }"

text \<open>The loop of Cleanup visits the connections in an unspecified order, the argument.\<close>

primrec close_loop :: "'w provider_env \<Rightarrow> string list \<Rightarrow> (PluginClientBuilder, 'w, unit) meth" where
  "close_loop E [] = return ()"
| "close_loop E (k # ks) = do {
     p \<leftarrow> self;
     case fmlookup (pcb_conns p) k of
       None \<Rightarrow> close_loop E ks
     | Some conn \<Rightarrow> do {
         err \<leftarrow> ext_call (\<lambda>_. CloseConn conn) (ClientConn_Close E conn);
         close_loop E ks
       }
   }"

definition Cleanup :: "'w provider_env \<Rightarrow> string list \<Rightarrow> (PluginClientBuilder, 'w, unit) meth" where
  "Cleanup E order = do {
     close_loop E order;
     modify_self (\<lambda>p. p\<lparr>pcb_clients := fmempty, pcb_conns := fmempty\<rparr>)
   }"

section \<open>Remote procedures\<close>

definition Version :: "'w provider_env \<Rightarrow> CSIDriverProviderClient \<Rightarrow> ('p, 'w, error + string) meth" where
  "Version E client = do {
     r \<leftarrow> ext_call (\<lambda>_. VersionRPC client ''v1alpha1'') (client_Version E client ''v1alpha1'');
     return (case r of Inl err \<Rightarrow> Inl err | Inr resp \<Rightarrow> Inr (vr_RuntimeVersion resp))
   }"

text \<open>
  One tick of HealthCheck over the clients in an unspecified order. It returns the number of cancel
  functions deferred so far: they run when HealthCheck returns.
\<close>

primrec health_tick :: "'w provider_env \<Rightarrow> string list \<Rightarrow> nat \<Rightarrow> (PluginClientBuilder, 'w, nat) meth" where
  "health_tick E [] deferred = return deferred"
| "health_tick E (k # ks) deferred = do {
     p \<leftarrow> self;
     case fmlookup (pcb_clients p) k of
       None \<Rightarrow> health_tick E ks deferred
     | Some client \<Rightarrow> do {
         r \<leftarrow> Version E client;
         health_tick E ks (deferred + 1)
       }
   }"

text \<open>HealthCheck runs one tick per element of its second argument and then sees the context done.\<close>

primrec HealthCheck :: "'w provider_env \<Rightarrow> string list list \<Rightarrow> nat \<Rightarrow> (PluginClientBuilder, 'w, nat) meth" where
  "HealthCheck E [] deferred = return deferred"
| "HealthCheck E (order # ticks) deferred = do {
     d \<leftarrow> health_tick E order deferred;
     HealthCheck E ticks d
   }"

definition ResourceExhausted :: nat where "ResourceExhausted = 8"

definition isMaxRecvMsgSizeError :: "error \<Rightarrow> bool" where
  "isMaxRecvMsgSizeError err =
     (if status_Code err \<noteq> ResourceExhausted then False
      else if Contains (Error err) ''grpc: received message larger than max length allowed on current machine'' then False
      else if \<not> Contains (Error err) ''grpc: received message larger than max'' then False
      else True)"

definition maxSizeHint :: string where
  "maxSizeHint = ''Set --max-call-recv-msg-size to configure larger maximum size in bytes of gRPC response''"

definition errMountCode :: "string \<Rightarrow> error" where
  "errMountCode code = ErrorString (''mount request failed with provider error code '' @ code)"

text \<open>The old object versions come in the order in which the map is traversed.\<close>

definition mount_request :: "string \<Rightarrow> string \<Rightarrow> (string \<times> string) list \<Rightarrow> MountRequest" where
  "mount_request attributes secrets oldObjectVersions = \<lparr>
     mreq_Attributes = attributes,
     mreq_Secrets = secrets,
     mreq_Permission = Itoa (6 * 64 + 4 * 8 + 4),
     mreq_CurrentObjectVersion = map (\<lambda>(obj, version). \<lparr>ov_Id = obj, ov_Version = version\<rparr>) oldObjectVersions,
     mreq_TargetPath = ''/mnt/secrets-store''\<rparr>"

definition version_map :: "ObjectVersion list \<Rightarrow> string gomap" where
  "version_map ov = foldl (\<lambda>m v. fmupd (ov_Id v) (ov_Version v) m) fmempty ov"

definition file_map :: "File list \<Rightarrow> bytes gomap" where
  "file_map fs = foldl (\<lambda>m f. fmupd (f_Path f) (f_Contents f) m) fmempty fs"

definition MountContent :: "'w provider_env \<Rightarrow> CSIDriverProviderClient \<Rightarrow> string \<Rightarrow> string
    \<Rightarrow> (string \<times> string) list \<Rightarrow> ('p, 'w, error + string gomap \<times> bytes gomap) meth" where
  "MountContent E client attributes secrets oldObjectVersions =
     (let req = mount_request attributes secrets oldObjectVersions in do {
       r \<leftarrow> ext_call (\<lambda>_. Mount client req) (client_Mount E client req);
       case r of
         Inl err \<Rightarrow>
           if isMaxRecvMsgSizeError err then do {
             ext_call (\<lambda>_. KlogErrorS maxSizeHint) (\<lambda>w. ((), w));
             return (Inl err)
           } else return (Inl err)
       | Inr None \<Rightarrow> return (Inl errMissingObjectVersions)
       | Inr (Some resp) \<Rightarrow> return
           (case mr_Error resp of
              Some (c # code) \<Rightarrow> Inl (errMountCode (c # code))
            | _ \<Rightarrow> (case mr_ObjectVersion resp of
                None \<Rightarrow> Inl errMissingObjectVersions
              | Some ov \<Rightarrow> Inr (version_map ov, file_map (mr_Files resp))))
     })"

section \<open>Socket paths\<close>

lemma Split_append: "c \<notin> set n \<Longrightarrow> Split c (d @ c # n) = Split c d @ [n]"
proof -
  assume n: "c \<notin> set n"
  then have "Split c n = [n]" by (induction n) auto
  moreover have "Split c d \<noteq> []" for d by (induction d) (auto split: list.splits)
  ultimately show ?thesis by (induction d) (auto split: list.splits)
qed

lemma Split_plain: "c \<notin> set n \<Longrightarrow> Split c n = [n]"
  by (induction n) auto

definition plain_elem :: "string \<Rightarrow> bool" where
  "plain_elem e \<longleftrightarrow> e \<noteq> [] \<and> e \<noteq> ''.'' \<and> e \<noteq> ''..'' \<and> CHR ''/'' \<notin> set e"

lemma clean_elems_append:
  "plain_elem n \<Longrightarrow> clean_elems rooted acc (es @ [n]) = clean_elems rooted acc es @ [n]"
  by (induction rooted acc es rule: clean_elems.induct) (auto simp: plain_elem_def split: list.splits)

definition kept_elem :: "string \<Rightarrow> bool" where
  "kept_elem e \<longleftrightarrow> e \<noteq> [] \<and> e \<noteq> ''.'' \<and> CHR ''/'' \<notin> set e"

lemma Split_nosep: "list_all (\<lambda>e. c \<notin> set e) (Split c s)"
  by (induction s) (auto split: list.splits)

lemma clean_elems_kept:
  "list_all kept_elem acc \<Longrightarrow> list_all (\<lambda>e. CHR ''/'' \<notin> set e) es \<Longrightarrow> list_all kept_elem (clean_elems rooted acc es)"
proof (induction es arbitrary: acc)
  case Nil
  then show ?case by (auto simp: list_all_iff)
next
  case (Cons e es)
  have "kept_elem ''..''" by (simp add: kept_elem_def)
  with Cons show ?case
    by (cases acc; cases rooted) (simp_all add: kept_elem_def)
qed

lemma Join_snoc: "Join sep (es @ [n]) = (if es = [] then n else Join sep es @ sep @ n)"
  by (induction sep es rule: Join.induct) auto

lemma Join_kept:
  assumes "list_all kept_elem es" "es \<noteq> []"
  shows "Join ''/'' es \<noteq> [] \<and> Join ''/'' es \<noteq> ''.'' \<and> Join ''/'' es \<noteq> ''/''"
  using assms by (cases "(''/'', es)" rule: Join.cases) (auto simp: kept_elem_def append_eq_Cons_conv)

text \<open>The path of an entry of a directory.\<close>

definition in_dir :: "string \<Rightarrow> string \<Rightarrow> string" where
  "in_dir d n = (if d = ''.'' then n else if d = ''/'' then CHR ''/'' # n else d @ CHR ''/'' # n)"

lemma filepath_Join_plain:
  assumes n: "plain_elem n"
  shows "filepath_Join [d, n] = in_dir (if d = [] then ''.'' else Clean d) n"
proof (cases "d = []")
  case True
  from n have "take 1 n \<noteq> ''/''" and "Split CHR ''/'' n = [n]"
    by (cases n, auto simp: plain_elem_def Split_plain)
  with n have "Clean n = n" by (simp add: Clean_def plain_elem_def)
  with True n show ?thesis by (simp add: in_dir_def plain_elem_def)
next
  case False
  let ?r = "take 1 d = ''/''" and ?es = "clean_elems (take 1 d = ''/'') [] (Split CHR ''/'' d)"
  have es: "list_all kept_elem ?es" by (rule clean_elems_kept) (simp_all add: Split_nosep)
  have t: "take 1 (d @ CHR ''/'' # n) = take 1 d" using False by (cases d) simp_all
  have n': "CHR ''/'' \<notin> set n" using n by (simp add: plain_elem_def)
  have "Clean (d @ CHR ''/'' # n) = (if ?r then CHR ''/'' # Join ''/'' (?es @ [n]) else Join ''/'' (?es @ [n]))"
    unfolding Clean_def t Split_append [OF n'] clean_elems_append [OF n] by simp
  moreover have "Clean d = (if ?r then CHR ''/'' # Join ''/'' ?es else if ?es = [] then ''.'' else Join ''/'' ?es)"
    by (simp only: Clean_def Let_def)
  ultimately show ?thesis
    using False Join_kept [OF es]
    by (cases "?es = []"; cases ?r) (simp_all del: One_nat_def add: in_dir_def Join_snoc)
qed

lemma plugin_plain: "pluginNameRe provider \<Longrightarrow> plain_elem (provider @ ''.sock'')"
proof -
  assume "pluginNameRe provider"
  moreover have "\<not> plugin_char CHR ''/''" by code_simp
  ultimately show ?thesis
    by (auto simp: plain_elem_def pluginNameRe_def list_all_iff append_eq_Cons_conv)
qed

text \<open>
  C19: No path traversal. For every name the regular expression accepts, the socket path is an entry
  of the (cleaned) configured directory itself, named after the provider, whatever the directory is.
\<close>

theorem sock_path_confined:
  assumes "pluginNameRe provider"
  shows "sock_path dir provider = in_dir (if dir = [] then ''.'' else Clean dir) (provider @ ''.sock'')"
  unfolding sock_path_def by (rule filepath_Join_plain [OF plugin_plain [OF assms]])

theorem sock_path_confined_witness:
  "sock_path ''/a/../b/'' ''p'' = ''/b/p.sock''"
proof -
  have "pluginNameRe ''p''" and "Clean ''/a/../b/'' = ''/b''" by code_simp+
  with sock_path_confined [of "''p''" "''/a/../b/''"] show ?thesis by (simp add: in_dir_def)
qed

section \<open>One client per provider\<close>

definition conn_of :: "CSIDriverProviderClient \<Rightarrow> ClientConn" where
  "conn_of c = (case c of NewCSIDriverProviderClient conn \<Rightarrow> conn)"

lemma conn_of_New [simp]: "conn_of (NewCSIDriverProviderClient conn) = conn"
  "NewCSIDriverProviderClient (conn_of c) = c"
  by (simp_all add: conn_of_def split: CSIDriverProviderClient.split)

text \<open>Every stored client is the one of the connection stored beside it, under a valid name.\<close>

definition builder_ok :: "PluginClientBuilder \<Rightarrow> bool" where
  "builder_ok p \<longleftrightarrow> pcb_clients p = fmmap NewCSIDriverProviderClient (pcb_conns p)
     \<and> fmpred (\<lambda>k _. pluginNameRe k) (pcb_conns p)"

lemma builder_ok_New: "builder_ok (NewPluginClientBuilder paths opts)"
  by (simp add: builder_ok_def NewPluginClientBuilder_def)

lemma fmmap_fmupd_ext: "fmmap f (fmupd k v m) = fmupd k (f v) (fmmap f m)"
  by (rule fmap_ext) simp

lemma builder_ok_put: "builder_ok p \<Longrightarrow> pluginNameRe k \<Longrightarrow> builder_ok (put_client k conn p)"
  by (auto simp: builder_ok_def put_client_def fmmap_fmupd_ext fmpred_iff)

interpretation clients: keyed_store "\<lambda>p. fmlookup (pcb_clients p)" "\<lambda>k c. put_client k (conn_of c)"
  "\<lambda>p. pcb_clients p = fmmap NewCSIDriverProviderClient (pcb_conns p)"
  by unfold_locales (simp_all add: put_client_def fmmap_fmupd_ext)

text \<open>The calls of one Get: it only probes and dials the sockets of this provider.\<close>

definition probes :: "PluginClientBuilder \<Rightarrow> string \<Rightarrow> call \<Rightarrow> bool" where
  "probes p provider c \<longleftrightarrow> (\<exists>dir. dir \<in> set (pcb_socketPaths p) \<and>
     (c = Stat (sock_path dir provider) \<or> c = Lstat (sock_path dir provider)
      \<or> (\<exists>r. c = NewConn (''unix://'' @ sock_path dir provider) (pcb_opts p) r)))"

lemma run_find_socket:
  assumes "run_state (find_socket E provider dirs) (p, w) = (r, (p', w'))"
    and "set dirs \<subseteq> set (pcb_socketPaths p)"
  shows "p' = p \<and> (\<exists>calls. trace w' = trace w @ calls \<and> list_all (probes p provider) calls)
     \<and> (case r of None \<Rightarrow> True | Some path \<Rightarrow> \<exists>dir. dir \<in> set dirs \<and> path = sock_path dir provider)"
  using assms
proof (induction dirs arbitrary: w)
  case Nil
  then show ?case by auto
next
  case (Cons dir dirs)
  let ?path = "sock_path dir provider"
  have pr: "probes p provider (Stat ?path)" "probes p provider (Lstat ?path)"
    using Cons.prems(2) by (auto simp: probes_def)
  obtain e1 w1 where e1: "os_Stat E ?path (env_state w) = (e1, w1)" by fastforce
  obtain e2 w2 where e2: "os_Lstat E ?path w1 = (e2, w2)" by fastforce
  let ?w1 = "w\<lparr>env_state := w1, trace := trace w @ [Stat ?path]\<rparr>"
  let ?w2 = "w\<lparr>env_state := w2, trace := trace w @ [Stat ?path, Lstat ?path]\<rparr>"
  consider (found) "r = Some ?path" "p' = p" "w' = ?w1 \<or> w' = ?w2"
    | (next1) "run_state (find_socket E provider dirs) (p, ?w1) = (r, (p', w'))"
    | (next2) "run_state (find_socket E provider dirs) (p, ?w2) = (r, (p', w'))"
    using Cons.prems(1) e1 e2 by (auto simp: run_simps Let_def split: if_splits)
  then show ?case
  proof cases
    case found
    with pr show ?thesis by auto
  next
    case next1
    from Cons.IH [OF next1] Cons.prems(2) pr show ?thesis by (auto split: option.splits)
  next
    case next2
    from Cons.IH [OF next2] Cons.prems(2) pr show ?thesis by (auto split: option.splits)
  qed
qed

lemma run_Get_cached:
  "fmlookup (pcb_clients p) provider = Some c \<Longrightarrow> run_state (Get E provider) (p, w) = (Inr c, (p, w))"
  by (simp add: Get_def run_simps)

lemma run_Get_invalid:
  "fmlookup (pcb_clients p) provider = None \<Longrightarrow> \<not> pluginNameRe provider
   \<Longrightarrow> run_state (Get E provider) (p, w)
     = (Inl (errProvider (provider_isPrint E) errInvalidProvider provider), (p, w))"
  by (simp add: Get_def run_simps)

text \<open>What a Get that has to make a client does: \<open>dialed\<close> is the outcome of its dial, if it came to one.\<close>

definition get_outcome :: "PluginClientBuilder \<Rightarrow> string \<Rightarrow> error + CSIDriverProviderClient
    \<Rightarrow> PluginClientBuilder \<Rightarrow> call list \<Rightarrow> bool" where
  "get_outcome p provider r p' calls \<longleftrightarrow> list_all (probes p provider) calls \<and>
     (case r of
        Inr c \<Rightarrow> p' = put_client provider (conn_of c) p \<and> (\<exists>dir. dir \<in> set (pcb_socketPaths p)
          \<and> calls \<noteq> [] \<and> last calls = NewConn (''unix://'' @ sock_path dir provider) (pcb_opts p) (Some (conn_of c)))
      | Inl e \<Rightarrow> p' = p \<and> (errors_Is e errProviderNotFound \<or> (\<exists>dir. dir \<in> set (pcb_socketPaths p)
          \<and> calls \<noteq> [] \<and> last calls = NewConn (''unix://'' @ sock_path dir provider) (pcb_opts p) None)))"

lemma run_Get_new:
  assumes "run_state (Get E provider) (p, w) = (r, (p', w'))"
    and "fmlookup (pcb_clients p) provider = None" "pluginNameRe provider"
  shows "\<exists>calls. trace w' = trace w @ calls \<and> get_outcome p provider r p' calls"
proof -
  obtain a p1 w1 where a: "run_state (find_socket E provider (pcb_socketPaths p)) (p, w) = (a, (p1, w1))"
    by (rule run_obtain)
  from run_find_socket [OF a] obtain calls where 1: "p1 = p" "trace w1 = trace w @ calls"
    "list_all (probes p provider) calls"
    and path: "case a of None \<Rightarrow> True | Some path \<Rightarrow> \<exists>dir. dir \<in> set (pcb_socketPaths p) \<and> path = sock_path dir provider"
    by auto
  show ?thesis
  proof (cases a)
    case None
    with a 1 assms show ?thesis
      by (auto simp: Get_def run_simps get_outcome_def errProvider_def)
  next
    case (Some path)
    with path obtain dir where dir: "dir \<in> set (pcb_socketPaths p)" "path = sock_path dir provider" by auto
    obtain c e where c: "grpc_NewClient E (''unix://'' @ path) (pcb_opts p) (env_state w1) = (c, e)" by fastforce
    let ?call = "NewConn (''unix://'' @ path) (pcb_opts p) (case c of Inl _ \<Rightarrow> None | Inr c \<Rightarrow> Some c)"
    have "probes p provider ?call" using dir by (auto simp: probes_def)
    with Some a 1 c dir assms show ?thesis
      by (cases c) (auto simp: Get_def run_simps store_client_def get_outcome_def)
  qed
qed

lemma get_inv_aux:
  assumes "builder_ok p" and "run_state (Get E provider) (p, w) = (r, (p', w'))"
  shows "builder_ok p' \<and> pcb_socketPaths p' = pcb_socketPaths p \<and> pcb_opts p' = pcb_opts p
     \<and> (case r of Inl _ \<Rightarrow> p' = p | Inr c \<Rightarrow> fmlookup (pcb_clients p') provider = Some c)"
proof (cases "fmlookup (pcb_clients p) provider")
  case (Some c)
  with run_Get_cached [OF Some, of E w] assms show ?thesis by auto
next
  case None
  show ?thesis
  proof (cases "pluginNameRe provider")
    case False
    with run_Get_invalid [OF None False, of E w] assms show ?thesis by auto
  next
    case True
    from run_Get_new [OF assms(2) None True] obtain calls where "get_outcome p provider r p' calls" by blast
    with assms(1) True show ?thesis
      by (auto simp: get_outcome_def builder_ok_put split: sum.splits) (simp_all add: put_client_def)
  qed
qed

text \<open>
  The client builder keeps its invariant: after any Get, every provider with a client has the
  connection that client was made from, every stored name is valid, and a successful Get has its
  client in the map, under the name asked for.
\<close>

theorem Get_invariant:
  assumes "builder_ok p" and "run_state (Get E provider) (p, w) = (r, (p', w'))"
  shows "builder_ok p' \<and> pcb_socketPaths p' = pcb_socketPaths p \<and> pcb_opts p' = pcb_opts p
     \<and> (case r of Inl _ \<Rightarrow> p' = p | Inr c \<Rightarrow> fmlookup (pcb_clients p') provider = Some c)"
  using assms by (rule get_inv_aux)

text \<open>A file system with one socket and a dialer, for concrete runs.\<close>

definition demo_provider :: "nat provider_env" where
  "demo_provider = \<lparr>
     os_Stat = (\<lambda>path w. (if path = ''/p/a.sock'' then None else Some (ErrorString ''enoent''), w)),
     os_Lstat = (\<lambda>path w. (Some (ErrorString ''enoent''), w)),
     IsRuntimeWindows = False,
     grpc_NewClient = (\<lambda>target opts w. (Inr (ClientConn w), w + 1)),
     ClientConn_Close = (\<lambda>conn w. (None, w)),
     client_Mount = (\<lambda>client req w. (Inr (Some \<lparr>mr_Error = None, mr_ObjectVersion = Some [], mr_Files = []\<rparr>), w)),
     client_Version = (\<lambda>client v w. (Inr \<lparr>vr_RuntimeVersion = ''1''\<rparr>, w)),
     provider_isPrint = (\<lambda>r. False)\<rparr>"

lemma demo_Mount: "client_Mount demo_provider client req w
    = (Inr (Some \<lparr>mr_Error = None, mr_ObjectVersion = Some [], mr_Files = []\<rparr>), w)"
  by (simp add: demo_provider_def)

definition demo_start :: "(nat, call) world" where
  "demo_start = \<lparr>env_state = 0, trace = []\<rparr>"

lemma demo_sock: "sock_path ''/p'' ''a'' = ''/p/a.sock''"
proof -
  have "pluginNameRe ''a''" and "Clean ''/p'' = ''/p''" by code_simp+
  with filepath_Join_plain [OF plugin_plain, of "''a''" "''/p''"] show ?thesis
    by (simp add: in_dir_def sock_path_def)
qed

lemma demo_Get:
  "run_state (Get demo_provider ''a'') (NewPluginClientBuilder [''/p''] [], demo_start)
   = (Inr (NewCSIDriverProviderClient (ClientConn 0)),
      (put_client ''a'' (ClientConn 0) (NewPluginClientBuilder [''/p''] []),
       \<lparr>env_state = 1, trace = [Stat ''/p/a.sock'', NewConn ''unix:///p/a.sock'' (dial_opts []) (Some (ClientConn 0))]\<rparr>))"
proof -
  have "pluginNameRe ''a''" by code_simp
  then show ?thesis
    by (simp add: Get_def NewPluginClientBuilder_def run_simps store_client_def demo_sock Let_def
        demo_provider_def demo_start_def)
qed

theorem Get_invariant_witness:
  "builder_ok (put_client ''a'' (ClientConn 0) (NewPluginClientBuilder [''/p''] []))
   \<and> fmlookup (pcb_clients (put_client ''a'' (ClientConn 0) (NewPluginClientBuilder [''/p''] []))) ''a''
     = Some (NewCSIDriverProviderClient (ClientConn 0))"
  using Get_invariant [OF builder_ok_New demo_Get] by simp

text \<open>
  A new client is only made for a valid provider name, by probing and dialing the sockets of
  that provider in the configured directories; the outcome is the client of the dialed connection, now
  stored, or an error that leaves the builder as it was: provider not found, or a failed dial.
\<close>

theorem Get_new_client:
  assumes "fmlookup (pcb_clients p) provider = None"
    and "run_state (Get E provider) (p, w) = (r, (p', w'))"
  shows "if pluginNameRe provider
     then \<exists>calls. trace w' = trace w @ calls \<and> get_outcome p provider r p' calls
     else r = Inl (errProvider (provider_isPrint E) errInvalidProvider provider) \<and> p' = p \<and> w' = w"
proof (cases "pluginNameRe provider")
  case True
  with run_Get_new [OF assms(2,1) True] show ?thesis by simp
next
  case False
  with run_Get_invalid [OF assms(1) False, of E w] assms(2) show ?thesis by simp
qed

theorem Get_new_client_witness:
  "\<exists>calls. [Stat ''/p/a.sock'', NewConn ''unix:///p/a.sock'' (dial_opts []) (Some (ClientConn 0))] = [] @ calls
     \<and> get_outcome (NewPluginClientBuilder [''/p''] []) ''a'' (Inr (NewCSIDriverProviderClient (ClientConn 0)))
         (put_client ''a'' (ClientConn 0) (NewPluginClientBuilder [''/p''] [])) calls"
proof -
  have n: "fmlookup (pcb_clients (NewPluginClientBuilder [''/p''] [])) ''a'' = None"
    by (simp add: NewPluginClientBuilder_def)
  have "pluginNameRe ''a''" by code_simp
  with Get_new_client [OF n demo_Get] show ?thesis by (simp add: demo_start_def)
qed

text \<open>
  A client is made once: after a successful Get, Get of the same provider returns the same
  client, calls nothing and changes nothing, and Get of any other provider leaves it in place.
\<close>

theorem Get_memoises:
  assumes "builder_ok p" and "run_state (Get E provider) (p, w) = (Inr c, (p', w'))"
  shows "run_state (Get E' provider) (p', v) = (Inr c, (p', v))
     \<and> fmlookup (pcb_clients (fst (snd (run_state (Get E' other) (p', v))))) provider = Some c"
proof -
  from get_inv_aux [OF assms] have ok: "builder_ok p'" and c: "fmlookup (pcb_clients p') provider = Some c"
    by simp_all
  obtain r p'' v' where o: "run_state (Get E' other) (p', v) = (r, (p'', v'))" by (rule run_obtain)
  have "fmlookup (pcb_clients p'') provider = Some c"
  proof (cases "fmlookup (pcb_clients p') other = None \<and> pluginNameRe other")
    case True
    then obtain calls where "get_outcome p' other r p'' calls" using run_Get_new [OF o] by auto
    with True c show ?thesis
      by (auto simp: get_outcome_def put_client_def split: sum.splits)
  next
    case False
    with o c show ?thesis
      by (cases "fmlookup (pcb_clients p') other") (auto simp: run_Get_cached run_Get_invalid)
  qed
  with c o show ?thesis by (simp add: run_Get_cached)
qed

theorem Get_memoises_witness:
  "run_state (Get demo_provider ''a'') (put_client ''a'' (ClientConn 0) (NewPluginClientBuilder [''/p''] []), demo_start)
   = (Inr (NewCSIDriverProviderClient (ClientConn 0)),
      (put_client ''a'' (ClientConn 0) (NewPluginClientBuilder [''/p''] []), demo_start))"
  using Get_memoises [OF builder_ok_New demo_Get] by blast

section \<open>Cleanup and health checks\<close>

lemma run_close_loop:
  "run_state (close_loop E ks) (p, w) = (u, (p', w'))
   \<Longrightarrow> p' = p \<and> trace w' = trace w @ map CloseConn (List.map_filter (fmlookup (pcb_conns p)) ks)"
  by (induction ks arbitrary: w) (auto simp: run_simps map_filter_simps split: option.splits)

lemma cleanup_aux:
  assumes "run_state (Cleanup E order) (p, w) = (u, (p', w'))"
    and "set order = fset (fmdom (pcb_conns p))" "distinct order"
  shows "p' = p\<lparr>pcb_clients := fmempty, pcb_conns := fmempty\<rparr>
     \<and> trace w' = trace w @ map (\<lambda>k. CloseConn (the (fmlookup (pcb_conns p) k))) order"
proof -
  obtain p1 w1 where c: "run_state (close_loop E order) (p, w) = ((), (p1, w1))"
    by (metis run_obtain old.unit.exhaust)
  have "List.map_filter (fmlookup (pcb_conns p)) order = map (\<lambda>k. the (fmlookup (pcb_conns p) k)) order"
    using assms(2) by (auto simp: List.map_filter_def fmlookup_dom_iff filter_id_conv)
  with run_close_loop [OF c] c assms(1) show ?thesis
    by (auto simp: Cleanup_def run_simps NewPluginClientBuilder_def)
qed

text \<open>
  Cleanup closes the connection of every stored provider exactly once, in the order of the
  traversal, and leaves no client and no connection behind.
\<close>

theorem Cleanup_closes_all:
  assumes "run_state (Cleanup E order) (p, w) = (u, (p', w'))"
    and "set order = fset (fmdom (pcb_conns p))" "distinct order"
  shows "p' = p\<lparr>pcb_clients := fmempty, pcb_conns := fmempty\<rparr>
     \<and> trace w' = trace w @ map (\<lambda>k. CloseConn (the (fmlookup (pcb_conns p) k))) order"
  using assms by (rule cleanup_aux)

theorem Cleanup_closes_all_witness:
  "trace (snd (snd (run_state (Cleanup demo_provider [''a''])
      (put_client ''a'' (ClientConn 0) (NewPluginClientBuilder [''/p''] []), demo_start))))
   = [] @ map (\<lambda>k. CloseConn (the (fmlookup (pcb_conns (put_client ''a'' (ClientConn 0) (NewPluginClientBuilder [''/p''] []))) k))) [''a'']"
proof -
  let ?p = "put_client ''a'' (ClientConn 0) (NewPluginClientBuilder [''/p''] [])"
  obtain p' w' where r: "run_state (Cleanup demo_provider [''a'']) (?p, demo_start) = ((), (p', w'))"
    by (metis run_obtain old.unit.exhaust)
  have "set [''a''] = fset (fmdom (pcb_conns ?p))" by (simp add: put_client_def NewPluginClientBuilder_def)
  from Cleanup_closes_all [OF r this] r show ?thesis by (simp add: demo_start_def)
qed

lemma run_health_tick:
  "run_state (health_tick E ks d) (p, w) = (n, (p', w'))
   \<Longrightarrow> p' = p \<and> n = d + length (List.map_filter (fmlookup (pcb_clients p)) ks)
     \<and> trace w' = trace w @ map (\<lambda>c. VersionRPC c ''v1alpha1'') (List.map_filter (fmlookup (pcb_clients p)) ks)"
proof (induction ks arbitrary: w d)
  case Nil
  then show ?case by (simp add: map_filter_simps)
next
  case (Cons k ks)
  show ?case
  proof (cases "fmlookup (pcb_clients p) k")
    case None
    with Cons.prems Cons.IH [of d w] show ?thesis by (simp add: run_simps map_filter_simps)
  next
    case (Some c)
    let ?w = "w\<lparr>env_state := snd (client_Version E c ''v1alpha1'' (env_state w)),
      trace := trace w @ [VersionRPC c ''v1alpha1'']\<rparr>"
    have "run_state (health_tick E ks (d + 1)) (p, ?w) = (n, (p', w'))"
      using Cons.prems Some by (simp add: run_simps Version_def)
    from Cons.IH [OF this] Some show ?thesis by (simp add: map_filter_simps)
  qed
qed

lemma run_HealthCheck:
  "run_state (HealthCheck E ticks d) (p, w) = (n, (p', w'))
   \<Longrightarrow> p' = p \<and> n = d + sum_list (map (\<lambda>ks. length (List.map_filter (fmlookup (pcb_clients p)) ks)) ticks)
     \<and> trace w' = trace w @ concat (map (\<lambda>ks. map (\<lambda>c. VersionRPC c ''v1alpha1'')
         (List.map_filter (fmlookup (pcb_clients p)) ks)) ticks)"
proof (induction ticks arbitrary: w d)
  case Nil
  then show ?case by simp
next
  case (Cons ks ticks)
  obtain a p1 w1 where a: "run_state (health_tick E ks d) (p, w) = (a, (p1, w1))" by (rule run_obtain)
  with run_health_tick [OF a] Cons.prems have "run_state (HealthCheck E ticks a) (p, w1) = (n, (p', w'))" by simp
  from Cons.IH [OF this] run_health_tick [OF a] show ?case by simp
qed

text \<open>
  A health check never changes the builder and calls Version once per client and tick, whatever
  the providers answer; the cancel functions of its time-outs pile up, one per client and tick, until
  it returns.
\<close>

theorem HealthCheck_calls:
  assumes "run_state (HealthCheck E ticks 0) (p, w) = (deferred, (p', w'))"
    and "list_all (\<lambda>order. distinct order \<and> set order = fset (fmdom (pcb_clients p))) ticks"
  shows "p' = p \<and> deferred = length ticks * card (fset (fmdom (pcb_clients p)))
     \<and> trace w' = trace w @ map (\<lambda>k. VersionRPC (the (fmlookup (pcb_clients p) k)) ''v1alpha1'') (concat ticks)"
proof -
  have f: "List.map_filter (fmlookup (pcb_clients p)) ks = map (\<lambda>k. the (fmlookup (pcb_clients p) k)) ks"
    if "set ks = fset (fmdom (pcb_clients p))" for ks
    using that by (auto simp: List.map_filter_def fmlookup_dom_iff filter_id_conv)
  have "sum_list (map (\<lambda>ks. length (List.map_filter (fmlookup (pcb_clients p)) ks)) ticks)
      = length ticks * card (fset (fmdom (pcb_clients p)))"
    using assms(2) by (induction ticks) (auto simp: f distinct_card [symmetric])
  moreover have "concat (map (\<lambda>ks. map (\<lambda>c. VersionRPC c ''v1alpha1'')
         (List.map_filter (fmlookup (pcb_clients p)) ks)) ticks)
      = map (\<lambda>k. VersionRPC (the (fmlookup (pcb_clients p) k)) ''v1alpha1'') (concat ticks)"
    using assms(2) by (induction ticks) (simp_all add: f comp_def)
  ultimately show ?thesis using run_HealthCheck [OF assms(1)] by simp
qed

theorem HealthCheck_calls_witness:
  "fst (run_state (HealthCheck demo_provider [[''a''], [''a''], [''a'']] 0)
     (put_client ''a'' (ClientConn 0) (NewPluginClientBuilder [''/p''] []), demo_start)) = 3"
proof -
  let ?p = "put_client ''a'' (ClientConn 0) (NewPluginClientBuilder [''/p''] [])"
  obtain d p' w' where r: "run_state (HealthCheck demo_provider [[''a''], [''a''], [''a'']] 0) (?p, demo_start) = (d, (p', w'))"
    by (rule run_obtain)
  from HealthCheck_calls [OF r] r show ?thesis by (simp add: put_client_def NewPluginClientBuilder_def)
qed

section \<open>Mounting\<close>

lemma foldl_fmupd_lookup:
  "fmlookup (foldl (\<lambda>m x. fmupd (f x) (g x) m) m0 xs) k =
     (case find (\<lambda>x. f x = k) (rev xs) of None \<Rightarrow> fmlookup m0 k | Some x \<Rightarrow> Some (g x))"
proof (induction xs arbitrary: m0 rule: rev_induct)
  case Nil
  then show ?case by simp
next
  case (snoc x xs)
  then show ?case by simp
qed

text \<open>What the answer of the provider means.\<close>

definition mount_ok :: "error + MountResponse option \<Rightarrow> error + string gomap \<times> bytes gomap \<Rightarrow> bool" where
  "mount_ok resp r \<longleftrightarrow> (case resp of
      Inl e \<Rightarrow> r = Inl e
    | Inr None \<Rightarrow> r = Inl errMissingObjectVersions
    | Inr (Some m) \<Rightarrow>
        if \<exists>code. mr_Error m = Some code \<and> code \<noteq> [] then r = Inl (errMountCode (the (mr_Error m)))
        else if mr_ObjectVersion m = None then r = Inl errMissingObjectVersions
        else \<exists>versions files. r = Inr (versions, files)
          \<and> (\<forall>path. fmlookup files path = map_option f_Contents (find (\<lambda>f. f_Path f = path) (rev (mr_Files m))))
          \<and> (\<forall>obj. fmlookup versions obj
               = map_option ov_Version (find (\<lambda>v. ov_Id v = obj) (rev (the (mr_ObjectVersion m))))))"

text \<open>
  C21: MountContent makes exactly one Mount call, with permission 420 (octal 644) and the fixed
  target path. It fails with the transport's error, with the provider's error code, or because object
  versions are missing; otherwise its files are those of the response, the last one winning for a
  repeated path. The builder is not changed.
\<close>

theorem MountContent_result:
  assumes "run_state (MountContent E client attributes secrets ov) (p, w) = (r, (p', w'))"
  shows "p' = p
     \<and> mount_ok (fst (client_Mount E client (mount_request attributes secrets ov) (env_state w))) r
     \<and> mreq_Permission (mount_request attributes secrets ov) = ''420''
     \<and> (trace w' = trace w @ [Mount client (mount_request attributes secrets ov)]
        \<or> trace w' = trace w @ [Mount client (mount_request attributes secrets ov), KlogErrorS maxSizeHint])"
proof -
  have perm: "mreq_Permission (mount_request attributes secrets ov) = ''420''"
    by (simp add: mount_request_def) code_simp
  obtain resp e where resp: "client_Mount E client (mount_request attributes secrets ov) (env_state w) = (resp, e)"
    by fastforce
  have maps: "fmlookup (file_map fs) path = map_option f_Contents (find (\<lambda>f. f_Path f = path) (rev fs))"
    "fmlookup (version_map vs) obj = map_option ov_Version (find (\<lambda>v. ov_Id v = obj) (rev vs))" for fs vs path obj
    by (simp_all add: file_map_def version_map_def foldl_fmupd_lookup split: option.split)
  consider (err) err where "resp = Inl err" | (none) "resp = Inr None" | (some) m where "resp = Inr (Some m)"
    by (metis option.exhaust sumE)
  then show ?thesis
  proof cases
    case err
    with assms resp perm show ?thesis
      by (auto simp: MountContent_def run_simps Let_def mount_ok_def split: if_splits)
  next
    case none
    with assms resp perm show ?thesis by (auto simp: MountContent_def run_simps Let_def mount_ok_def)
  next
    case some
    with assms resp perm show ?thesis
      by (cases "mr_Error m"; cases "mr_ObjectVersion m")
        (auto simp: MountContent_def run_simps Let_def mount_ok_def maps split: list.splits)
  qed
qed

theorem MountContent_result_witness:
  "mount_ok (Inr (Some \<lparr>mr_Error = None, mr_ObjectVersion = Some [], mr_Files = []\<rparr>)) (Inr (fmempty, fmempty))"
proof -
  have "run_state (MountContent demo_provider (NewCSIDriverProviderClient (ClientConn 0)) ''at'' ''se'' []) ((), demo_start)
     = (Inr (fmempty, fmempty), ((), demo_start\<lparr>trace := [Mount (NewCSIDriverProviderClient (ClientConn 0)) (mount_request ''at'' ''se'' [])]\<rparr>))"
    by (simp add: MountContent_def run_simps Let_def demo_provider_def demo_start_def version_map_def file_map_def)
  from MountContent_result [OF this] show ?thesis by (simp add: demo_provider_def)
qed

section \<open>Effects\<close>

text \<open>Predicates that admit the calls of Get and of MountContent.\<close>

definition socket_calls :: "(call \<Rightarrow> bool) \<Rightarrow> bool" where
  "socket_calls P \<longleftrightarrow> (\<forall>path. P (Stat path) \<and> P (Lstat path)) \<and> (\<forall>target opts r. P (NewConn target opts r))"

definition mount_calls :: "(call \<Rightarrow> bool) \<Rightarrow> string \<Rightarrow> bool" where
  "mount_calls P attributes \<longleftrightarrow> (\<forall>client req. mreq_Attributes req = attributes \<longrightarrow> P (Mount client req))
     \<and> (\<forall>msg. P (KlogErrorS msg))"

lemma emits_find_socket: "socket_calls P \<Longrightarrow> emits P (find_socket E provider dirs)"
  by (induction dirs) (simp_all add: Let_def emits_intros socket_calls_def)

lemma emits_Get: "socket_calls P \<Longrightarrow> emits P (Get E provider)"
  unfolding Get_def store_client_def
  by (intro emits_intros emits_find_socket) (simp_all add: socket_calls_def)

lemma emits_MountContent: "mount_calls P attributes \<Longrightarrow> emits P (MountContent E client attributes secrets ov)"
  unfolding MountContent_def Let_def
  by (intro emits_intros) (simp_all add: mount_calls_def mount_request_def)

lemma quiet_Get: "quiet (Get E provider)"
  by (rule emits_Get) (simp add: socket_calls_def is_write_def)

lemma quiet_MountContent: "quiet (MountContent E client attributes secrets ov)"
  by (rule emits_MountContent) (simp add: mount_calls_def is_write_def)

end
