(* ===== verification/Concurrency.thy ===== *)
theory Concurrency
  imports TokenManager ProviderClient
begin

text \<open>
  The two shared components under parallel callers: the token manager of \<^verbatim>\<open>pkg/token\<close> and the client
  builder of \<^verbatim>\<open>pkg/provider\<close>, each as a step relation whose steps are the lock regions of the source,
  with the invariants of all interleavings and the link to the sequential operations.
\<close>

lemma two_steps: "r a b \<Longrightarrow> r b c \<Longrightarrow> rtranclp r a c"
  by (rule rtranclp.rtrancl_into_rtrancl [OF r_into_rtranclp])

lemma three_steps: "r a b \<Longrightarrow> r b c \<Longrightarrow> r c d \<Longrightarrow> rtranclp r a d"
  by (rule rtranclp.rtrancl_into_rtrancl [OF two_steps])

section \<open>Concurrent token requests\<close>

text \<open>
  Reconciles run in parallel and share the manager. Between its lock regions a caller of
  GetServiceAccountToken waits, holding what it read; a step is one lock region, one answer of the
  API server, or one deletion by cleanup. Which cached token needs a refresh, what the server answers
  and which entries have expired is left open. The list of calls is a ghost.
\<close>

datatype caller =
    Idle
  | Fetching string string TokenRequest "TokenRequest option"
  | Fetched string string TokenRequest TokenRequest
  | Returned string string TokenRequest "error + TokenRequest"

record manager_sys =
  sys_cache :: "TokenRequest gomap"
  sys_callers :: "nat \<Rightarrow> caller"
  sys_calls :: "call list"

definition sys_key :: "(nat \<Rightarrow> bool) \<Rightarrow> string \<Rightarrow> string \<Rightarrow> TokenRequest \<Rightarrow> string" where
  "sys_key pr namespace name tr = keyFunc pr name namespace tr"

inductive sys_step :: "(nat \<Rightarrow> bool) \<Rightarrow> manager_sys \<Rightarrow> manager_sys \<Rightarrow> bool" for pr where
  hit: "fmlookup (sys_cache s) (sys_key pr namespace name tr) = Some c
    \<Longrightarrow> sys_step pr s (s\<lparr>sys_callers := (sys_callers s)(i := Returned namespace name tr (Inr c))\<rparr>)"
| miss: "fmlookup (sys_cache s) (sys_key pr namespace name tr) = ctr
    \<Longrightarrow> sys_step pr s (s\<lparr>sys_callers := (sys_callers s)(i := Fetching namespace name tr ctr)\<rparr>)"
| answer: "sys_callers s i = Fetching namespace name tr ctr
    \<Longrightarrow> sys_step pr s (s\<lparr>sys_callers := (sys_callers s)(i := Fetched namespace name tr t),
          sys_calls := sys_calls s @ [CreateToken namespace name tr (Some t)]\<rparr>)"
| put: "sys_callers s i = Fetched namespace name tr t
    \<Longrightarrow> sys_step pr s (s\<lparr>sys_callers := (sys_callers s)(i := Returned namespace name tr (Inr t)),
          sys_cache := fmupd (sys_key pr namespace name tr) t (sys_cache s)\<rparr>)"
| fail_old: "sys_callers s i = Fetching namespace name tr (Some c) \<Longrightarrow> fetch_calls namespace name tr (Inl err) failed
    \<Longrightarrow> sys_step pr s (s\<lparr>sys_callers := (sys_callers s)(i := Returned namespace name tr (Inr c)),
          sys_calls := sys_calls s @ failed\<rparr>)"
| fail: "sys_callers s i = Fetching namespace name tr ctr \<Longrightarrow> fetch_calls namespace name tr (Inl err') failed
    \<Longrightarrow> sys_step pr s (s\<lparr>sys_callers := (sys_callers s)(i := Returned namespace name tr (Inl err)),
          sys_calls := sys_calls s @ failed\<rparr>)"
| drop: "sys_step pr s (s\<lparr>sys_cache := fmdrop k (sys_cache s)\<rparr>)"

definition sys_init :: "manager_sys \<Rightarrow> bool" where
  "sys_init s \<longleftrightarrow> sys_cache s = fmempty \<and> sys_callers s = (\<lambda>_. Idle) \<and> sys_calls s = []"

definition caller_ok :: "(nat \<Rightarrow> bool) \<Rightarrow> call list \<Rightarrow> caller \<Rightarrow> bool" where
  "caller_ok pr calls c \<longleftrightarrow> (case c of
      Idle \<Rightarrow> True
    | Fetching namespace name tr ctr \<Rightarrow> pred_option (issued pr calls (sys_key pr namespace name tr)) ctr
    | Fetched namespace name tr t \<Rightarrow> issued pr calls (sys_key pr namespace name tr) t
    | Returned namespace name tr r \<Rightarrow> pred_sum (\<lambda>_. True) (issued pr calls (sys_key pr namespace name tr)) r)"

definition sys_inv :: "(nat \<Rightarrow> bool) \<Rightarrow> manager_sys \<Rightarrow> bool" where
  "sys_inv pr s \<longleftrightarrow> fmpred (issued pr (sys_calls s)) (sys_cache s)
     \<and> (\<forall>i. caller_ok pr (sys_calls s) (sys_callers s i))"

lemma caller_ok_mono: "caller_ok pr calls c \<Longrightarrow> caller_ok pr (calls @ later) c"
  by (auto simp: caller_ok_def split: caller.splits intro: issued_mono
      elim!: option.pred_mono_strong sum.pred_mono_strong)

lemma fmpred_issued_mono: "fmpred (issued pr calls) m \<Longrightarrow> fmpred (issued pr (calls @ later)) m"
  by (auto simp: fmpred_iff intro: issued_mono)

lemma issued_new: "issued pr (calls @ [CreateToken namespace name tr (Some t)]) (sys_key pr namespace name tr) t"
  by (auto simp: issued_def sys_key_def)

lemma sys_inv_step: "sys_step pr s t \<Longrightarrow> sys_inv pr s \<Longrightarrow> sys_inv pr t"
proof (induction rule: sys_step.induct)
  case (hit s namespace name tr c i)
  then have "issued pr (sys_calls s) (sys_key pr namespace name tr) c"
    by (auto simp: sys_inv_def dest: fmpredD)
  with hit show ?case by (simp add: sys_inv_def caller_ok_def)
next
  case (miss s namespace name tr ctr i)
  then have "pred_option (issued pr (sys_calls s) (sys_key pr namespace name tr)) ctr"
    by (cases ctr) (auto simp: sys_inv_def dest: fmpredD)
  with miss show ?case by (simp add: sys_inv_def caller_ok_def)
next
  case (answer s i namespace name tr ctr t)
  then show ?case
    by (auto simp: sys_inv_def fmpred_issued_mono caller_ok_mono)
      (simp add: caller_ok_def issued_new)
next
  case (put s i namespace name tr t)
  then have "caller_ok pr (sys_calls s) (Fetched namespace name tr t)" by (metis sys_inv_def)
  with put show ?case by (auto simp: sys_inv_def caller_ok_def fmpred_iff)
next
  case (fail_old s i namespace name tr c err failed)
  then have "caller_ok pr (sys_calls s @ failed) (Fetching namespace name tr (Some c))"
    by (metis sys_inv_def caller_ok_mono)
  with fail_old show ?case
    by (auto simp: sys_inv_def fmpred_issued_mono caller_ok_mono) (simp add: caller_ok_def)
next
  case (fail s i namespace name tr ctr err' failed err)
  then show ?case
    by (auto simp: sys_inv_def fmpred_issued_mono caller_ok_mono) (simp add: caller_ok_def)
next
  case (drop s k)
  then show ?case by (auto simp: sys_inv_def fmpred_iff)
qed

interpretation token_sys: invariant_system sys_init "sys_step pr" "sys_inv pr" for pr
proof
  show "sys_inv pr s" if "sys_init s" for s
    using that by (simp add: sys_init_def sys_inv_def caller_ok_def)
  show "sys_inv pr t" if "sys_inv pr s" "sys_step pr s t" for s t
    using that sys_inv_step by blast
qed

text \<open>
  C17: Token isolation with concurrent callers. However the lock regions of parallel calls, the
  answers of the API server and cleanup interleave, a token a call returns was issued by the API
  server for the service account, the namespace and the audiences that call asked for.
\<close>

theorem concurrent_isolation:
  assumes "reach sys_init (sys_step pr) s"
    and "sys_callers s i = Returned namespace name tr (Inr t)"
  shows "\<exists>req. CreateToken namespace name req (Some t) \<in> set (sys_calls s)
     \<and> trs_Audiences (tr_Spec tr) = trs_Audiences (tr_Spec req)"
proof -
  have "caller_ok pr (sys_calls s) (sys_callers s i)"
    using token_sys.reach_inv [OF assms(1)] by (simp add: sys_inv_def)
  with assms(2) show ?thesis
    by (auto simp: caller_ok_def issued_def sys_key_def keyFunc_key)
qed

theorem concurrent_isolation_witness:
  "\<exists>s. reach sys_init (sys_step (\<lambda>r. False)) s
     \<and> sys_callers s 1 = Returned ''ns'' ''sa'' (audience_request ''a'') (Inr demo_endless)
     \<and> (\<exists>req. CreateToken ''ns'' ''sa'' req (Some demo_endless) \<in> set (sys_calls s)
          \<and> trs_Audiences (tr_Spec (audience_request ''a'')) = trs_Audiences (tr_Spec req))"
proof -
  let ?tr = "audience_request ''a''" and ?pr = "\<lambda>r. False"
  let ?k = "sys_key ?pr ''ns'' ''sa'' ?tr"
  define s0 where "s0 = \<lparr>sys_cache = fmempty, sys_callers = (\<lambda>_. Idle), sys_calls = []\<rparr>"
  define s1 where "s1 = s0\<lparr>sys_callers := (sys_callers s0)(0 := Fetching ''ns'' ''sa'' ?tr None)\<rparr>"
  define s2 where "s2 = s1\<lparr>sys_callers := (sys_callers s1)(0 := Fetched ''ns'' ''sa'' ?tr demo_endless),
    sys_calls := sys_calls s1 @ [CreateToken ''ns'' ''sa'' ?tr (Some demo_endless)]\<rparr>"
  define s3 where "s3 = s2\<lparr>sys_callers := (sys_callers s2)(0 := Returned ''ns'' ''sa'' ?tr (Inr demo_endless)),
    sys_cache := fmupd ?k demo_endless (sys_cache s2)\<rparr>"
  define s4 where "s4 = s3\<lparr>sys_callers := (sys_callers s3)(1 := Returned ''ns'' ''sa'' ?tr (Inr demo_endless))\<rparr>"
  have "reach sys_init (sys_step ?pr) s0" by (rule reach_init) (simp add: s0_def sys_init_def)
  then have "reach sys_init (sys_step ?pr) s1"
    by (rule reach_step) (unfold s1_def, rule miss, simp add: s0_def)
  then have "reach sys_init (sys_step ?pr) s2"
    by (rule reach_step) (unfold s2_def, rule answer, simp add: s1_def)
  then have "reach sys_init (sys_step ?pr) s3"
    by (rule reach_step) (unfold s3_def, rule put, simp add: s2_def)
  then have r: "reach sys_init (sys_step ?pr) s4"
    by (rule reach_step) (unfold s4_def, rule hit, simp add: s3_def)
  have c: "sys_callers s4 1 = Returned ''ns'' ''sa'' ?tr (Inr demo_endless)" by (simp add: s4_def)
  from concurrent_isolation [OF r c] r c show ?thesis by blast
qed

lemma token_outcome_cases [consumes 1, case_names hit new old failed]:
  assumes "token_outcome E namespace name tr m r m' calls"
  obtains t where "r = Inr t" "calls = []" "m' = m" "fmlookup (mg_cache m) (sys_key (isPrint E) namespace name tr) = Some t"
    | t where "r = Inr t" "calls = [CreateToken namespace name tr (Some t)]"
        "mg_cache m' = fmupd (sys_key (isPrint E) namespace name tr) t (mg_cache m)"
    | t err where "r = Inr t" "mg_cache m' = mg_cache m"
        "fmlookup (mg_cache m) (sys_key (isPrint E) namespace name tr) = Some t" "fetch_calls namespace name tr (Inl err) calls"
    | e err where "r = Inl e" "mg_cache m' = mg_cache m" "fetch_calls namespace name tr (Inl err) calls"
  using assms by (cases r) (auto simp: token_outcome_def Let_def sys_key_def)

text \<open>The last step of a caller whose request failed, and of one whose answer is stored.\<close>

lemma fetching_fails:
  assumes "sys_callers s i = Fetching namespace name tr ctr" "fetch_calls namespace name tr (Inl err) calls"
    and "case r of Inr t \<Rightarrow> ctr = Some t | Inl e \<Rightarrow> True"
  shows "sys_step pr s (s\<lparr>sys_callers := (sys_callers s)(i := Returned namespace name tr r), sys_calls := sys_calls s @ calls\<rparr>)"
  using assms by (cases r) (auto intro: fail fail_old)

lemma fetching_stores:
  assumes "sys_callers s i = Fetching namespace name tr ctr"
  shows "rtranclp (sys_step pr) s (s\<lparr>sys_callers := (sys_callers s)(i := Returned namespace name tr (Inr t)),
     sys_calls := sys_calls s @ [CreateToken namespace name tr (Some t)],
     sys_cache := fmupd (sys_key pr namespace name tr) t (sys_cache s)\<rparr>)"
proof -
  let ?s = "s\<lparr>sys_callers := (sys_callers s)(i := Fetched namespace name tr t),
    sys_calls := sys_calls s @ [CreateToken namespace name tr (Some t)]\<rparr>"
  have 1: "sys_step pr s ?s" using assms by (rule answer)
  have 2: "sys_step pr ?s (?s\<lparr>sys_callers := (sys_callers ?s)(i := Returned namespace name tr (Inr t)),
     sys_cache := fmupd (sys_key pr namespace name tr) t (sys_cache ?s)\<rparr>)" by (rule put) simp
  from two_steps [of "sys_step pr", OF 1 2] show ?thesis by (cases s) simp
qed

text \<open>
  C36: The step relation covers the sequential model: a whole run of GetServiceAccountToken, alone
  between its start and its end, is a sequence of steps of one caller from the same cache and calls to
  the same cache, calls and result. What holds for all interleavings therefore holds for it.
\<close>

theorem GetServiceAccountToken_steps:
  assumes "run_state (GetServiceAccountToken E namespace name tr) (m, w) = (r, (m', w'))"
    and "sys_cache s = mg_cache m" "sys_calls s = trace w"
  shows "rtranclp (sys_step (isPrint E)) s (s\<lparr>sys_cache := mg_cache m', sys_calls := trace w',
     sys_callers := (sys_callers s)(i := Returned namespace name tr r)\<rparr>)"
proof -
  let ?key = "sys_key (isPrint E) namespace name tr"
  obtain calls where c: "trace w' = trace w @ calls" and o: "token_outcome E namespace name tr m r m' calls"
    using run_GetServiceAccountToken [OF assms(1)] by blast
  let ?s1 = "s\<lparr>sys_callers := (sys_callers s)(i := Fetching namespace name tr (fmlookup (sys_cache s) ?key))\<rparr>"
  have 1: "sys_step (isPrint E) s ?s1" by (rule miss) simp
  have fetching: "sys_callers ?s1 i = Fetching namespace name tr (fmlookup (mg_cache m) ?key)" using assms(2) by simp
  from o show ?thesis
  proof (cases rule: token_outcome_cases)
    case (hit t)
    with sys_step.hit [of s "isPrint E" namespace name tr t i] assms c show ?thesis
      by (cases s) (simp add: r_into_rtranclp)
  next
    case (new t)
    from converse_rtranclp_into_rtranclp [of "sys_step (isPrint E)", OF 1 fetching_stores [OF fetching, of _ t]] new assms c
    show ?thesis by (cases s) simp
  next
    case (old t err)
    with two_steps [of "sys_step (isPrint E)", OF 1 fetching_fails [OF fetching, of err calls "Inr t"]] assms c
    show ?thesis by (cases s) simp
  next
    case (failed e err)
    with two_steps [of "sys_step (isPrint E)", OF 1 fetching_fails [OF fetching, of err calls "Inl e"]] assms c
    show ?thesis by (cases s) simp
  qed
qed

theorem GetServiceAccountToken_steps_witness:
  "rtranclp (sys_step (\<lambda>r. False)) \<lparr>sys_cache = fmempty, sys_callers = (\<lambda>_. Idle), sys_calls = []\<rparr>
     \<lparr>sys_cache = fmupd (sys_key (\<lambda>r. False) ''ns'' ''sa'' demo_endless) (demo_token ''sa'' demo_endless) fmempty,
      sys_callers = (\<lambda>_. Idle)(7 := Returned ''ns'' ''sa'' demo_endless (Inr (demo_token ''sa'' demo_endless))),
      sys_calls = [CreateToken ''ns'' ''sa'' demo_endless (Some (demo_token ''sa'' demo_endless))]\<rparr>"
  using GetServiceAccountToken_steps [OF demo_GetServiceAccountToken [of demo_endless],
      of "\<lparr>sys_cache = fmempty, sys_callers = (\<lambda>_. Idle), sys_calls = []\<rparr>" 7]
  by (simp add: NewManager_def cache_put_def demo_world_def demo_tokens_def sys_key_def)

section \<open>Concurrent Gets\<close>

text \<open>
  Two reconciles may ask for the same provider at once. A step of the system below is the read of
  the map, the dial, or the region under the write lock; which sockets exist is left open.
  \<open>gs_open\<close> is the ghost set of the connections that were opened (Get closes none); a dial opens a
  new one.
\<close>

datatype getter =
    GetIdle
  | Dialing string
  | Dialed string ClientConn
  | GetDone string "error + CSIDriverProviderClient"

record get_sys =
  gs_builder :: PluginClientBuilder
  gs_getters :: "nat \<Rightarrow> getter"
  gs_open :: "ClientConn set"

inductive get_step :: "get_sys \<Rightarrow> get_sys \<Rightarrow> bool" where
  g_hit: "fmlookup (pcb_clients (gs_builder s)) provider = Some c
    \<Longrightarrow> get_step s (s\<lparr>gs_getters := (gs_getters s)(i := GetDone provider (Inr c))\<rparr>)"
| g_miss: "fmlookup (pcb_clients (gs_builder s)) provider = None \<Longrightarrow> pluginNameRe provider
    \<Longrightarrow> get_step s (s\<lparr>gs_getters := (gs_getters s)(i := Dialing provider)\<rparr>)"
| g_invalid: "fmlookup (pcb_clients (gs_builder s)) provider = None \<Longrightarrow> \<not> pluginNameRe provider
    \<Longrightarrow> get_step s (s\<lparr>gs_getters := (gs_getters s)(i := GetDone provider (Inl err))\<rparr>)"
| g_fail: "gs_getters s i = Dialing provider
    \<Longrightarrow> get_step s (s\<lparr>gs_getters := (gs_getters s)(i := GetDone provider (Inl err))\<rparr>)"
| g_dial: "gs_getters s i = Dialing provider \<Longrightarrow> conn \<notin> gs_open s
    \<Longrightarrow> get_step s (s\<lparr>gs_getters := (gs_getters s)(i := Dialed provider conn), gs_open := insert conn (gs_open s)\<rparr>)"
| g_won: "gs_getters s i = Dialed provider conn \<Longrightarrow> fmlookup (pcb_clients (gs_builder s)) provider = None
    \<Longrightarrow> get_step s (s\<lparr>gs_getters := (gs_getters s)(i := GetDone provider (Inr (NewCSIDriverProviderClient conn))),
          gs_builder := put_client provider conn (gs_builder s)\<rparr>)"
| g_lost: "gs_getters s i = Dialed provider conn \<Longrightarrow> fmlookup (pcb_clients (gs_builder s)) provider = Some c
    \<Longrightarrow> get_step s (s\<lparr>gs_getters := (gs_getters s)(i := GetDone provider (Inr c))\<rparr>)"

definition get_init :: "get_sys \<Rightarrow> bool" where
  "get_init s \<longleftrightarrow> (\<exists>paths opts. gs_builder s = NewPluginClientBuilder paths opts) \<and> gs_getters s = (\<lambda>_. GetIdle)
     \<and> gs_open s = {}"

definition getter_ok :: "PluginClientBuilder \<Rightarrow> getter \<Rightarrow> bool" where
  "getter_ok p g \<longleftrightarrow> (case g of
      GetDone provider (Inr c) \<Rightarrow> fmlookup (pcb_clients p) provider = Some c
    | Dialing provider \<Rightarrow> pluginNameRe provider
    | Dialed provider conn \<Rightarrow> pluginNameRe provider
    | _ \<Rightarrow> True)"

definition get_inv :: "get_sys \<Rightarrow> bool" where
  "get_inv s \<longleftrightarrow> builder_ok (gs_builder s) \<and> (\<forall>i. getter_ok (gs_builder s) (gs_getters s i))"

lemma getter_ok_put:
  "fmlookup (pcb_clients p) provider = None \<Longrightarrow> getter_ok p g \<Longrightarrow> getter_ok (put_client provider conn p) g"
  by (auto simp: getter_ok_def put_client_def split: getter.splits sum.splits)

lemma get_inv_step: "get_step s t \<Longrightarrow> get_inv s \<Longrightarrow> get_inv t"
proof (induction rule: get_step.induct)
  case (g_won s i provider conn)
  then have "pluginNameRe provider" by (auto simp: get_inv_def getter_ok_def split: getter.splits dest: spec [of _ i])
  with g_won show ?case
    by (auto simp: get_inv_def builder_ok_put getter_ok_put) (simp add: getter_ok_def put_client_def)
next
  case (g_dial s i provider conn)
  then have "pluginNameRe provider" by (auto simp: get_inv_def getter_ok_def split: getter.splits dest: spec [of _ i])
  with g_dial show ?case by (auto simp: get_inv_def getter_ok_def)
qed (auto simp: get_inv_def getter_ok_def)

interpretation provider_sys: invariant_system get_init get_step get_inv
proof
  show "get_inv s" if "get_init s" for s
    using that by (auto simp: get_init_def get_inv_def builder_ok_New getter_ok_def)
  show "get_inv t" if "get_inv s" "get_step s t" for s t
    using that get_inv_step by blast
qed

text \<open>
  C20: Concurrent Gets agree. However their steps interleave, two calls of Get that succeeded for
  the same provider returned the same client, the one stored in the builder, so the race for the
  write lock never splits the callers over two clients.
\<close>

theorem concurrent_Get_agree:
  assumes "reach get_init get_step s"
    and "gs_getters s i = GetDone provider (Inr c)" "gs_getters s j = GetDone provider (Inr d)"
  shows "c = d \<and> fmlookup (pcb_clients (gs_builder s)) provider = Some c"
proof -
  have "getter_ok (gs_builder s) (gs_getters s i)" "getter_ok (gs_builder s) (gs_getters s j)"
    using provider_sys.reach_inv [OF assms(1)] by (simp_all add: get_inv_def)
  with assms(2,3) show ?thesis by (simp add: getter_ok_def)
qed

text \<open>Two callers race for provider \<open>a\<close>: both miss, both dial, caller 0 stores first.\<close>

definition race_start :: get_sys where
  "race_start = \<lparr>gs_builder = NewPluginClientBuilder [] [], gs_getters = (\<lambda>_. GetIdle), gs_open = {}\<rparr>"

definition race_end :: get_sys where
  "race_end = \<lparr>gs_builder = put_client ''a'' (ClientConn 0) (NewPluginClientBuilder [] []),
     gs_getters = (\<lambda>_. GetIdle)(0 := GetDone ''a'' (Inr (NewCSIDriverProviderClient (ClientConn 0))),
       1 := GetDone ''a'' (Inr (NewCSIDriverProviderClient (ClientConn 0)))),
     gs_open = {ClientConn 0, ClientConn 1}\<rparr>"

lemma race_reach: "reach get_init get_step race_end"
proof -
  let ?none = "fmlookup (pcb_clients (NewPluginClientBuilder [] [])) ''a'' = None"
  have a: "pluginNameRe ''a''" by code_simp
  have n: ?none by (simp add: NewPluginClientBuilder_def)
  note upd = fun_upd_twist [of "0::nat" 1]
  define s1 where "s1 = race_start\<lparr>gs_getters := (gs_getters race_start)(0 := Dialing ''a'')\<rparr>"
  define s2 where "s2 = s1\<lparr>gs_getters := (gs_getters s1)(1 := Dialing ''a'')\<rparr>"
  define s3 where "s3 = s2\<lparr>gs_getters := (gs_getters s2)(0 := Dialed ''a'' (ClientConn 0)),
    gs_open := insert (ClientConn 0) (gs_open s2)\<rparr>"
  define s4 where "s4 = s3\<lparr>gs_getters := (gs_getters s3)(1 := Dialed ''a'' (ClientConn 1)),
    gs_open := insert (ClientConn 1) (gs_open s3)\<rparr>"
  define s5 where "s5 = s4\<lparr>gs_getters := (gs_getters s4)(0 := GetDone ''a'' (Inr (NewCSIDriverProviderClient (ClientConn 0)))),
    gs_builder := put_client ''a'' (ClientConn 0) (gs_builder s4)\<rparr>"
  define s6 where "s6 = s5\<lparr>gs_getters := (gs_getters s5)(1 := GetDone ''a'' (Inr (NewCSIDriverProviderClient (ClientConn 0))))\<rparr>"
  note defs = s1_def s2_def s3_def s4_def s5_def s6_def race_start_def
  have "reach get_init get_step race_start"
    by (rule reach_init) (auto simp: get_init_def race_start_def)
  then have "reach get_init get_step s1"
    by (rule reach_step) (unfold s1_def, rule g_miss, simp_all add: a n race_start_def)
  then have "reach get_init get_step s2"
    by (rule reach_step) (unfold s2_def, rule g_miss, simp_all add: a n defs)
  then have "reach get_init get_step s3"
    by (rule reach_step) (unfold s3_def, rule g_dial, simp_all add: defs)
  then have "reach get_init get_step s4"
    by (rule reach_step) (unfold s4_def, rule g_dial, simp_all add: defs)
  then have "reach get_init get_step s5"
    by (rule reach_step) (unfold s5_def, rule g_won, simp_all add: n defs)
  then have "reach get_init get_step s6"
    by (rule reach_step) (unfold s6_def, rule g_lost, simp_all add: defs put_client_def)
  moreover have "s6 = race_end" by (auto simp: race_end_def defs fun_eq_iff)
  ultimately show ?thesis by simp
qed

theorem concurrent_Get_agree_witness:
  "fmlookup (pcb_clients (gs_builder race_end)) ''a'' = Some (NewCSIDriverProviderClient (ClientConn 0))"
  using concurrent_Get_agree [OF race_reach, of 0 "''a''" "NewCSIDriverProviderClient (ClientConn 0)" 1
      "NewCSIDriverProviderClient (ClientConn 0)"]
  by (simp add: race_end_def)

text \<open>
  The loser of that race leaks its connection: there is a reachable state in which both callers
  have returned and an open connection is stored nowhere, so no Cleanup will ever close it.
\<close>

theorem concurrent_Get_leak:
  "\<exists>s conn. reach get_init get_step s \<and> conn \<in> gs_open s
     \<and> (\<exists>c. gs_getters s 0 = GetDone ''a'' (Inr c) \<and> gs_getters s 1 = GetDone ''a'' (Inr c))
     \<and> conn \<notin> fmran' (pcb_conns (gs_builder s))
     \<and> CloseConn conn \<notin> set (trace (snd (snd (run_state (Cleanup E (sorted_list_of_fset (fmdom (pcb_conns (gs_builder s)))))
         (gs_builder s, \<lparr>env_state = w, trace = []\<rparr>)))))"
proof -
  obtain p' w' where r: "run_state (Cleanup E [''a'']) (gs_builder race_end, \<lparr>env_state = w, trace = []\<rparr>) = ((), (p', w'))"
    by (metis run_obtain old.unit.exhaust)
  have d: "sorted_list_of_fset {|''a''|} = [''a'']" by (simp add: sorted_list_of_fset.rep_eq)
  have "trace w' = [CloseConn (ClientConn 0)]"
    using cleanup_aux [OF r] by (simp add: race_end_def put_client_def NewPluginClientBuilder_def)
  with r race_reach show ?thesis
    by (intro exI [of _ race_end] exI [of _ "ClientConn 1"])
      (auto simp: d race_end_def put_client_def NewPluginClientBuilder_def fmran'_def fmupd_lookup split: if_splits)
qed

text \<open>The connections that a list of calls opened.\<close>

definition opened :: "call list \<Rightarrow> ClientConn set" where
  "opened calls = {conn. \<exists>target opts. NewConn target opts (Some conn) \<in> set calls}"

text \<open>The steps of a getter that has missed: its dial fails, or it dials and stores its client.\<close>

lemma get_step_fails:
  assumes "fmlookup (pcb_clients (gs_builder s)) provider = None" "pluginNameRe provider"
  shows "rtranclp get_step s (s\<lparr>gs_getters := (gs_getters s)(i := GetDone provider (Inl e))\<rparr>)"
proof -
  let ?s1 = "s\<lparr>gs_getters := (gs_getters s)(i := Dialing provider)\<rparr>"
  have "get_step s ?s1" using assms by (rule g_miss)
  moreover have "get_step ?s1 (?s1\<lparr>gs_getters := (gs_getters ?s1)(i := GetDone provider (Inl e))\<rparr>)" by (rule g_fail) simp
  ultimately show ?thesis using two_steps [of get_step] by fastforce
qed

lemma get_step_stores:
  assumes "fmlookup (pcb_clients (gs_builder s)) provider = None" "pluginNameRe provider" "conn \<notin> gs_open s"
  shows "rtranclp get_step s (s\<lparr>gs_builder := put_client provider conn (gs_builder s),
     gs_getters := (gs_getters s)(i := GetDone provider (Inr (NewCSIDriverProviderClient conn))), gs_open := {conn} \<union> gs_open s\<rparr>)"
proof -
  let ?s1 = "s\<lparr>gs_getters := (gs_getters s)(i := Dialing provider)\<rparr>"
  let ?s2 = "?s1\<lparr>gs_getters := (gs_getters ?s1)(i := Dialed provider conn), gs_open := insert conn (gs_open ?s1)\<rparr>"
  have 1: "get_step s ?s1" using assms(1,2) by (rule g_miss)
  have 2: "get_step ?s1 ?s2" using assms(3) by (intro g_dial) simp_all
  have "get_step ?s2 (?s2\<lparr>gs_getters := (gs_getters ?s2)(i := GetDone provider (Inr (NewCSIDriverProviderClient conn))),
      gs_builder := put_client provider conn (gs_builder ?s2)\<rparr>)"
    using assms(1) by (intro g_won) simp_all
  from three_steps [of get_step, OF 1 2 this] show ?thesis by (cases s) simp
qed

text \<open>
  C37: A whole run of Get, alone between its start and its end, is a sequence of steps of one getter
  from the same builder to the same builder and result, as long as the connections it dials are new;
  the connections it leaves open are among those it dialed.
\<close>

theorem Get_steps:
  assumes "run_state (Get E provider) (gs_builder s, w) = (r, (p', w'))" "trace w' = trace w @ calls"
    and "opened calls \<inter> gs_open s = {}"
  shows "\<exists>new. new \<subseteq> opened calls \<and> rtranclp get_step s (s\<lparr>gs_builder := p',
     gs_getters := (gs_getters s)(i := GetDone provider r), gs_open := new \<union> gs_open s\<rparr>)"
proof -
  let ?p = "gs_builder s" and ?done = "\<lambda>r. s\<lparr>gs_getters := (gs_getters s)(i := GetDone provider r)\<rparr>"
  have kept: ?thesis if "p' = ?p" "rtranclp get_step s (?done r)"
    using that by (intro exI [of _ "{}"]) simp
  consider (cached) c where "fmlookup (pcb_clients ?p) provider = Some c"
    | (bad) "fmlookup (pcb_clients ?p) provider = None" "\<not> pluginNameRe provider"
    | (new) "fmlookup (pcb_clients ?p) provider = None" "pluginNameRe provider" by blast
  then show ?thesis
  proof cases
    case cached
    with run_Get_cached [OF cached, of E w] assms g_hit [OF cached, of i] show ?thesis
      by (intro kept) (auto intro: r_into_rtranclp)
  next
    case bad
    with run_Get_invalid [OF bad, of E w] assms g_invalid [OF bad] show ?thesis
      by (intro kept) (auto intro: r_into_rtranclp)
  next
    case new
    from run_Get_new [OF assms(1) new] assms(2) have o: "get_outcome ?p provider r p' calls" by auto
    show ?thesis
    proof (cases r)
      case (Inl e)
      with o get_step_fails [OF new, of i e] show ?thesis by (intro kept) (simp_all add: get_outcome_def)
    next
      case (Inr c)
      with o obtain target opts where l: "calls \<noteq> []" "last calls = NewConn target opts (Some (conn_of c))"
        and p': "p' = put_client provider (conn_of c) ?p"
        by (auto simp: get_outcome_def)
      from l have "conn_of c \<in> opened calls" using last_in_set [of calls] by (auto simp: opened_def)
      with p' assms(3) get_step_stores [OF new, of "conn_of c" i] Inr show ?thesis
        by (intro exI [of _ "{conn_of c}"]) auto
    qed
  qed
qed

theorem Get_steps_witness:
  "\<exists>new s. new \<subseteq> {ClientConn 0} \<and> rtranclp get_step
     \<lparr>gs_builder = NewPluginClientBuilder [''/p''] [], gs_getters = (\<lambda>_. GetIdle), gs_open = {}\<rparr> s
     \<and> gs_builder s = put_client ''a'' (ClientConn 0) (NewPluginClientBuilder [''/p''] []) \<and> gs_open s = new"
proof -
  let ?s = "\<lparr>gs_builder = NewPluginClientBuilder [''/p''] [], gs_getters = (\<lambda>_. GetIdle), gs_open = {}\<rparr>"
  let ?calls = "[Stat ''/p/a.sock'', NewConn ''unix:///p/a.sock'' (dial_opts []) (Some (ClientConn 0))]"
  have o: "opened ?calls = {ClientConn 0}" by (auto simp: opened_def)
  have run: "run_state (Get demo_provider ''a'') (gs_builder ?s, demo_start)
   = (Inr (NewCSIDriverProviderClient (ClientConn 0)),
      (put_client ''a'' (ClientConn 0) (NewPluginClientBuilder [''/p''] []), \<lparr>env_state = 1, trace = ?calls\<rparr>))"
    using demo_Get by simp
  have "trace \<lparr>env_state = 1, trace = ?calls\<rparr> = trace demo_start @ ?calls" by (simp add: demo_start_def)
  from Get_steps [OF run this, of 0] o obtain new where "new \<subseteq> {ClientConn 0}"
    "rtranclp get_step ?s (?s\<lparr>gs_builder := put_client ''a'' (ClientConn 0) (NewPluginClientBuilder [''/p''] []),
       gs_getters := (gs_getters ?s)(0 := GetDone ''a'' (Inr (NewCSIDriverProviderClient (ClientConn 0)))), gs_open := new \<union> gs_open ?s\<rparr>)"
    by auto
  then show ?thesis by (intro exI conjI) (assumption+, simp_all)
qed

end
