(* ===== verification/Conditions.thy ===== *)
theory Conditions
  imports ApiTypes
begin

text \<open>
  \<^verbatim>\<open>internal/controller/conditions.go\<close>: the condition types and reasons of a SecretSync, and the two
  writers of conditions. \<^verbatim>\<open>meta.SetStatusCondition\<close> and the status client are parameters, the record
  \<open>status_env\<close>; what the former documents is the hypothesis \<open>sets_condition\<close>.
\<close>

section \<open>Constants\<close>

definition ConditionTypeCreate :: string where "ConditionTypeCreate = ''SecretCreated''"
definition ConditionTypeUpdate :: string where "ConditionTypeUpdate = ''SecretUpdated''"

definition ConditionReasonFailedProviderError :: string where
  "ConditionReasonFailedProviderError = ''ProviderError''"
definition ConditionReasonFailedInvalidLabelError :: string where
  "ConditionReasonFailedInvalidLabelError = ''InvalidClusterSecretLabelError''"
definition ConditionReasonFailedInvalidAnnotationError :: string where
  "ConditionReasonFailedInvalidAnnotationError = ''InvalidClusterSecretAnnotationError''"
definition ConditionReasonControllerSyncError :: string where
  "ConditionReasonControllerSyncError = ''ControllerSyncError''"
definition ConditionReasonControllerPatchError :: string where
  "ConditionReasonControllerPatchError = ''ControllerPatchError''"
definition ConditionReasonControllerSpcError :: string where
  "ConditionReasonControllerSpcError = ''SecretProviderClassMisconfigured''"
definition ConditionReasonRemoteSecretStoreFetchFailed :: string where
  "ConditionReasonRemoteSecretStoreFetchFailed = ''RemoteSecretStoreFetchFailed''"
definition ConditionReasonSyncStarting :: string where
  "ConditionReasonSyncStarting = ''SyncStarting''"
definition ConditionReasonNoUpdateAttemptedYet :: string where
  "ConditionReasonNoUpdateAttemptedYet = ''NoUpdatesAttemptedYet''"
definition ConditionReasonSecretUpToDate :: string where
  "ConditionReasonSecretUpToDate = ''SecretUpToDate''"
definition ConditionReasonCreateSuccessful :: string where
  "ConditionReasonCreateSuccessful = ''CreateSuccessful''"
definition ConditionMessageCreateSuccessful :: string where
  "ConditionMessageCreateSuccessful = ''Secret created successfully.''"
definition ConditionMessageUpdateSuccessful :: string where
  "ConditionMessageUpdateSuccessful = ''Secret contains last observed values.''"

definition FailedConditionsTriggeringRetry :: "string list" where
  "FailedConditionsTriggeringRetry = [
     ConditionReasonControllerSpcError,
     ConditionReasonFailedInvalidAnnotationError,
     ConditionReasonFailedInvalidLabelError,
     ConditionReasonFailedProviderError,
     ConditionReasonFailedInvalidAnnotationError,
     ConditionReasonFailedProviderError,
     ConditionReasonRemoteSecretStoreFetchFailed,
     ConditionReasonControllerPatchError,
     ConditionReasonControllerSyncError]"

definition SuccessfulConditionsTriggeringRetry :: "string list" where
  "SuccessfulConditionsTriggeringRetry = [ConditionReasonCreateSuccessful, ConditionReasonSecretUpToDate]"

definition AllowedStringsToDisplayConditionErrorMessage :: "string list" where
  "AllowedStringsToDisplayConditionErrorMessage = [''validatingadmissionpolicy'']"

lemmas reason_defs =
  ConditionReasonFailedProviderError_def ConditionReasonFailedInvalidLabelError_def
  ConditionReasonFailedInvalidAnnotationError_def ConditionReasonControllerSyncError_def
  ConditionReasonControllerPatchError_def ConditionReasonControllerSpcError_def
  ConditionReasonRemoteSecretStoreFetchFailed_def ConditionReasonSyncStarting_def
  ConditionReasonNoUpdateAttemptedYet_def ConditionReasonSecretUpToDate_def
  ConditionReasonCreateSuccessful_def

section \<open>Writing conditions\<close>

text \<open>
  \<open>Status_Update\<close> is \<^verbatim>\<open>Client.Status().Update\<close>: on success it overwrites the object with the one the
  server stored, on error it leaves it alone. \<open>SetStatusCondition\<close> reads the clock.
\<close>

record 'w status_env =
  SetStatusCondition :: "Condition list \<Rightarrow> Condition \<Rightarrow> 'w \<Rightarrow> Condition list \<times> 'w"
  Status_Update :: "SecretSync \<Rightarrow> 'w \<Rightarrow> (error + SecretSync) \<times> 'w"

definition new_condition :: "string \<Rightarrow> ConditionStatus \<Rightarrow> string \<Rightarrow> string \<Rightarrow> Condition" where
  "new_condition t st reason message = \<lparr>c_Type = t, c_Status = st, c_ObservedGeneration = 0,
     c_LastTransitionTime = zeroTime, c_Reason = reason, c_Message = message\<rparr>"

definition set_conditions :: "Condition list \<Rightarrow> SecretSync \<Rightarrow> SecretSync" where
  "set_conditions cs ss = ss\<lparr>ss_Status := (ss_Status ss)\<lparr>st_Conditions := cs\<rparr>\<rparr>"

definition set_condition :: "('w, 'z) status_env_scheme \<Rightarrow> SecretSync \<Rightarrow> Condition \<Rightarrow> ('p, 'w, SecretSync) meth" where
  "set_condition E ss c = do {
     cs \<leftarrow> ext (SetStatusCondition E (st_Conditions (ss_Status ss)) c);
     return (set_conditions cs ss)
   }"

definition update_status :: "('w, 'z) status_env_scheme \<Rightarrow> SecretSync \<Rightarrow> ('p, 'w, SecretSync \<times> error option) meth" where
  "update_status E ss = do {
     r \<leftarrow> ext_call (\<lambda>r. StatusUpdate ss (is_ok r)) (Status_Update E ss);
     return (case r of Inl err \<Rightarrow> (ss, Some err) | Inr ss' \<Rightarrow> (ss', None))
   }"

text \<open>The object is passed and returned, as the source mutates it through its pointer.\<close>

definition updateStatusConditions :: "('w, 'z) status_env_scheme \<Rightarrow> SecretSync \<Rightarrow> string \<Rightarrow> ConditionStatus
    \<Rightarrow> string \<Rightarrow> string \<Rightarrow> bool \<Rightarrow> ('p, 'w, SecretSync) meth" where
  "updateStatusConditions E ss conditionType conditionStatus conditionReason conditionMessage shouldUpdateStatus = do {
     ss' \<leftarrow> set_condition E ss (new_condition conditionType conditionStatus conditionReason conditionMessage);
     if \<not> shouldUpdateStatus then return ss'
     else do {
       (ss'', err) \<leftarrow> update_status E ss';
       return ss''
     }
   }"

definition initConditions :: "('w, 'z) status_env_scheme \<Rightarrow> SecretSync \<Rightarrow> ('p, 'w, SecretSync \<times> error option) meth" where
  "initConditions E ss = do {
     ss1 \<leftarrow> set_condition E ss (new_condition ConditionTypeCreate ConditionUnknown ConditionReasonSyncStarting []);
     ss2 \<leftarrow> set_condition E ss1 (new_condition ConditionTypeUpdate ConditionUnknown ConditionReasonNoUpdateAttemptedYet []);
     update_status E ss2
   }"

section \<open>What a writer leaves\<close>

text \<open>
  What \<^verbatim>\<open>meta.SetStatusCondition\<close> documents: afterwards there is a condition of the given type with
  the given status, reason and message, and the conditions of other types are as they were.
\<close>

definition condition_of :: "string \<Rightarrow> Condition list \<Rightarrow> Condition option" where
  "condition_of t cs = find (\<lambda>c. c_Type c = t) cs"

definition same_condition :: "Condition \<Rightarrow> Condition \<Rightarrow> bool" where
  "same_condition c d \<longleftrightarrow> c_Type c = c_Type d \<and> c_Status c = c_Status d \<and> c_Reason c = c_Reason d
     \<and> c_Message c = c_Message d"

definition unique_types :: "Condition list \<Rightarrow> bool" where
  "unique_types cs \<longleftrightarrow> distinct (map c_Type cs)"

definition sets_condition :: "('w, 'z) status_env_scheme \<Rightarrow> bool" where
  "sets_condition E \<longleftrightarrow> (\<forall>cs c w. unique_types cs \<longrightarrow>
     (let cs' = fst (SetStatusCondition E cs c w) in
      unique_types cs' \<and> (\<exists>d. condition_of (c_Type c) cs' = Some d \<and> same_condition c d)
      \<and> (\<forall>t. t \<noteq> c_Type c \<longrightarrow> condition_of t cs' = condition_of t cs)))"

text \<open>An implementation with that behaviour, for concrete runs.\<close>

fun demo_set :: "Condition list \<Rightarrow> Condition \<Rightarrow> Condition list" where
  "demo_set [] c = [c]"
| "demo_set (d # ds) c = (if c_Type d = c_Type c then c # ds else d # demo_set ds c)"

lemma condition_of_Cons [simp]:
  "condition_of t [] = None"
  "condition_of t (c # cs) = (if c_Type c = t then Some c else condition_of t cs)"
  by (simp_all add: condition_of_def)

lemma demo_set_types: "set (map c_Type (demo_set cs c)) = insert (c_Type c) (set (map c_Type cs))"
  by (induction cs) auto

lemma demo_sets:
  assumes "unique_types cs"
  shows "unique_types (demo_set cs c) \<and> (\<exists>d. condition_of (c_Type c) (demo_set cs c) = Some d \<and> same_condition c d)
     \<and> (\<forall>t. t \<noteq> c_Type c \<longrightarrow> condition_of t (demo_set cs c) = condition_of t cs)"
  using assms
proof (induction cs)
  case Nil
  then show ?case by (auto simp: unique_types_def same_condition_def)
next
  case (Cons d ds)
  show ?case
  proof (cases "c_Type d = c_Type c")
    case True
    with Cons.prems show ?thesis by (simp add: unique_types_def same_condition_def)
  next
    case False
    with Cons show ?thesis using demo_set_types [of ds c] by (auto simp: unique_types_def)
  qed
qed

definition demo_status :: "'w status_env" where
  "demo_status = \<lparr>SetStatusCondition = (\<lambda>cs c w. (demo_set cs c, w)), Status_Update = (\<lambda>ss w. (Inr ss, w))\<rparr>"

lemma demo_status_sets: "sets_condition demo_status"
  by (simp add: sets_condition_def demo_status_def demo_sets Let_def)

lemma set_conditions_simps [simp]:
  "ss_TypeMeta (set_conditions cs ss) = ss_TypeMeta ss" "ss_Meta (set_conditions cs ss) = ss_Meta ss"
  "ss_Spec (set_conditions cs ss) = ss_Spec ss" "st_Conditions (ss_Status (set_conditions cs ss)) = cs"
  "st_SyncHash (ss_Status (set_conditions cs ss)) = st_SyncHash (ss_Status ss)"
  "st_LastSuccessfulSyncTime (ss_Status (set_conditions cs ss)) = st_LastSuccessfulSyncTime (ss_Status ss)"
  by (simp_all add: set_conditions_def)

lemma run_set_condition:
  assumes "run_state (set_condition E ss c) (p, w) = (ss', (p', w'))"
  shows "p' = p \<and> trace w' = trace w \<and> (\<exists>cs. ss' = set_conditions cs ss)"
  using assms by (auto simp: set_condition_def run_simps)

lemma run_set_condition_sets:
  assumes "run_state (set_condition E ss c) (p, w) = (ss', (p', w'))"
    and "sets_condition E" "unique_types (st_Conditions (ss_Status ss))"
  shows "unique_types (st_Conditions (ss_Status ss'))
     \<and> (\<exists>d. condition_of (c_Type c) (st_Conditions (ss_Status ss')) = Some d \<and> same_condition c d)
     \<and> (\<forall>t. t \<noteq> c_Type c \<longrightarrow> condition_of t (st_Conditions (ss_Status ss')) = condition_of t (st_Conditions (ss_Status ss)))"
  using assms by (auto simp: set_condition_def run_simps sets_condition_def Let_def)

text \<open>A reason that makes the controller try again.\<close>

definition failed_reason :: "Condition \<Rightarrow> bool" where
  "failed_reason c \<longleftrightarrow> c_Reason c \<in> set FailedConditionsTriggeringRetry"

lemma failed_reason_new:
  "c_Reason c = ConditionReasonSecretUpToDate \<Longrightarrow> \<not> failed_reason c"
  "c_Reason c = ConditionReasonCreateSuccessful \<Longrightarrow> \<not> failed_reason c"
  "c_Reason c = ConditionReasonSyncStarting \<Longrightarrow> \<not> failed_reason c"
  "c_Reason c = ConditionReasonNoUpdateAttemptedYet \<Longrightarrow> \<not> failed_reason c"
  "c_Reason c = ConditionReasonControllerPatchError \<Longrightarrow> failed_reason c"
  "c_Reason c = ConditionReasonControllerSyncError \<Longrightarrow> failed_reason c"
  "c_Reason c = ConditionReasonControllerSpcError \<Longrightarrow> failed_reason c"
  "c_Reason c = ConditionReasonFailedProviderError \<Longrightarrow> failed_reason c"
  "c_Reason c = ConditionReasonRemoteSecretStoreFetchFailed \<Longrightarrow> failed_reason c"
  "c_Reason c = ConditionReasonFailedInvalidLabelError \<Longrightarrow> failed_reason c"
  "c_Reason c = ConditionReasonFailedInvalidAnnotationError \<Longrightarrow> failed_reason c"
  by (auto simp: failed_reason_def FailedConditionsTriggeringRetry_def reason_defs)

end
