(* ===== verification/StateHash.thy ===== *)
theory StateHash
  imports Encodings ApiTypes
begin

text \<open>
  \<^verbatim>\<open>computeCurrentStateHash\<close> of \<^verbatim>\<open>internal/controller/secretsync_controller.go\<close>: the hash that decides
  whether a secret has to be written again. PBKDF2 with SHA-512 is a parameter.
\<close>

type_synonym kdf = "string \<Rightarrow> string \<Rightarrow> nat \<Rightarrow> nat \<Rightarrow> string"

definition secret_part :: "bytes gomap \<Rightarrow> string" where
  "secret_part secretData = (let secretBytes = json_map json_bytes secretData in
     Itoa (int (length secretBytes)) @ '':'' @ secretBytes)"

definition toHash :: "SecretProviderClass \<Rightarrow> SecretSync \<Rightarrow> string" where
  "toHash spc ss = Join ''|'' [
     om_UID (spc_Meta spc),
     Itoa (sint (om_Generation (spc_Meta spc))),
     om_UID (ss_Meta ss),
     Itoa (sint (om_Generation (ss_Meta ss))),
     sp_ForceSynchronization (ss_Spec ss)]"

text \<open>Marshalling a map from strings to byte slices cannot fail, so there is no error to return.\<close>

definition computeCurrentStateHash :: "kdf \<Rightarrow> bytes gomap \<Rightarrow> SecretProviderClass \<Rightarrow> SecretSync \<Rightarrow> error + string" where
  "computeCurrentStateHash pbkdf2 secretData spc ss =
     (let salt = om_UID (ss_Meta ss);
          dk = pbkdf2 (secret_part secretData @ toHash spc ss) salt 100000 32 in
      Inr (''v1:'' @ hex_EncodeToString dk))"

section \<open>The hash identifies the state\<close>

definition uid_ok :: "string \<Rightarrow> bool" where
  "uid_ok u \<longleftrightarrow> list_all (\<lambda>c. c \<noteq> CHR ''|'') u"

lemma hex_byte_inj: "hex_byte a @ s = hex_byte b @ t \<Longrightarrow> a = b \<and> s = t"
proof -
  assume eq: "hex_byte a @ s = hex_byte b @ t"
  then have "hex_byte a = hex_byte b" "s = t" by (simp_all add: hex_byte_def)
  then have "(of_char a :: nat) = of_char b" by (metis hexval_byte)
  with \<open>s = t\<close> show ?thesis by simp
qed

lemma hex_EncodeToString_inj: "hex_EncodeToString s = hex_EncodeToString t \<Longrightarrow> s = t"
proof (induction s arbitrary: t)
  case Nil
  then show ?case by (cases t) (simp_all add: hex_EncodeToString_def hex_byte_def)
next
  case (Cons a s)
  then obtain b t' where t: "t = b # t'"
    by (cases t) (auto simp: hex_EncodeToString_def hex_byte_def)
  with Cons.prems have "hex_byte a @ hex_EncodeToString s = hex_byte b @ hex_EncodeToString t'"
    by (simp add: hex_EncodeToString_def)
  from hex_byte_inj [OF this] Cons.IH t show ?case by blast
qed

lemma secret_part_split:
  assumes "fm_all (\<lambda>k _. valid_utf8 k) m" "fm_all (\<lambda>k _. valid_utf8 k) n"
    and "secret_part m @ r = secret_part n @ s"
  shows "m = n \<and> r = s"
proof -
  let ?a = "json_map json_bytes m" and ?b = "json_map json_bytes n"
  have "Itoa (int (length ?a)) @ CHR '':'' # ?a @ r = Itoa (int (length ?b)) @ CHR '':'' # ?b @ s"
    using assms(3) by (simp add: secret_part_def Let_def)
  from Itoa_split [OF _ _ this] have "?a @ r = ?b @ s" by (simp add: decimal_char_def)
  with json_b.object.split [of m n r s] assms(1,2) show ?thesis by simp
qed

lemma toHash_inj:
  assumes "uid_ok (om_UID (spc_Meta spc))" "uid_ok (om_UID (spc_Meta spc'))"
    and "uid_ok (om_UID (ss_Meta ss))" "uid_ok (om_UID (ss_Meta ss'))"
    and "toHash spc ss = toHash spc' ss'"
  shows "om_UID (spc_Meta spc) = om_UID (spc_Meta spc')
     \<and> om_Generation (spc_Meta spc) = om_Generation (spc_Meta spc')
     \<and> om_UID (ss_Meta ss) = om_UID (ss_Meta ss')
     \<and> om_Generation (ss_Meta ss) = om_Generation (ss_Meta ss')
     \<and> sp_ForceSynchronization (ss_Spec ss) = sp_ForceSynchronization (ss_Spec ss')"
proof -
  have bar: "\<not> decimal_char CHR ''|''" by (simp add: decimal_char_def)
  have eq: "om_UID (spc_Meta spc) @ CHR ''|'' # Itoa (sint (om_Generation (spc_Meta spc))) @ CHR ''|'' #
       om_UID (ss_Meta ss) @ CHR ''|'' # Itoa (sint (om_Generation (ss_Meta ss))) @ CHR ''|'' #
       sp_ForceSynchronization (ss_Spec ss)
     = om_UID (spc_Meta spc') @ CHR ''|'' # Itoa (sint (om_Generation (spc_Meta spc'))) @ CHR ''|'' #
       om_UID (ss_Meta ss') @ CHR ''|'' # Itoa (sint (om_Generation (ss_Meta ss'))) @ CHR ''|'' #
       sp_ForceSynchronization (ss_Spec ss')"
    using assms(5) by (simp add: toHash_def)
  note 1 = delim_split [OF assms(1,2) [unfolded uid_ok_def] _ _ eq, simplified]
  note 2 = Itoa_split [OF bar bar conjunct2 [OF 1]]
  from 2 have eq2: "om_UID (ss_Meta ss) @ CHR ''|'' # Itoa (sint (om_Generation (ss_Meta ss))) @ CHR ''|'' #
       sp_ForceSynchronization (ss_Spec ss)
     = om_UID (ss_Meta ss') @ CHR ''|'' # Itoa (sint (om_Generation (ss_Meta ss'))) @ CHR ''|'' #
       sp_ForceSynchronization (ss_Spec ss')" by simp
  note 3 = delim_split [OF assms(3,4) [unfolded uid_ok_def] _ _ eq2, simplified]
  note 4 = Itoa_split [OF bar bar conjunct2 [OF 3]]
  from 1 2 3 4 show ?thesis by (auto intro: signed_word_eqI)
qed

text \<open>What goes into PBKDF2: the password and the salt, and the key that is derived from them.\<close>

definition hash_input :: "bytes gomap \<Rightarrow> SecretProviderClass \<Rightarrow> SecretSync \<Rightarrow> string \<times> string" where
  "hash_input data spc ss = (secret_part data @ toHash spc ss, om_UID (ss_Meta ss))"

definition derived_key :: "kdf \<Rightarrow> string \<times> string \<Rightarrow> string" where
  "derived_key pbkdf2 = (\<lambda>(password, salt). pbkdf2 password salt 100000 32)"

lemma computeCurrentStateHash_input:
  "computeCurrentStateHash pbkdf2 data spc ss = Inr (''v1:'' @ hex_EncodeToString (derived_key pbkdf2 (hash_input data spc ss)))"
  by (simp add: computeCurrentStateHash_def hash_input_def derived_key_def Let_def)

lemma equal_hashes:
  "computeCurrentStateHash pbkdf2 data spc ss = computeCurrentStateHash pbkdf2 data' spc' ss'
     \<longleftrightarrow> derived_key pbkdf2 (hash_input data spc ss) = derived_key pbkdf2 (hash_input data' spc' ss')"
  by (auto simp: computeCurrentStateHash_input dest: hex_EncodeToString_inj)

lemma equal_inputs:
  assumes "uid_ok (om_UID (spc_Meta spc))" "uid_ok (om_UID (spc_Meta spc'))"
    and "uid_ok (om_UID (ss_Meta ss))" "uid_ok (om_UID (ss_Meta ss'))"
    and "fm_all (\<lambda>k _. valid_utf8 k) data" "fm_all (\<lambda>k _. valid_utf8 k) data'"
  shows "hash_input data spc ss = hash_input data' spc' ss' \<longleftrightarrow> data = data'
       \<and> om_UID (spc_Meta spc) = om_UID (spc_Meta spc')
       \<and> om_Generation (spc_Meta spc) = om_Generation (spc_Meta spc')
       \<and> om_UID (ss_Meta ss) = om_UID (ss_Meta ss')
       \<and> om_Generation (ss_Meta ss) = om_Generation (ss_Meta ss')
       \<and> sp_ForceSynchronization (ss_Spec ss) = sp_ForceSynchronization (ss_Spec ss')" (is "?inputs \<longleftrightarrow> ?states")
proof
  assume ?inputs
  then have "secret_part data @ toHash spc ss = secret_part data' @ toHash spc' ss'" by (simp add: hash_input_def)
  from secret_part_split [OF assms(5,6) this] toHash_inj [OF assms(1-4)] show ?states by blast
next
  assume ?states
  then show ?inputs by (simp add: hash_input_def toHash_def)
qed

text \<open>
  C18: The hash identifies the state as far as PBKDF2 does. Two states have the same hash exactly when
  PBKDF2 derives the same key for their two inputs (password and salt), and these inputs are the same
  exactly when the states agree on the secret data, on the UID and the generation of the
  SecretProviderClass and of the SecretSync and on forceSynchronization: the serialization that is hashed
  is unambiguous and complete. UIDs contain no vertical bar and the keys of a secret are valid UTF-8.
\<close>

theorem computeCurrentStateHash_identifies:
  assumes "uid_ok (om_UID (spc_Meta spc))" "uid_ok (om_UID (spc_Meta spc'))"
    and "uid_ok (om_UID (ss_Meta ss))" "uid_ok (om_UID (ss_Meta ss'))"
    and "fm_all (\<lambda>k _. valid_utf8 k) data" "fm_all (\<lambda>k _. valid_utf8 k) data'"
  shows "(computeCurrentStateHash pbkdf2 data spc ss = computeCurrentStateHash pbkdf2 data' spc' ss'
       \<longleftrightarrow> derived_key pbkdf2 (hash_input data spc ss) = derived_key pbkdf2 (hash_input data' spc' ss'))
     \<and> (hash_input data spc ss = hash_input data' spc' ss' \<longleftrightarrow> data = data'
       \<and> om_UID (spc_Meta spc) = om_UID (spc_Meta spc')
       \<and> om_Generation (spc_Meta spc) = om_Generation (spc_Meta spc')
       \<and> om_UID (ss_Meta ss) = om_UID (ss_Meta ss')
       \<and> om_Generation (ss_Meta ss) = om_Generation (ss_Meta ss')
       \<and> sp_ForceSynchronization (ss_Spec ss) = sp_ForceSynchronization (ss_Spec ss'))"
  using equal_hashes equal_inputs [OF assms] by blast

section \<open>A small cluster\<close>

definition demo_meta :: "string \<Rightarrow> string \<Rightarrow> ObjectMeta" where
  "demo_meta name uid = \<lparr>om_Name = name, om_Namespace = ''ns'', om_UID = uid, om_Generation = 1,
     om_ResourceVersion = ''7'', om_Labels = None, om_Annotations = None, om_OwnerReferences = []\<rparr>"

definition demo_spc :: SecretProviderClass where
  "demo_spc = \<lparr>spc_Meta = demo_meta ''spc'' ''u1'', spc_Provider = ''a'', spc_Parameters = Some fmempty\<rparr>"

definition demo_status0 :: SecretSyncStatus where
  "demo_status0 = \<lparr>st_SyncHash = [], st_LastSuccessfulSyncTime = None, st_Conditions = []\<rparr>"

definition demo_ss :: "SecretSyncStatus \<Rightarrow> SecretSync" where
  "demo_ss st = \<lparr>ss_TypeMeta = \<lparr>tm_Kind = ''SecretSync'', tm_APIVersion = ''v1alpha1''\<rparr>,
     ss_Meta = demo_meta ''s'' ''u2'',
     ss_Spec = \<lparr>sp_SecretSyncControllerName = [], sp_SecretProviderClassName = ''spc'', sp_ServiceAccountName = ''sa'',
       sp_SecretObject = \<lparr>so_Type = ''Opaque'', so_Data = [], so_Labels = None, so_Annotations = None\<rparr>,
       sp_ForceSynchronization = []\<rparr>,
     ss_Status = st\<rparr>"

text \<open>A key derivation with keys of the requested length, which depend on password and salt.\<close>

definition demo_kdf :: kdf where
  "demo_kdf pw salt i n = take n (pw @ salt @ replicate n (CHR 0x00))"

lemma demo_kdf_length: "length (demo_kdf pw salt i n) = n"
  by (simp add: demo_kdf_def)

lemma demo_digits:
  "secret_part (fmempty :: bytes gomap) = ''2:{}''" "Itoa 1 = ''1''" "Itoa 2 = ''2''"
  by code_simp+

lemma demo_toHash:
  "toHash demo_spc (demo_ss st) = ''u1|1|u2|1|''"
  "toHash demo_spc (demo_ss st \<lparr>ss_Meta := (ss_Meta (demo_ss st))\<lparr>om_Generation := 2\<rparr>\<rparr>) = ''u1|1|u2|2|''"
  by (simp_all add: toHash_def demo_spc_def demo_meta_def demo_ss_def demo_digits)

text \<open>Two generations of one object.\<close>

theorem computeCurrentStateHash_identifies_witness:
  "let ss = demo_ss demo_status0; ss' = ss\<lparr>ss_Meta := (ss_Meta ss)\<lparr>om_Generation := 2\<rparr>\<rparr> in
     hash_input fmempty demo_spc ss \<noteq> hash_input fmempty demo_spc ss'
     \<and> computeCurrentStateHash demo_kdf fmempty demo_spc ss \<noteq> computeCurrentStateHash demo_kdf fmempty demo_spc ss'
     \<and> length (derived_key demo_kdf (hash_input fmempty demo_spc ss)) = 32"
proof -
  let ?ss = "demo_ss demo_status0"
  let ?ss' = "?ss\<lparr>ss_Meta := (ss_Meta ?ss)\<lparr>om_Generation := 2\<rparr>\<rparr>"
  have spc: "uid_ok (om_UID (spc_Meta demo_spc))" by code_simp
  have ss: "uid_ok (om_UID (ss_Meta ?ss))" "uid_ok (om_UID (ss_Meta ?ss'))" by code_simp+
  have d: "fm_all (\<lambda>k _. valid_utf8 k) (fmempty :: bytes gomap)" by (simp add: fm_all_iff)
  have keys: "derived_key demo_kdf (hash_input fmempty demo_spc ?ss) \<noteq> derived_key demo_kdf (hash_input fmempty demo_spc ?ss')"
    by (simp add: derived_key_def hash_input_def demo_digits demo_toHash demo_kdf_def)
  have gens: "om_Generation (ss_Meta ?ss) \<noteq> om_Generation (ss_Meta ?ss')" by (simp add: demo_ss_def demo_meta_def)
  have len: "length (derived_key demo_kdf (hash_input fmempty demo_spc ?ss)) = 32" by (simp add: derived_key_def demo_kdf_length split_beta)
  from computeCurrentStateHash_identifies [OF spc spc ss d d, of demo_kdf] keys gens len show ?thesis unfolding Let_def by blast
qed

lemma computeCurrentStateHash_nonempty:
  "computeCurrentStateHash pbkdf2 data spc ss = Inr h \<Longrightarrow> h \<noteq> []"
  by (auto simp: computeCurrentStateHash_def Let_def)

text \<open>The hash does not depend on the status, on the resource version or on labels of the objects.\<close>

lemma computeCurrentStateHash_cong:
  assumes "om_UID (ss_Meta ss) = om_UID (ss_Meta ss')" "om_Generation (ss_Meta ss) = om_Generation (ss_Meta ss')"
    and "sp_ForceSynchronization (ss_Spec ss) = sp_ForceSynchronization (ss_Spec ss')"
  shows "computeCurrentStateHash pbkdf2 data spc ss = computeCurrentStateHash pbkdf2 data spc ss'"
  using assms by (simp add: computeCurrentStateHash_def toHash_def)

end
