(* ===== verification/Reconciler.thy ===== *)
theory Reconciler
  imports SecretUtil Concurrency Conditions StateHash
begin

text \<open>
  \<^verbatim>\<open>internal/controller/secretsync_controller.go\<close>: one Reconcile of a SecretSync, from reading the
  object to writing the Secret and the status. The API server and the libraries are parameters, the
  record \<open>controller_env\<close>.
\<close>

section \<open>State and environment\<close>

record SecretSyncReconciler =
  rc_Audiences :: "string list"
  rc_TokenCache :: Manager
  rc_ProviderClients :: PluginClientBuilder

record 'w controller_env = "'w status_env" +
  Client_GetSecretSync :: "NamespacedName \<Rightarrow> 'w \<Rightarrow> (error + SecretSync) \<times> 'w"
  Client_GetSecretProviderClass :: "NamespacedName \<Rightarrow> 'w \<Rightarrow> (error + SecretProviderClass) \<times> 'w"
  Secrets_Patch :: "string \<Rightarrow> string \<Rightarrow> string \<Rightarrow> string \<Rightarrow> 'w \<Rightarrow> error option \<times> 'w"
  Marshal_Secret :: "Secret \<Rightarrow> error + string"
  Getenv :: "string \<Rightarrow> string"
  pbkdf2_Key :: kdf
  tokenEnv :: "'w token_env"
  providerEnv :: "'w provider_env"
  cryptoLib :: crypto

definition csiPodName :: string where "csiPodName = ''csi.storage.k8s.io/pod.name''"
definition csiPodNamespace :: string where "csiPodNamespace = ''csi.storage.k8s.io/pod.namespace''"
definition csiPodUID :: string where "csiPodUID = ''csi.storage.k8s.io/pod.uid''"
definition csiPodServiceAccountName :: string where
  "csiPodServiceAccountName = ''csi.storage.k8s.io/serviceAccount.name''"
definition csiPodServiceAccountTokens :: string where
  "csiPodServiceAccountTokens = ''csi.storage.k8s.io/serviceAccount.tokens''"
definition controllerLabelKey :: string where "controllerLabelKey = ''secrets-store.sync.x-k8s.io''"
definition controllerAnnotationKey :: string where "controllerAnnotationKey = ''secrets-store.sync.x-k8s.io''"
definition secretSyncControllerFieldManager :: string where
  "secretSyncControllerFieldManager = ''secrets-store-sync-controller''"
definition syncControllerPodName :: string where "syncControllerPodName = ''SYNC_CONTROLLER_POD_NAME''"
definition syncControllerPodUID :: string where "syncControllerPodUID = ''SYNC_CONTROLLER_POD_UID''"

section \<open>Validation\<close>

text \<open>Reading a nil map finds nothing.\<close>

definition nil_lookup :: "'v gomap option \<Rightarrow> string \<Rightarrow> 'v option" where
  "nil_lookup m k = (case m of None \<Rightarrow> None | Some m \<Rightarrow> fmlookup m k)"

definition errReservedLabel :: error where
  "errReservedLabel = ErrorString (''label '' @ controllerLabelKey @ '' is reserved for use by the Secrets Store Sync Controller'')"

definition errReservedAnnotation :: error where
  "errReservedAnnotation = ErrorString (''annotation '' @ controllerAnnotationKey @ '' is reserved for use by the Secrets Store Sync Controller'')"

definition validateLabelsAnnotations :: "SecretObject \<Rightarrow> (string \<times> error) option" where
  "validateLabelsAnnotations secretObj =
     (if (case nil_lookup (so_Labels secretObj) controllerLabelKey of None \<Rightarrow> False | Some val \<Rightarrow> val \<noteq> [])
      then Some (ConditionReasonFailedInvalidLabelError, errReservedLabel)
      else if nil_lookup (so_Annotations secretObj) controllerAnnotationKey \<noteq> None
      then Some (ConditionReasonFailedInvalidAnnotationError, errReservedAnnotation)
      else None)"

section \<open>Fetching from the provider\<close>

text \<open>Writing to a nil map panics.\<close>

definition map_assign :: "string \<Rightarrow> 'v \<Rightarrow> 'v gomap option \<Rightarrow> 'v gomap go" where
  "map_assign k v m = (case m of None \<Rightarrow> Panic ''assignment to entry in nil map'' | Some m \<Rightarrow> Ret (fmupd k v m))"

definition provider_parameters :: "('w, 'z) controller_env_scheme \<Rightarrow> SecretProviderClass \<Rightarrow> string \<Rightarrow> string
    \<Rightarrow> string gomap option \<Rightarrow> string gomap go" where
  "provider_parameters E spc namespace saName attrs =
     (case map_assign csiPodName (Getenv E syncControllerPodName) (spc_Parameters spc) of
        Panic s \<Rightarrow> Panic s
      | Diverges \<Rightarrow> Diverges
      | Ret parameters \<Rightarrow>
          (let parameters = fmupd csiPodUID (Getenv E syncControllerPodUID) parameters;
               parameters = fmupd csiPodNamespace namespace parameters;
               parameters = fmupd csiPodServiceAccountName saName parameters in
           Ret (case attrs of None \<Rightarrow> parameters | Some a \<Rightarrow> parameters ++\<^sub>f a)))"

text \<open>The error carries the reason of the condition. Marshalling a map of strings cannot fail.\<close>

definition prepareCSIProviderParams :: "('w, 'z) controller_env_scheme \<Rightarrow> SecretProviderClass \<Rightarrow> string \<Rightarrow> string
    \<Rightarrow> (SecretSyncReconciler, 'w, (string \<times> error + string) go) meth" where
  "prepareCSIProviderParams E spc namespace saName = do {
     r \<leftarrow> self;
     attrs \<leftarrow> zoom rc_TokenCache (\<lambda>m r. r\<lparr>rc_TokenCache := m\<rparr>)
       (SecretProviderServiceAccountTokenAttrs (tokenEnv E) namespace saName (rc_Audiences r));
     return (case attrs of
         Inl err \<Rightarrow> Ret (Inl (ConditionReasonControllerSyncError, err))
       | Inr serviceAccountTokenAttrs \<Rightarrow>
           (case provider_parameters E spc namespace saName serviceAccountTokenAttrs of
              Panic s \<Rightarrow> Panic s
            | Diverges \<Rightarrow> Diverges
            | Ret parameters \<Rightarrow> Ret (Inr (json_map json_string parameters))))
   }"

definition build_data :: "('w, 'z) controller_env_scheme \<Rightarrow> SecretSync \<Rightarrow> bytes gomap
    \<Rightarrow> (string \<times> error + bytes gomap) go" where
  "build_data E ss files =
     (let secretObj = sp_SecretObject (ss_Spec ss) in
      case BuildKubeSecretData (cryptoLib E) (so_Data secretObj) (so_Type secretObj) files of
        Panic s \<Rightarrow> Panic s
      | Diverges \<Rightarrow> Diverges
      | Ret (datamap, None) \<Rightarrow> Ret (Inr datamap)
      | Ret (datamap, Some err) \<Rightarrow> Ret (Inl (ConditionReasonRemoteSecretStoreFetchFailed, err)))"

definition fetchSecretsFromProvider :: "('w, 'z) controller_env_scheme \<Rightarrow> SecretProviderClass \<Rightarrow> SecretSync
    \<Rightarrow> (SecretSyncReconciler, 'w, (string \<times> error + bytes gomap) go) meth" where
  "fetchSecretsFromProvider E spc ss = do {
     pc \<leftarrow> zoom rc_ProviderClients (\<lambda>p r. r\<lparr>rc_ProviderClients := p\<rparr>) (Get (providerEnv E) (spc_Provider spc));
     case pc of
       Inl err \<Rightarrow> return (Ret (Inl (ConditionReasonControllerSpcError, err)))
     | Inr providerClient \<Rightarrow> do {
         ps \<leftarrow> prepareCSIProviderParams E spc (om_Namespace (ss_Meta ss)) (sp_ServiceAccountName (ss_Spec ss));
         case ps of
           Panic s \<Rightarrow> return (Panic s)
         | Diverges \<Rightarrow> return Diverges
         | Ret (Inl re) \<Rightarrow> return (Ret (Inl re))
         | Ret (Inr paramsJSON) \<Rightarrow> do {
             mounted \<leftarrow> MountContent (providerEnv E) providerClient paramsJSON (json_map json_string fmempty) [];
             case mounted of
               Inl err \<Rightarrow> return (Ret (Inl (ConditionReasonFailedProviderError, err)))
             | Inr (versions, files) \<Rightarrow> return (build_data E ss files)
           }
       }
   }"

section \<open>Writing the secret\<close>

definition secretPatchData :: "SecretSync \<Rightarrow> bytes gomap \<Rightarrow> Secret" where
  "secretPatchData ss datamap = (let secretObj = sp_SecretObject (ss_Spec ss) in \<lparr>
     sec_TypeMeta = \<lparr>tm_Kind = ''Secret'', tm_APIVersion = ''v1''\<rparr>,
     sec_Meta = \<lparr>om_Name = om_Name (ss_Meta ss), om_Namespace = om_Namespace (ss_Meta ss), om_UID = [],
       om_Generation = 0, om_ResourceVersion = [],
       om_Labels = Some (fmupd controllerLabelKey [] (case so_Labels secretObj of None \<Rightarrow> fmempty | Some m \<Rightarrow> m)),
       om_Annotations = so_Annotations secretObj,
       om_OwnerReferences = [\<lparr>or_APIVersion = tm_APIVersion (ss_TypeMeta ss), or_Kind = tm_Kind (ss_TypeMeta ss),
         or_Name = om_Name (ss_Meta ss), or_UID = om_UID (ss_Meta ss)\<rparr>]\<rparr>,
     sec_Data = datamap,
     sec_Type = so_Type secretObj\<rparr>)"

definition serverSidePatchSecret :: "('w, 'z) controller_env_scheme \<Rightarrow> SecretSync \<Rightarrow> bytes gomap
    \<Rightarrow> ('p, 'w, error option) meth" where
  "serverSidePatchSecret E ss datamap =
     (let secret = secretPatchData ss datamap; namespace = om_Namespace (sec_Meta secret); name = om_Name (sec_Meta secret) in
      case Marshal_Secret E secret of
        Inl err \<Rightarrow> return (Some err)
      | Inr patchData \<Rightarrow> ext_call (\<lambda>err. PatchSecret namespace name secretSyncControllerFieldManager patchData (err = None))
          (Secrets_Patch E namespace name patchData secretSyncControllerFieldManager))"

section \<open>Reconcile\<close>

definition set_sync :: "string \<Rightarrow> time option \<Rightarrow> SecretSync \<Rightarrow> SecretSync" where
  "set_sync h t ss = ss\<lparr>ss_Status := (ss_Status ss)\<lparr>st_SyncHash := h, st_LastSuccessfulSyncTime := t\<rparr>\<rparr>"

definition failedCondition :: "SecretSync \<Rightarrow> Condition option" where
  "failedCondition ss = find (\<lambda>c. c_Reason c \<in> set FailedConditionsTriggeringRetry) (st_Conditions (ss_Status ss))"

definition errText :: "(nat \<Rightarrow> bool) \<Rightarrow> string \<Rightarrow> string \<Rightarrow> error \<Rightarrow> string" where
  "errText pr what name err = what @ '' '' @ Quote pr name @ '': '' @ Error err"

definition mark_synced :: "('w, 'z) status_env_scheme \<Rightarrow> SecretSync \<Rightarrow> string \<Rightarrow> bool \<Rightarrow> ('p, 'w, SecretSync) meth" where
  "mark_synced E ss conditionType hashChanged =
     (if conditionType = ConditionTypeCreate then do {
        s \<leftarrow> updateStatusConditions E ss conditionType ConditionTrue ConditionReasonCreateSuccessful ConditionMessageCreateSuccessful False;
        updateStatusConditions E s ConditionTypeUpdate ConditionTrue ConditionReasonSecretUpToDate ConditionMessageUpdateSuccessful False
      }
      else if hashChanged then
        updateStatusConditions E ss conditionType ConditionTrue ConditionReasonSecretUpToDate ConditionMessageUpdateSuccessful False
      else return ss)"

text \<open>
  The tail of Reconcile from the point where the data is known: hash, decision, conditions, patch,
  roll-back or status update.
\<close>

definition write_back :: "('w, 'z) controller_env_scheme \<Rightarrow> SecretSync \<Rightarrow> string \<Rightarrow> string \<Rightarrow> bytes gomap
    \<Rightarrow> ('p, 'w, error option) meth" where
  "write_back E ss conditionType syncHash datamap = (let hashChanged = (syncHash \<noteq> st_SyncHash (ss_Status ss)) in
     if failedCondition ss = None \<and> \<not> hashChanged then return None
     else do {
       ss1 \<leftarrow> mark_synced E ss conditionType hashChanged;
       now \<leftarrow> ext (Now (tokenEnv E));
       (let prevSecretHash = st_SyncHash (ss_Status ss1);
            prevTime = st_LastSuccessfulSyncTime (ss_Status ss1);
            ss2 = set_sync syncHash (Some now) ss1 in do {
         patchErr \<leftarrow> serverSidePatchSecret E ss2 datamap;
         case patchErr of
           Some err \<Rightarrow> do {
             updateStatusConditions E (set_sync prevSecretHash prevTime ss2) conditionType ConditionFalse
               ConditionReasonControllerPatchError
               (errText (isPrint (tokenEnv E)) ''failed to patch secret'' (om_Name (ss_Meta ss2)) err) True;
             return (Some err)
           }
         | None \<Rightarrow> do {
             (ss3, err) \<leftarrow> update_status E ss2;
             return err
           }
       })
     })"

text \<open>The part of Reconcile after the conditions exist.\<close>

definition reconcile_synced :: "('w, 'z) controller_env_scheme \<Rightarrow> NamespacedName \<Rightarrow> SecretSync \<Rightarrow> string
    \<Rightarrow> (SecretSyncReconciler, 'w, error option go) meth" where
  "reconcile_synced E req ss conditionType =
     (case validateLabelsAnnotations (sp_SecretObject (ss_Spec ss)) of
        Some (reason, err) \<Rightarrow> do {
          updateStatusConditions E ss conditionType ConditionFalse reason (Error err) True;
          return (Ret (Some err))
        }
      | None \<Rightarrow>
          (let key = \<lparr>nn_Namespace = nn_Namespace req, nn_Name = sp_SecretProviderClassName (ss_Spec ss)\<rparr> in do {
            got \<leftarrow> ext_call (\<lambda>_. GetSecretProviderClass key) (Client_GetSecretProviderClass E key);
            case got of
              Inl err \<Rightarrow> do {
                updateStatusConditions E ss conditionType ConditionFalse ConditionReasonControllerSpcError
                  (errText (isPrint (tokenEnv E)) ''failed to get SecretProviderClass'' (sp_SecretProviderClassName (ss_Spec ss)) err) True;
                return (Ret (Some err))
              }
            | Inr spc \<Rightarrow> do {
                fetched \<leftarrow> fetchSecretsFromProvider E spc ss;
                case fetched of
                  Panic s \<Rightarrow> return (Panic s)
                | Diverges \<Rightarrow> return Diverges
                | Ret (Inl (reason, err)) \<Rightarrow> do {
                    updateStatusConditions E ss conditionType ConditionFalse reason
                      (''fetching secrets from the provider failed: '' @ Error err) True;
                    return (Ret (Some err))
                  }
                | Ret (Inr datamap) \<Rightarrow>
                    (case computeCurrentStateHash (pbkdf2_Key E) datamap spc ss of
                       Inl err \<Rightarrow> do {
                         updateStatusConditions E ss conditionType ConditionFalse ConditionReasonControllerSyncError
                           ''failed to compute state hash'' True;
                         return (Ret (Some err))
                       }
                     | Inr syncHash \<Rightarrow> do {
                         err \<leftarrow> write_back E ss conditionType syncHash datamap;
                         return (Ret err)
                       })
              }
          }))"

definition condition_type :: "SecretSync \<Rightarrow> string" where
  "condition_type ss = (if st_SyncHash (ss_Status ss) = [] then ConditionTypeCreate else ConditionTypeUpdate)"

definition Reconcile :: "('w, 'z) controller_env_scheme \<Rightarrow> NamespacedName
    \<Rightarrow> (SecretSyncReconciler, 'w, error option go) meth" where
  "Reconcile E req = do {
     got \<leftarrow> ext_call (\<lambda>_. GetSecretSync req) (Client_GetSecretSync E req);
     case got of
       Inl err \<Rightarrow> return (Ret (Some err))
     | Inr ss \<Rightarrow>
         (let conditionType = condition_type ss in
          if length (st_Conditions (ss_Status ss)) < 2 then do {
            (ss', err) \<leftarrow> initConditions E ss;
            case err of
              Some e \<Rightarrow> return (Ret (Some e))
            | None \<Rightarrow> reconcile_synced E req ss' conditionType
          } else reconcile_synced E req ss conditionType)
   }"

section \<open>Effects\<close>

lemma quiet_prepareCSIProviderParams: "quiet (prepareCSIProviderParams E spc namespace sa)"
  unfolding prepareCSIProviderParams_def by (intro emits_intros quiet_TokenAttrs)

lemma quiet_fetchSecretsFromProvider: "quiet (fetchSecretsFromProvider E spc ss)"
  unfolding fetchSecretsFromProvider_def
  by (intro emits_intros quiet_Get quiet_prepareCSIProviderParams quiet_MountContent)

section \<open>Conditions written\<close>

definition cond_set :: "string \<Rightarrow> ConditionStatus \<Rightarrow> string \<Rightarrow> Condition list \<Rightarrow> Condition list \<Rightarrow> bool" where
  "cond_set t st reason cs cs' \<longleftrightarrow> unique_types cs'
     \<and> (\<exists>d. condition_of t cs' = Some d \<and> c_Status d = st \<and> c_Reason d = reason)
     \<and> (\<forall>u. u \<noteq> t \<longrightarrow> condition_of u cs' = condition_of u cs)"

abbreviation conds :: "SecretSync \<Rightarrow> Condition list" where
  "conds ss \<equiv> st_Conditions (ss_Status ss)"

text \<open>The object has at most one condition of each type, and conditions are set as documented.\<close>

definition good :: "('w, 'z) status_env_scheme \<Rightarrow> SecretSync \<Rightarrow> bool" where
  "good E ss \<longleftrightarrow> sets_condition E \<and> unique_types (conds ss)"

lemma set_conditions_twice [simp]: "set_conditions cs (set_conditions cs' ss) = set_conditions cs ss"
  by (simp add: set_conditions_def)

lemma set_conditions_same [simp]: "set_conditions (conds ss) ss = ss"
  by (simp add: set_conditions_def)

lemma run_mark:
  assumes "run_state (updateStatusConditions E ss t st reason msg False) (p, w) = (ss', (p', w'))"
  shows "p' = p \<and> trace w' = trace w
     \<and> (\<exists>cs. ss' = set_conditions cs ss \<and> (good E ss \<longrightarrow> cond_set t st reason (conds ss) cs))"
proof -
  from assms have r: "run_state (set_condition E ss (new_condition t st reason msg)) (p, w) = (ss', (p', w'))"
    by (simp add: updateStatusConditions_def)
  from run_set_condition [OF r] obtain cs where "p' = p" "trace w' = trace w" and cs: "ss' = set_conditions cs ss" by blast
  moreover have "cond_set t st reason (conds ss) cs" if "good E ss"
    using run_set_condition_sets [OF r] that
    by (auto simp: good_def cs cond_set_def same_condition_def new_condition_def)
  ultimately show ?thesis by blast
qed

lemma run_report:
  assumes "run_state (updateStatusConditions E ss t st reason msg True) (p, w) = (ss', (p', w'))"
  shows "p' = p \<and> (\<exists>cs ok. trace w' = trace w @ [StatusUpdate (set_conditions cs ss) ok]
     \<and> (good E ss \<longrightarrow> cond_set t st reason (conds ss) cs))"
proof -
  obtain s1 p1 w1 where r: "run_state (set_condition E ss (new_condition t st reason msg)) (p, w) = (s1, (p1, w1))"
    by (rule run_obtain)
  then have m: "run_state (updateStatusConditions E ss t st reason msg False) (p, w) = (s1, (p1, w1))"
    by (simp add: updateStatusConditions_def)
  from run_mark [OF m] r assms show ?thesis
    by (auto simp: updateStatusConditions_def update_status_def run_simps split: prod.splits)
qed

section \<open>The write protocol\<close>

definition marked :: "string \<Rightarrow> bool \<Rightarrow> Condition list \<Rightarrow> Condition list \<Rightarrow> bool" where
  "marked ct changed cs cs' \<longleftrightarrow>
     (if ct = ConditionTypeCreate
      then \<exists>c. cond_set ConditionTypeCreate ConditionTrue ConditionReasonCreateSuccessful cs c
        \<and> cond_set ConditionTypeUpdate ConditionTrue ConditionReasonSecretUpToDate c cs'
      else if changed then cond_set ct ConditionTrue ConditionReasonSecretUpToDate cs cs'
      else cs' = cs)"

definition patch_call :: "SecretSync \<Rightarrow> string \<Rightarrow> bool \<Rightarrow> call" where
  "patch_call ss data ok = PatchSecret (om_Namespace (ss_Meta ss)) (om_Name (ss_Meta ss))
     secretSyncControllerFieldManager data ok"

text \<open>
  The writes of the tail of Reconcile: none when nothing changed and nothing failed; a patch and then
  a status update with the new hash; or, when the patch cannot be made or is refused, a status update
  with the old hash and time and a failed condition.
\<close>

definition wrote_back :: "('w, 'z) controller_env_scheme \<Rightarrow> SecretSync \<Rightarrow> string \<Rightarrow> string \<Rightarrow> bytes gomap
    \<Rightarrow> error option \<Rightarrow> call list \<Rightarrow> bool" where
  "wrote_back E ss ct h datamap err ws \<longleftrightarrow>
     (if failedCondition ss = None \<and> h = st_SyncHash (ss_Status ss) then ws = [] \<and> err = None
      else \<exists>cs1. (good E ss \<longrightarrow> marked ct (h \<noteq> st_SyncHash (ss_Status ss)) (conds ss) cs1) \<and>
        ((\<exists>data now ok. Marshal_Secret E (secretPatchData ss datamap) = Inr data \<and> (err = None \<longleftrightarrow> ok)
            \<and> ws = [patch_call ss data True, StatusUpdate (set_sync h (Some now) (set_conditions cs1 ss)) ok])
         \<or> (\<exists>e cs2 ok pre. err = Some e
            \<and> (good E ss \<longrightarrow> cond_set ct ConditionFalse ConditionReasonControllerPatchError cs1 cs2)
            \<and> ws = pre @ [StatusUpdate (set_conditions cs2 ss) ok]
            \<and> (pre = [] \<and> Marshal_Secret E (secretPatchData ss datamap) = Inl e
               \<or> (\<exists>data. Marshal_Secret E (secretPatchData ss datamap) = Inr data \<and> pre = [patch_call ss data False])))))"

lemma secretPatchData_status [simp]:
  "secretPatchData (set_sync h t ss) d = secretPatchData ss d"
  "secretPatchData (set_conditions cs ss) d = secretPatchData ss d"
  by (simp_all add: secretPatchData_def set_sync_def)

lemma patch_call_status [simp]:
  "patch_call (set_sync h t ss) d ok = patch_call ss d ok"
  "patch_call (set_conditions cs ss) d ok = patch_call ss d ok"
  by (simp_all add: patch_call_def set_sync_def)

lemma set_sync_undo:
  "set_sync (st_SyncHash (ss_Status ss)) (st_LastSuccessfulSyncTime (ss_Status ss)) (set_sync h t ss) = ss"
  by (simp add: set_sync_def)

lemma good_marked:
  assumes "good E ss" "marked ct changed (conds ss) cs"
  shows "good E (set_conditions cs ss)"
  using assms by (auto simp: good_def marked_def cond_set_def split: if_splits)

lemma run_serverSidePatchSecret:
  assumes "run_state (serverSidePatchSecret E ss datamap) (p, w) = (err, (p', w'))"
  shows "p' = p \<and> (case Marshal_Secret E (secretPatchData ss datamap) of
      Inl e \<Rightarrow> err = Some e \<and> w' = w
    | Inr data \<Rightarrow> trace w' = trace w @ [patch_call ss data (err = None)])"
  using assms
  by (auto simp: serverSidePatchSecret_def Let_def run_simps patch_call_def secretPatchData_def split: sum.splits)

lemma run_mark_synced:
  assumes "run_state (mark_synced E ss ct changed) (p, w) = (ss1, (p1, w1))"
  shows "p1 = p \<and> trace w1 = trace w
     \<and> (\<exists>cs1. ss1 = set_conditions cs1 ss \<and> (good E ss \<longrightarrow> marked ct changed (conds ss) cs1))"
proof (cases "ct = ConditionTypeCreate")
  case True
  obtain s2 p2 w2 where 2: "run_state (updateStatusConditions E ss ct ConditionTrue ConditionReasonCreateSuccessful
      ConditionMessageCreateSuccessful False) (p, w) = (s2, (p2, w2))" by (rule run_obtain)
  with assms True have 3: "run_state (updateStatusConditions E s2 ConditionTypeUpdate ConditionTrue
      ConditionReasonSecretUpToDate ConditionMessageUpdateSuccessful False) (p2, w2) = (ss1, (p1, w1))" by (simp add: mark_synced_def)
  from run_mark [OF 2] obtain cs where cs: "p2 = p" "trace w2 = trace w" "s2 = set_conditions cs ss"
    "good E ss \<longrightarrow> cond_set ct ConditionTrue ConditionReasonCreateSuccessful (conds ss) cs" by blast
  from run_mark [OF 3] obtain cs' where cs': "p1 = p2" "trace w1 = trace w2" "ss1 = set_conditions cs' s2"
    "good E s2 \<longrightarrow> cond_set ConditionTypeUpdate ConditionTrue ConditionReasonSecretUpToDate (conds s2) cs'" by blast
  have "good E s2" if "good E ss" using that cs by (auto simp: good_def cond_set_def)
  with cs cs' True show ?thesis by (auto simp: marked_def)
next
  case False
  show ?thesis
  proof (cases changed)
    case True
    with False assms have "run_state (updateStatusConditions E ss ct ConditionTrue ConditionReasonSecretUpToDate
        ConditionMessageUpdateSuccessful False) (p, w) = (ss1, (p1, w1))" by (simp add: mark_synced_def)
    from run_mark [OF this] False True show ?thesis by (auto simp: marked_def)
  next
    case unch: False
    with False assms show ?thesis by (auto simp: mark_synced_def marked_def intro: exI [of _ "conds ss"])
  qed
qed

lemma run_write_back:
  assumes run: "run_state (write_back E ss ct h datamap) (p, w) = (err, (p', w'))"
  shows "p' = p \<and> (\<exists>ws. trace w' = trace w @ ws \<and> wrote_back E ss ct h datamap err ws)"
proof (cases "failedCondition ss = None \<and> h = st_SyncHash (ss_Status ss)")
  case True
  with run show ?thesis by (simp add: write_back_def wrote_back_def)
next
  case False
  obtain ss1 p1 w1 where 1: "run_state (mark_synced E ss ct (h \<noteq> st_SyncHash (ss_Status ss))) (p, w) = (ss1, (p1, w1))"
    by (rule run_obtain)
  from run_mark_synced [OF 1] obtain cs1 where m: "p1 = p" "trace w1 = trace w"
    "ss1 = set_conditions cs1 ss" "good E ss \<longrightarrow> marked ct (h \<noteq> st_SyncHash (ss_Status ss)) (conds ss) cs1" by blast
  obtain now e1 where now: "Now (tokenEnv E) (env_state w1) = (now, e1)" by fastforce
  let ?w1 = "w1\<lparr>env_state := e1\<rparr>" and ?ss2 = "set_sync h (Some now) ss1"
  obtain perr p2 w2 where 2: "run_state (serverSidePatchSecret E ?ss2 datamap) (p, ?w1) = (perr, (p2, w2))"
    by (rule run_obtain)
  note patch = run_serverSidePatchSecret [OF 2]
  show ?thesis
  proof (cases perr)
    case (Some e)
    let ?t = "updateStatusConditions E ss1 ct ConditionFalse ConditionReasonControllerPatchError
      (errText (isPrint (tokenEnv E)) ''failed to patch secret'' (om_Name (ss_Meta ss)) e) True"
    obtain ss3 p3 w3 where 3: "run_state ?t (p2, w2) = (ss3, (p3, w3))" by (rule run_obtain)
    from run_report [OF 3] m obtain cs2 ok where r: "p3 = p2" "trace w3 = trace w2 @ [StatusUpdate (set_conditions cs2 ss) ok]"
      "good E ss \<longrightarrow> cond_set ct ConditionFalse ConditionReasonControllerPatchError cs1 cs2"
      using good_marked [of E ss ct _ cs1] by auto
    have fin: "err = Some e" "p' = p3" "w' = w3"
      using run False 1 2 3 Some now m
      by (simp_all add: write_back_def run_simps Let_def set_sync_undo)
        (simp_all add: set_sync_def)
    show ?thesis
    proof (cases "Marshal_Secret E (secretPatchData ss datamap)")
      case (Inl e')
      with patch m Some have "p2 = p" "w2 = ?w1" "e' = e" by auto
      with fin r m Inl False show ?thesis
        by (intro conjI exI [of _ "[] @ [StatusUpdate (set_conditions cs2 ss) ok]"])
          (auto simp: wrote_back_def)
    next
      case (Inr data)
      with patch m Some have "p2 = p" "trace w2 = trace w @ [patch_call ss data False]" by auto
      with fin r m Inr False show ?thesis
        by (intro conjI exI [of _ "[patch_call ss data False] @ [StatusUpdate (set_conditions cs2 ss) ok]"])
          (auto simp: wrote_back_def)
    qed
  next
    case None
    with patch m obtain data where data: "Marshal_Secret E (secretPatchData ss datamap) = Inr data"
      and t2: "p2 = p" "trace w2 = trace w @ [patch_call ss data True]"
      by (auto split: sum.splits)
    obtain a e where a: "Status_Update E ?ss2 (env_state w2) = (a, e)" by fastforce
    have fin: "err = (case a of Inl x \<Rightarrow> Some x | Inr _ \<Rightarrow> None)" "p' = p2"
      "trace w' = trace w2 @ [StatusUpdate ?ss2 (is_ok a)]"
      using run False 1 2 None now m(1) a
      by (auto simp: write_back_def run_simps Let_def update_status_def split: sum.splits)
    with t2 data m False show ?thesis
      by (intro conjI exI [of _ "[patch_call ss data True, StatusUpdate ?ss2 (is_ok a)]"])
        (auto simp: wrote_back_def split: sum.splits)
  qed
qed

section \<open>Specification of Reconcile\<close>

definition failed_write :: "('w, 'z) status_env_scheme \<Rightarrow> SecretSync \<Rightarrow> string \<Rightarrow> string \<Rightarrow> SecretSync \<Rightarrow> bool" where
  "failed_write E ss ct reason s \<longleftrightarrow> (\<exists>cs. s = set_conditions cs ss
     \<and> (good E ss \<longrightarrow> cond_set ct ConditionFalse reason (conds ss) cs))"

definition spc_key :: "NamespacedName \<Rightarrow> SecretSync \<Rightarrow> NamespacedName" where
  "spc_key req ss = \<lparr>nn_Namespace = nn_Namespace req, nn_Name = sp_SecretProviderClassName (ss_Spec ss)\<rparr>"

definition fetch_reasons :: "string list" where
  "fetch_reasons = [ConditionReasonControllerSpcError, ConditionReasonControllerSyncError,
     ConditionReasonFailedProviderError, ConditionReasonRemoteSecretStoreFetchFailed]"

text \<open>
  What a Reconcile may do once the object and its conditions are known, by result and calls: the
  abstract behaviour that the composed handler refines.
\<close>

inductive sync_spec :: "('w, 'z) controller_env_scheme \<Rightarrow> NamespacedName \<Rightarrow> SecretSync \<Rightarrow> string
    \<Rightarrow> error option go \<Rightarrow> call list \<Rightarrow> bool" for E req ss ct where
  invalid: "validateLabelsAnnotations (sp_SecretObject (ss_Spec ss)) = Some (reason, err)
    \<Longrightarrow> failed_write E ss ct reason s
    \<Longrightarrow> sync_spec E req ss ct (Ret (Some err)) [StatusUpdate s ok]"
| no_spc: "validateLabelsAnnotations (sp_SecretObject (ss_Spec ss)) = None
    \<Longrightarrow> failed_write E ss ct ConditionReasonControllerSpcError s
    \<Longrightarrow> sync_spec E req ss ct (Ret (Some err)) [GetSecretProviderClass (spc_key req ss), StatusUpdate s ok]"
| crash: "validateLabelsAnnotations (sp_SecretObject (ss_Spec ss)) = None
    \<Longrightarrow> list_all (\<lambda>c. \<not> is_write c) qs \<Longrightarrow> r = Diverges \<or> r = Panic m
    \<Longrightarrow> sync_spec E req ss ct r (GetSecretProviderClass (spc_key req ss) # qs)"
| no_data: "validateLabelsAnnotations (sp_SecretObject (ss_Spec ss)) = None
    \<Longrightarrow> list_all (\<lambda>c. \<not> is_write c) qs \<Longrightarrow> reason \<in> set fetch_reasons \<Longrightarrow> failed_write E ss ct reason s
    \<Longrightarrow> sync_spec E req ss ct (Ret (Some err)) (GetSecretProviderClass (spc_key req ss) # qs @ [StatusUpdate s ok])"
| written: "validateLabelsAnnotations (sp_SecretObject (ss_Spec ss)) = None
    \<Longrightarrow> list_all (\<lambda>c. \<not> is_write c) qs \<Longrightarrow> build_data E ss files = Ret (Inr datamap)
    \<Longrightarrow> computeCurrentStateHash (pbkdf2_Key E) datamap spc ss = Inr h
    \<Longrightarrow> wrote_back E ss ct h datamap err ws
    \<Longrightarrow> fst (Client_GetSecretProviderClass E (spc_key req ss) v) = Inr spc
    \<Longrightarrow> sync_spec E req ss ct (Ret err) (GetSecretProviderClass (spc_key req ss) # qs @ ws)"

definition fetch_ok :: "('w, 'z) controller_env_scheme \<Rightarrow> SecretSync \<Rightarrow> (string \<times> error + bytes gomap) go \<Rightarrow> bool" where
  "fetch_ok E ss r \<longleftrightarrow> (case r of
      Ret (Inl (reason, err)) \<Rightarrow> reason \<in> set fetch_reasons
    | Ret (Inr datamap) \<Rightarrow> \<exists>files. build_data E ss files = Ret (Inr datamap)
    | _ \<Rightarrow> True)"

lemma build_data_reason:
  "build_data E ss files = Ret (Inl (reason, err)) \<Longrightarrow> reason = ConditionReasonRemoteSecretStoreFetchFailed"
  by (auto simp: build_data_def Let_def split: go.splits option.splits)

lemma fetch_ok_build: "fetch_ok E ss (build_data E ss files)"
  by (auto simp: fetch_ok_def fetch_reasons_def dest: build_data_reason split: go.splits sum.splits)

lemma yields_prepare:
  "yields (\<lambda>r. case r of Ret (Inl (reason, err)) \<Rightarrow> reason = ConditionReasonControllerSyncError | _ \<Rightarrow> True)
     (prepareCSIProviderParams E spc namespace sa)"
  unfolding prepareCSIProviderParams_def
  by (intro yields_intros) (auto split: sum.splits go.splits)

lemma yields_fetch: "yields (fetch_ok E ss) (fetchSecretsFromProvider E spc ss)"
  unfolding fetchSecretsFromProvider_def
  by (intro yields_intros yields_bind_with [OF yields_prepare])
    (auto simp: fetch_ok_build, auto simp: fetch_ok_def fetch_reasons_def)

lemma run_reconcile_synced:
  assumes run: "run_state (reconcile_synced E req ss ct) (p, w) = (r, (p', w'))"
  shows "\<exists>calls. trace w' = trace w @ calls \<and> sync_spec E req ss ct r calls"
proof (cases "validateLabelsAnnotations (sp_SecretObject (ss_Spec ss))")
  case (Some re)
  then obtain reason err where re: "validateLabelsAnnotations (sp_SecretObject (ss_Spec ss)) = Some (reason, err)"
    by (cases re) auto
  obtain s1 p1 w1 where 1: "run_state (updateStatusConditions E ss ct ConditionFalse reason (Error err) True) (p, w) = (s1, (p1, w1))"
    by (rule run_obtain)
  from run_report [OF 1] obtain cs ok where "trace w1 = trace w @ [StatusUpdate (set_conditions cs ss) ok]"
    "failed_write E ss ct reason (set_conditions cs ss)" by (auto simp: failed_write_def)
  with sync_spec.invalid [OF re] 1 re run show ?thesis by (auto simp: reconcile_synced_def)
next
  case valid: None
  let ?key = "spc_key req ss"
  obtain g e where g: "Client_GetSecretProviderClass E ?key (env_state w) = (g, e)" by fastforce
  let ?w = "w\<lparr>env_state := e, trace := trace w @ [GetSecretProviderClass ?key]\<rparr>"
  note defs = reconcile_synced_def valid Let_def run_simps spc_key_def [symmetric]
  show ?thesis
  proof (cases g)
    case (Inl err)
    obtain s1 p1 w1 where 1: "run_state (updateStatusConditions E ss ct ConditionFalse ConditionReasonControllerSpcError
       (errText (isPrint (tokenEnv E)) ''failed to get SecretProviderClass'' (sp_SecretProviderClassName (ss_Spec ss)) err) True)
       (p, ?w) = (s1, (p1, w1))" by (rule run_obtain)
    from run_report [OF 1] obtain cs ok where
      "trace w1 = trace w @ [GetSecretProviderClass ?key, StatusUpdate (set_conditions cs ss) ok]"
      "failed_write E ss ct ConditionReasonControllerSpcError (set_conditions cs ss)" by (auto simp: failed_write_def)
    with sync_spec.no_spc [OF valid] 1 Inl g run show ?thesis by (auto simp: defs)
  next
    case (Inr spc)
    obtain f p1 w1 where f: "run_state (fetchSecretsFromProvider E spc ss) (p, ?w) = (f, (p1, w1))"
      by (rule run_obtain)
    from emitsD [OF quiet_fetchSecretsFromProvider f] obtain qs where
      qs: "trace w1 = trace w @ GetSecretProviderClass ?key # qs" "list_all (\<lambda>c. \<not> is_write c) qs" by auto
    note fok = yieldsD [OF yields_fetch f]
    consider (crash) m where "f = Diverges \<or> f = Panic m" | (fail) reason err where "f = Ret (Inl (reason, err))"
      | (data) datamap where "f = Ret (Inr datamap)"
      by (metis go.exhaust sumE surj_pair)
    then show ?thesis
    proof cases
      case crash
      with f g Inr run have "(r = Diverges \<or> r = Panic m) \<and> w' = w1" by (auto simp: defs)
      with sync_spec.crash [OF valid qs(2), where r = r and m = m and E = E and req = req and ct = ct] qs
      show ?thesis by auto
    next
      case fail
      obtain s2 p2 w2 where 2: "run_state (updateStatusConditions E ss ct ConditionFalse reason
          (''fetching secrets from the provider failed: '' @ Error err) True) (p1, w1) = (s2, (p2, w2))" by (rule run_obtain)
      from run_report [OF 2] obtain cs ok where "trace w2 = trace w1 @ [StatusUpdate (set_conditions cs ss) ok]"
        "failed_write E ss ct reason (set_conditions cs ss)" by (auto simp: failed_write_def)
      with sync_spec.no_data [OF valid qs(2)] fail fok f g Inr run qs 2 show ?thesis
        by (auto simp: defs fetch_ok_def)
    next
      case data
      with fok obtain files where files: "build_data E ss files = Ret (Inr datamap)" by (auto simp: fetch_ok_def)
      obtain h where h: "computeCurrentStateHash (pbkdf2_Key E) datamap spc ss = Inr h"
        by (simp add: computeCurrentStateHash_def Let_def)
      obtain err p2 w2 where 2: "run_state (write_back E ss ct h datamap) (p1, w1) = (err, (p2, w2))" by (rule run_obtain)
      from run_write_back [OF 2] obtain ws where ws: "trace w2 = trace w1 @ ws" "wrote_back E ss ct h datamap err ws" by blast
      have "r = Ret err" "w' = w2" using data f g Inr run h 2 by (auto simp: defs)
      moreover have "fst (Client_GetSecretProviderClass E ?key (env_state w)) = Inr spc" using g Inr by simp
      ultimately show ?thesis using sync_spec.written [OF valid qs(2) files h ws(2)] ws qs by auto
    qed
  qed
qed

definition initialised :: "Condition list \<Rightarrow> Condition list \<Rightarrow> bool" where
  "initialised cs cs' \<longleftrightarrow> (\<exists>c. cond_set ConditionTypeCreate ConditionUnknown ConditionReasonSyncStarting cs c
     \<and> cond_set ConditionTypeUpdate ConditionUnknown ConditionReasonNoUpdateAttemptedYet c cs')"

inductive reconcile_spec :: "('w, 'z) controller_env_scheme \<Rightarrow> NamespacedName \<Rightarrow> error + SecretSync
    \<Rightarrow> error option go \<Rightarrow> call list \<Rightarrow> bool" for E req where
  unreadable: "reconcile_spec E req (Inl err) (Ret (Some err)) [GetSecretSync req]"
| init_failed: "length (conds ss) < 2 \<Longrightarrow> (good E ss \<longrightarrow> initialised (conds ss) cs)
    \<Longrightarrow> reconcile_spec E req (Inr ss) (Ret (Some err)) [GetSecretSync req, StatusUpdate (set_conditions cs ss) False]"
| inited: "length (conds ss) < 2 \<Longrightarrow> fst (Status_Update E (set_conditions cs ss) v) = Inr ss'
    \<Longrightarrow> sync_spec E req ss' (condition_type ss) r calls
    \<Longrightarrow> (good E ss \<longrightarrow> initialised (conds ss) cs)
    \<Longrightarrow> reconcile_spec E req (Inr ss) r (GetSecretSync req # StatusUpdate (set_conditions cs ss) True # calls)"
| ready: "2 \<le> length (conds ss) \<Longrightarrow> sync_spec E req ss (condition_type ss) r calls
    \<Longrightarrow> reconcile_spec E req (Inr ss) r (GetSecretSync req # calls)"

lemma run_marks:
  "run_state (set_condition E ss (new_condition t st reason msg)) (p, w) = r
   \<Longrightarrow> run_state (updateStatusConditions E ss t st reason msg False) (p, w) = r"
  by (simp add: updateStatusConditions_def)

lemma run_initConditions:
  assumes "run_state (initConditions E ss) (p, w) = ((ss', err), (p', w'))"
  shows "p' = p \<and> (\<exists>cs. (good E ss \<longrightarrow> initialised (conds ss) cs) \<and> (case err of
      Some e \<Rightarrow> trace w' = trace w @ [StatusUpdate (set_conditions cs ss) False]
    | None \<Rightarrow> trace w' = trace w @ [StatusUpdate (set_conditions cs ss) True]
        \<and> (\<exists>v. fst (Status_Update E (set_conditions cs ss) v) = Inr ss')))"
proof -
  let ?c1 = "new_condition ConditionTypeCreate ConditionUnknown ConditionReasonSyncStarting []"
  let ?c2 = "new_condition ConditionTypeUpdate ConditionUnknown ConditionReasonNoUpdateAttemptedYet []"
  obtain s1 p1 w1 where 1: "run_state (set_condition E ss ?c1) (p, w) = (s1, (p1, w1))" by (rule run_obtain)
  obtain s2 p2 w2 where 2: "run_state (set_condition E s1 ?c2) (p1, w1) = (s2, (p2, w2))" by (rule run_obtain)
  from run_mark [OF run_marks [OF 1]] obtain c where c: "p1 = p" "trace w1 = trace w" "s1 = set_conditions c ss"
    "good E ss \<longrightarrow> cond_set ConditionTypeCreate ConditionUnknown ConditionReasonSyncStarting (conds ss) c" by blast
  from run_mark [OF run_marks [OF 2]] c obtain cs where cs: "p2 = p" "trace w2 = trace w" "s2 = set_conditions cs ss"
    and cs2: "good E s1 \<longrightarrow> cond_set ConditionTypeUpdate ConditionUnknown ConditionReasonNoUpdateAttemptedYet c cs" by auto
  have "good E s1" if "good E ss" using that c by (auto simp: good_def cond_set_def)
  with c(4) cs2 have u: "initialised (conds ss) cs" if "good E ss" using that by (auto simp: initialised_def)
  obtain a e where a: "Status_Update E s2 (env_state w2) = (a, e)" by fastforce
  with assms 1 2 cs have "(case a of Inl x \<Rightarrow> (s2, Some x) | Inr s \<Rightarrow> (s, None)) = (ss', err)" "p' = p"
    "trace w' = trace w @ [StatusUpdate s2 (is_ok a)]"
    by (auto simp: initConditions_def update_status_def run_simps)
  with a cs u show ?thesis
    by (intro conjI exI [of _ cs]) (auto split: sum.splits option.splits intro: exI [of _ "env_state w2"])
qed

lemma run_Reconcile:
  assumes "run_state (Reconcile E req) (p, w) = (r, (p', w'))"
  shows "\<exists>calls. trace w' = trace w @ calls
     \<and> reconcile_spec E req (fst (Client_GetSecretSync E req (env_state w))) r calls"
proof -
  obtain g e where g: "Client_GetSecretSync E req (env_state w) = (g, e)" by fastforce
  let ?w = "w\<lparr>env_state := e, trace := trace w @ [GetSecretSync req]\<rparr>"
  note defs = Reconcile_def run_simps Let_def
  show ?thesis
  proof (cases g)
    case (Inl err)
    with g assms show ?thesis by (auto simp: defs intro: reconcile_spec.intros)
  next
    case (Inr ss)
    show ?thesis
    proof (cases "length (conds ss) < 2")
      case True
      obtain se p1 w1 where i: "run_state (initConditions E ss) (p, ?w) = (se, (p1, w1))" by (rule run_obtain)
      obtain ss' err where se: "se = (ss', err)" by fastforce
      from run_initConditions [OF i [unfolded se]] obtain cs where cs: "p1 = p" "good E ss \<longrightarrow> initialised (conds ss) cs"
        "case err of
          Some e \<Rightarrow> trace w1 = trace ?w @ [StatusUpdate (set_conditions cs ss) False]
        | None \<Rightarrow> trace w1 = trace ?w @ [StatusUpdate (set_conditions cs ss) True]
            \<and> (\<exists>v. fst (Status_Update E (set_conditions cs ss) v) = Inr ss')"
        by blast
      show ?thesis
      proof (cases err)
        case (Some er)
        with g Inr True i se cs assms show ?thesis
          by (auto simp: defs intro: reconcile_spec.init_failed)
      next
        case None
        with g Inr True i se cs assms have "run_state (reconcile_synced E req ss' (condition_type ss)) (p, w1) = (r, (p', w'))"
          by (simp add: defs)
        from run_reconcile_synced [OF this] None cs g Inr True show ?thesis
          by (auto intro: reconcile_spec.inited)
      qed
    next
      case False
      with g Inr assms have "run_state (reconcile_synced E req ss (condition_type ss)) (p, ?w) = (r, (p', w'))"
        by (simp add: defs)
      from run_reconcile_synced [OF this] g Inr False show ?thesis
        by (auto simp: not_less intro: reconcile_spec.ready)
    qed
  qed
qed

end
