(* ===== verification/SyncProtocol.thy ===== *)
theory SyncProtocol
  imports Reconciler
begin

text \<open>
  The properties of a Reconcile, derived from the specification \<open>reconcile_spec\<close> that theory Reconciler
  shows it to refine: the order in which the Secret and the status are written, what is rolled back,
  when nothing is written, what converges, how errors are recorded, and what the provider and the
  cluster are told. Witnesses run the whole Reconcile on one concrete cluster, \<open>demo_env\<close>.
\<close>

section \<open>The order of writes\<close>

text \<open>What \<^verbatim>\<open>Status().Update\<close> documents: the object it returns has the status that was sent.\<close>

definition status_echo :: "('w, 'z) status_env_scheme \<Rightarrow> bool" where
  "status_echo E \<longleftrightarrow> (\<forall>s w s'. fst (Status_Update E s w) = Inr s' \<longrightarrow> ss_Status s' = ss_Status s)"

text \<open>It is the object that was sent, but for the resource version, which is new.\<close>

definition stored_as :: "SecretSync \<Rightarrow> SecretSync \<Rightarrow> bool" where
  "stored_as s s' \<longleftrightarrow> (\<exists>rv. s' = s\<lparr>ss_Meta := (ss_Meta s)\<lparr>om_ResourceVersion := rv\<rparr>\<rparr>)"

definition status_stores :: "('w, 'z) status_env_scheme \<Rightarrow> bool" where
  "status_stores E \<longleftrightarrow> (\<forall>s w s'. fst (Status_Update E s w) = Inr s' \<longrightarrow> stored_as s s')"

lemma stored_as_refl: "stored_as s s"
  unfolding stored_as_def by (rule exI [of _ "om_ResourceVersion (ss_Meta s)"]) simp

lemma stored_as_fields:
  assumes "stored_as s s'"
  shows "ss_Status s' = ss_Status s" "ss_Spec s' = ss_Spec s" "om_Name (ss_Meta s') = om_Name (ss_Meta s)"
    "om_Namespace (ss_Meta s') = om_Namespace (ss_Meta s)" "om_UID (ss_Meta s') = om_UID (ss_Meta s)"
    "om_Generation (ss_Meta s') = om_Generation (ss_Meta s)"
  using assms by (auto simp: stored_as_def)

lemma status_stores_echo: "status_stores E \<Longrightarrow> status_echo E"
  by (auto simp: status_stores_def status_echo_def dest: stored_as_fields(1))

definition is_patch :: "call \<Rightarrow> bool" where
  "is_patch c = (case c of PatchSecret _ _ _ _ _ \<Rightarrow> True | _ \<Rightarrow> False)"

lemma is_write_simps [simp]:
  "is_write (StatusUpdate s ok)" "is_write (PatchSecret a b c d e)" "\<not> is_write (GetSecretSync n)"
  "\<not> is_write (GetSecretProviderClass n)" "is_write (patch_call ss data ok)"
  by (simp_all add: is_write_def patch_call_def)

lemma is_patch_simps [simp]:
  "\<not> is_patch (StatusUpdate s ok)" "is_patch (PatchSecret a b c d e)" "is_patch (patch_call ss data ok)"
  "\<not> is_patch (GetSecretSync n)" "\<not> is_patch (GetSecretProviderClass n)"
  by (simp_all add: is_patch_def patch_call_def)

lemma quiet_no_patch: "\<not> is_write c \<Longrightarrow> \<not> is_patch c"
  by (simp add: is_write_def is_patch_def split: call.splits)

text \<open>The secret that goes with a hash: the marshalled secret of a data map that the hash was computed from.\<close>

definition secret_of_hash :: "('w, 'z) controller_env_scheme \<Rightarrow> SecretSync \<Rightarrow> string \<Rightarrow> string \<Rightarrow> bool" where
  "secret_of_hash E ss h data \<longleftrightarrow> (\<exists>files datamap spc.
     build_data E ss files = Ret (Inr datamap)
     \<and> computeCurrentStateHash (pbkdf2_Key E) datamap spc ss = Inr h
     \<and> Marshal_Secret E (secretPatchData ss datamap) = Inr data)"

text \<open>A status write of the object \<open>ss\<close> keeps its hash and time, or follows a successful patch of the secret it vouches for.\<close>

definition backed :: "('w, 'z) controller_env_scheme \<Rightarrow> SecretSync \<Rightarrow> call list \<Rightarrow> SecretSync \<Rightarrow> bool" where
  "backed E ss pre s \<longleftrightarrow>
     st_SyncHash (ss_Status s) = st_SyncHash (ss_Status ss)
       \<and> st_LastSuccessfulSyncTime (ss_Status s) = st_LastSuccessfulSyncTime (ss_Status ss)
     \<or> (\<exists>pre' data. pre = pre' @ [patch_call ss data True]
          \<and> secret_of_hash E ss (st_SyncHash (ss_Status s)) data)"

lemma split_at_write:
  assumes "qs @ ws = pre @ c # post" "list_all (\<lambda>c. \<not> is_write c) qs" "is_write c"
  shows "\<exists>pre'. pre = qs @ pre' \<and> ws = pre' @ c # post"
proof (cases "length qs \<le> length pre")
  case True
  with assms(1) have "qs = take (length qs) pre" "ws = drop (length qs) pre @ c # post"
    by (simp_all add: append_eq_append_conv_if)
  then show ?thesis by (metis append_take_drop_id)
next
  case False
  with assms(1) have "qs ! length pre = c" by (metis not_le nth_append nth_append_length)
  with False assms(2) have "\<not> is_write c"
    by (metis list_all_length not_le)
  with assms(3) show ?thesis by simp
qed

lemma wrote_back_cases [consumes 1, case_names none patched failed]:
  assumes "wrote_back E ss ct h datamap err ws"
  obtains "failedCondition ss = None" "h = st_SyncHash (ss_Status ss)" "ws = []" "err = None"
  | cs1 data now ok where "failedCondition ss \<noteq> None \<or> h \<noteq> st_SyncHash (ss_Status ss)"
      "good E ss \<longrightarrow> marked ct (h \<noteq> st_SyncHash (ss_Status ss)) (conds ss) cs1"
      "Marshal_Secret E (secretPatchData ss datamap) = Inr data" "err = None \<longleftrightarrow> ok"
      "ws = [patch_call ss data True, StatusUpdate (set_sync h (Some now) (set_conditions cs1 ss)) ok]"
  | cs1 cs2 e pre ok where "failedCondition ss \<noteq> None \<or> h \<noteq> st_SyncHash (ss_Status ss)"
      "good E ss \<longrightarrow> marked ct (h \<noteq> st_SyncHash (ss_Status ss)) (conds ss) cs1"
      "good E ss \<longrightarrow> cond_set ct ConditionFalse ConditionReasonControllerPatchError cs1 cs2"
      "err = Some e" "ws = pre @ [StatusUpdate (set_conditions cs2 ss) ok]"
      "pre = [] \<and> Marshal_Secret E (secretPatchData ss datamap) = Inl e
       \<or> (\<exists>data. Marshal_Secret E (secretPatchData ss datamap) = Inr data \<and> pre = [patch_call ss data False])"
proof (cases "failedCondition ss = None \<and> h = st_SyncHash (ss_Status ss)")
  case True
  with assms that(1) show ?thesis by (simp add: wrote_back_def)
next
  case False
  then have F: "failedCondition ss \<noteq> None \<or> h \<noteq> st_SyncHash (ss_Status ss)" by simp
  show ?thesis
    using assms unfolding wrote_back_def if_not_P [OF False]
    by (elim exE conjE disjE) (rule that(2) [OF F], assumption+, (rule that(3) [OF F], assumption+, blast)+)
qed

lemma patch_not_status [simp]: "patch_call ss data ok \<noteq> StatusUpdate s k" "StatusUpdate s k \<noteq> patch_call ss data ok"
  by (simp_all add: patch_call_def)

lemma wrote_back_backed:
  assumes "wrote_back E ss ct h datamap err ws" "ws = pre @ StatusUpdate s ok # post"
    and "build_data E ss files = Ret (Inr datamap)" "computeCurrentStateHash (pbkdf2_Key E) datamap spc ss = Inr h"
  shows "backed E ss pre s"
proof -
  from assms(1,2) consider
      cs where "s = set_conditions cs ss"
    | data now cs where "Marshal_Secret E (secretPatchData ss datamap) = Inr data"
        "s = set_sync h (Some now) (set_conditions cs ss)" "pre = [patch_call ss data True]"
    by (cases rule: wrote_back_cases) (auto simp: Cons_eq_append_conv append_eq_Cons_conv)
  then show ?thesis
  proof cases
    case 1
    then show ?thesis by (simp add: backed_def)
  next
    case 2
    with assms(3,4) have "secret_of_hash E ss (st_SyncHash (ss_Status s)) data"
      by (auto simp: secret_of_hash_def set_sync_def)
    with 2 show ?thesis unfolding backed_def by auto
  qed
qed

lemma backed_more: "backed E ss pre s \<Longrightarrow> backed E ss (qs @ pre) s"
  by (auto simp: backed_def)

lemma sync_spec_backed:
  assumes "sync_spec E req ss ct r calls" "calls = pre @ StatusUpdate s ok # post"
  shows "backed E ss pre s"
  using assms
proof (induction arbitrary: pre rule: sync_spec.induct)
  case (crash qs r m)
  have "list_all (\<lambda>c. \<not> is_write c) (GetSecretProviderClass (spc_key req ss) # qs)" using crash.hyps(2) by simp
  then show ?case unfolding crash.prems by simp
next
  case (no_data qs reason s' err ok')
  then show ?case using split_at_write [of "GetSecretProviderClass (spc_key req ss) # qs" "[StatusUpdate s' ok']" pre "StatusUpdate s ok" post]
    by (auto simp: failed_write_def backed_def Cons_eq_append_conv)
next
  case (written qs files datamap spc h err ws)
  let ?qs = "GetSecretProviderClass (spc_key req ss) # qs"
  from split_at_write [of ?qs ws pre "StatusUpdate s ok" post] written.prems written.hyps obtain pre' where
    "pre = ?qs @ pre'" "ws = pre' @ StatusUpdate s ok # post" by auto
  with wrote_back_backed [OF written.hyps(5)] written.hyps(3,4) show ?case using backed_more by blast
qed (auto simp: failed_write_def backed_def Cons_eq_append_conv)

text \<open>
  C7: The status never runs ahead of the secret. In every run of Reconcile, each status write keeps
  the sync hash and the time of the last successful sync of the object that was read, or the call
  right before it was a successful patch that wrote the very secret the new hash was computed from
  (on a server that stores the status it is sent).
\<close>

theorem Reconcile_status_backed:
  assumes "run_state (Reconcile E req) (p, w) = (r, (p', w'))" and "status_echo E"
    and "fst (Client_GetSecretSync E req (env_state w)) = Inr ss"
    and "trace w' = trace w @ pre @ StatusUpdate s ok # post"
  shows "\<exists>ss' cs. ss_Status ss' = (ss_Status ss)\<lparr>st_Conditions := cs\<rparr> \<and> backed E ss' pre s"
proof -
  have same: "\<exists>ss' cs. ss_Status ss' = (ss_Status ss)\<lparr>st_Conditions := cs\<rparr> \<and> backed E ss' pre s" if "backed E ss pre s"
    using that by (intro exI [of _ ss] exI [of _ "conds ss"]) simp
  from run_Reconcile [OF assms(1)] assms(3,4) have "reconcile_spec E req (Inr ss) r (pre @ StatusUpdate s ok # post)" by auto
  then show ?thesis
  proof cases
    case (init_failed err cs)
    then have "backed E ss pre s" by (auto simp: backed_def Cons_eq_append_conv append_eq_Cons_conv)
    then show ?thesis by (rule same)
  next
    case (inited cs v ss' calls)
    from inited(1) consider "s = set_conditions cs ss"
      | pre' where "pre = GetSecretSync req # StatusUpdate (set_conditions cs ss) True # pre'" "calls = pre' @ StatusUpdate s ok # post"
      by (auto simp: Cons_eq_append_conv append_eq_Cons_conv)
    then show ?thesis
    proof cases
      case 1
      then have "backed E ss pre s" by (simp add: backed_def)
      then show ?thesis by (rule same)
    next
      case 2
      have st: "ss_Status ss' = (ss_Status ss)\<lparr>st_Conditions := cs\<rparr>"
        using inited assms(2) by (fastforce simp: status_echo_def set_conditions_def)
      have "backed E ss' pre s"
        using sync_spec_backed [OF inited(4) 2(2)] backed_more [of E ss' pre' s "[GetSecretSync req, StatusUpdate (set_conditions cs ss) True]"] 2(1)
        by simp
      with st show ?thesis by blast
    qed
  next
    case (ready calls)
    then obtain pre' where "pre = GetSecretSync req # pre'" "calls = pre' @ StatusUpdate s ok # post"
      by (auto simp: Cons_eq_append_conv append_eq_Cons_conv)
    with sync_spec_backed [OF ready(3)] backed_more [of E ss pre' s "[GetSecretSync req]"]
    have "backed E ss pre s" by auto
    then show ?thesis by (rule same)
  qed
qed

section \<open>A run up to the write\<close>

lemma run_up_to_write:
  assumes "Client_GetSecretSync E req (env_state w) = (Inr ss, e1)" "2 \<le> length (conds ss)"
    and "validateLabelsAnnotations (sp_SecretObject (ss_Spec ss)) = None"
    and "Client_GetSecretProviderClass E (spc_key req ss) e1 = (Inr spc, e2)"
    and "run_state (fetchSecretsFromProvider E spc ss) (p, w\<lparr>env_state := e2,
        trace := trace w @ [GetSecretSync req, GetSecretProviderClass (spc_key req ss)]\<rparr>) = (Ret (Inr datamap), (p1, w1))"
    and "computeCurrentStateHash (pbkdf2_Key E) datamap spc ss = Inr h"
  shows "run_state (Reconcile E req) (p, w)
     = (case run_state (write_back E ss (condition_type ss) h datamap) (p1, w1) of (err, t) \<Rightarrow> (Ret err, t))"
  using assms by (simp add: Reconcile_def run_simps Let_def reconcile_synced_def spc_key_def split_beta)

section \<open>What a Reconcile fetches and hashes\<close>

text \<open>
  What a Reconcile has fetched when it comes to compare hashes: its calls up to that point, in the same
  order, with the data, the class and the object as the result. \<open>fetched_data\<close> goes on after metadata that is
  not allowed or initial conditions that were refused, to say what the provider would have delivered;
  \<open>hashed_state\<close> stops where Reconcile stops, so it yields the very state whose hash is computed.
\<close>

definition class_data :: "('w, 'z) controller_env_scheme \<Rightarrow> NamespacedName \<Rightarrow> SecretSync
    \<Rightarrow> (SecretSyncReconciler, 'w, (bytes gomap \<times> SecretProviderClass \<times> SecretSync) option) meth" where
  "class_data E req ss = do {
     got \<leftarrow> ext_call (\<lambda>_. GetSecretProviderClass (spc_key req ss)) (Client_GetSecretProviderClass E (spc_key req ss));
     case got of
       Inl err \<Rightarrow> return None
     | Inr spc \<Rightarrow> do {
         fetched \<leftarrow> fetchSecretsFromProvider E spc ss;
         return (case fetched of Ret (Inr datamap) \<Rightarrow> Some (datamap, spc, ss) | _ \<Rightarrow> None)
       }
   }"

definition hashed_class :: "('w, 'z) controller_env_scheme \<Rightarrow> NamespacedName \<Rightarrow> SecretSync
    \<Rightarrow> (SecretSyncReconciler, 'w, (bytes gomap \<times> SecretProviderClass \<times> SecretSync) option) meth" where
  "hashed_class E req ss = (if validateLabelsAnnotations (sp_SecretObject (ss_Spec ss)) = None then class_data E req ss else return None)"

definition fetched_data :: "('w, 'z) controller_env_scheme \<Rightarrow> NamespacedName
    \<Rightarrow> (SecretSyncReconciler, 'w, (bytes gomap \<times> SecretProviderClass \<times> SecretSync) option) meth" where
  "fetched_data E req = do {
     got \<leftarrow> ext_call (\<lambda>_. GetSecretSync req) (Client_GetSecretSync E req);
     case got of
       Inl err \<Rightarrow> return None
     | Inr ss \<Rightarrow>
         if length (conds ss) < 2 then do {
           (ss', err) \<leftarrow> initConditions E ss;
           class_data E req ss'
         } else class_data E req ss
   }"

definition hashed_state :: "('w, 'z) controller_env_scheme \<Rightarrow> NamespacedName
    \<Rightarrow> (SecretSyncReconciler, 'w, (bytes gomap \<times> SecretProviderClass \<times> SecretSync) option) meth" where
  "hashed_state E req = do {
     got \<leftarrow> ext_call (\<lambda>_. GetSecretSync req) (Client_GetSecretSync E req);
     case got of
       Inl err \<Rightarrow> return None
     | Inr ss \<Rightarrow>
         if length (conds ss) < 2 then do {
           (ss', err) \<leftarrow> initConditions E ss;
           if err = None then hashed_class E req ss' else return None
         } else hashed_class E req ss
   }"

text \<open>A sync stops before the hash, and then has not patched, or it ends with the write protocol for the state that was hashed.\<close>

lemma synced_cases [consumes 1, case_names stopped written]:
  assumes run: "run_state (reconcile_synced E req ss ct) (p, w) = (r, (p', w'))"
  obtains calls where "fst (run_state (hashed_class E req ss) (p, w)) = None" "r \<noteq> Ret None"
      "trace w' = trace w @ calls" "list_all (\<lambda>c. \<not> is_patch c) calls"
  | datamap spc e q t h err qs files where "validateLabelsAnnotations (sp_SecretObject (ss_Spec ss)) = None"
      "Client_GetSecretProviderClass E (spc_key req ss) (env_state w) = (Inr spc, e)"
      "run_state (fetchSecretsFromProvider E spc ss)
         (p, w\<lparr>env_state := e, trace := trace w @ [GetSecretProviderClass (spc_key req ss)]\<rparr>) = (Ret (Inr datamap), (q, t))"
      "fst (run_state (class_data E req ss) (p, w)) = Some (datamap, spc, ss)"
      "fst (run_state (hashed_class E req ss) (p, w)) = Some (datamap, spc, ss)"
      "build_data E ss files = Ret (Inr datamap)" "computeCurrentStateHash (pbkdf2_Key E) datamap spc ss = Inr h"
      "run_state (write_back E ss ct h datamap) (q, t) = (err, (p', w'))" "r = Ret err"
      "trace t = trace w @ qs" "list_all (\<lambda>c. \<not> is_write c) qs"
proof (cases "validateLabelsAnnotations (sp_SecretObject (ss_Spec ss))")
  case (Some re)
  then obtain reason err where re: "validateLabelsAnnotations (sp_SecretObject (ss_Spec ss)) = Some (reason, err)"
    by (cases re) auto
  obtain s1 p1 w1 where 1: "run_state (updateStatusConditions E ss ct ConditionFalse reason (Error err) True) (p, w) = (s1, (p1, w1))"
    by (rule run_obtain)
  have "r = Ret (Some err)" "w' = w1" using run 1 re by (auto simp: reconcile_synced_def)
  moreover obtain s ok where "trace w1 = trace w @ [StatusUpdate s ok]" using run_report [OF 1] by blast
  ultimately show ?thesis using re by (intro that(1) [of "[StatusUpdate s ok]"]) (simp_all add: hashed_class_def)
next
  case valid: None
  let ?key = "spc_key req ss"
  obtain g e where g: "Client_GetSecretProviderClass E ?key (env_state w) = (g, e)" by fastforce
  let ?w = "w\<lparr>env_state := e, trace := trace w @ [GetSecretProviderClass ?key]\<rparr>"
  note defs = reconcile_synced_def valid Let_def run_simps spc_key_def [symmetric]
  note data_defs = hashed_class_def class_data_def valid run_simps g
  show ?thesis
  proof (cases g)
    case (Inl err)
    obtain s1 p1 w1 where 1: "run_state (updateStatusConditions E ss ct ConditionFalse ConditionReasonControllerSpcError
       (errText (isPrint (tokenEnv E)) ''failed to get SecretProviderClass'' (sp_SecretProviderClassName (ss_Spec ss)) err) True)
       (p, ?w) = (s1, (p1, w1))" by (rule run_obtain)
    have "r = Ret (Some err)" "w' = w1" using run 1 g Inl by (auto simp: defs)
    moreover obtain s ok where "trace w1 = trace ?w @ [StatusUpdate s ok]" using run_report [OF 1] by blast
    ultimately show ?thesis using Inl
      by (intro that(1) [of "[GetSecretProviderClass ?key, StatusUpdate s ok]"]) (simp_all add: data_defs is_patch_def)
  next
    case (Inr spc)
    obtain f q t where f: "run_state (fetchSecretsFromProvider E spc ss) (p, ?w) = (f, (q, t))" by (rule run_obtain)
    from emitsD [OF quiet_fetchSecretsFromProvider f] obtain qs where
      qs: "trace t = trace w @ GetSecretProviderClass ?key # qs" "list_all (\<lambda>c. \<not> is_write c) qs" by auto
    have nop: "list_all (\<lambda>c. \<not> is_patch c) (GetSecretProviderClass ?key # qs)"
      using qs(2) by (auto simp: list_all_iff quiet_no_patch)
    note fok = yieldsD [OF yields_fetch f]
    consider (crash) m where "f = Diverges \<or> f = Panic m" | (fail) reason err where "f = Ret (Inl (reason, err))"
      | (data) datamap where "f = Ret (Inr datamap)"
      by (metis go.exhaust sumE surj_pair)
    then show ?thesis
    proof cases
      case crash
      with f g Inr run have "(r = Diverges \<or> r = Panic m) \<and> w' = t" by (auto simp: defs)
      then show ?thesis using crash f Inr qs nop
        by (intro that(1) [of "GetSecretProviderClass ?key # qs"]) (auto simp: data_defs)
    next
      case fail
      obtain s2 p2 w2 where 2: "run_state (updateStatusConditions E ss ct ConditionFalse reason
          (''fetching secrets from the provider failed: '' @ Error err) True) (q, t) = (s2, (p2, w2))" by (rule run_obtain)
      have "r = Ret (Some err)" "w' = w2" using run 2 f g Inr fail by (auto simp: defs)
      moreover obtain s ok where "trace w2 = trace t @ [StatusUpdate s ok]" using run_report [OF 2] by blast
      ultimately show ?thesis using fail f Inr qs nop
        by (intro that(1) [of "GetSecretProviderClass ?key # qs @ [StatusUpdate s ok]"]) (auto simp: data_defs)
    next
      case data
      with fok obtain files where files: "build_data E ss files = Ret (Inr datamap)" by (auto simp: fetch_ok_def)
      obtain h where h: "computeCurrentStateHash (pbkdf2_Key E) datamap spc ss = Inr h"
        by (simp add: computeCurrentStateHash_def Let_def)
      obtain err p2 w2 where 2: "run_state (write_back E ss ct h datamap) (q, t) = (err, (p2, w2))" by (rule run_obtain)
      have "r = Ret err" "p' = p2" "w' = w2" using data f g Inr run h 2 by (auto simp: defs)
      moreover have "fst (run_state (class_data E req ss) (p, w)) = Some (datamap, spc, ss)" using f data Inr by (simp add: data_defs)
      moreover have "fst (run_state (hashed_class E req ss) (p, w)) = Some (datamap, spc, ss)" using f data Inr by (simp add: data_defs)
      moreover have "list_all (\<lambda>c. \<not> is_write c) (GetSecretProviderClass ?key # qs)" using qs(2) by simp
      ultimately show ?thesis using that(2) [OF valid g [unfolded Inr] f [unfolded data] _ _ files h _ _ qs(1)] 2 by simp
    qed
  qed
qed

lemma initialised_unique: "initialised cs cs' \<Longrightarrow> unique_types cs'"
  by (auto simp: initialised_def cond_set_def)

text \<open>
  The whole Reconcile of an object that can be read: its initial conditions, if it has none yet, are refused, or
  the sync is run for the object with its conditions, on a server that stores the status it is sent.
\<close>

lemma Reconcile_object [consumes 3, case_names refused synced]:
  assumes run: "run_state (Reconcile E req) (p, w) = (r, (p', w'))"
    and read: "fst (Client_GetSecretSync E req (env_state w)) = Inr ss" and echo: "status_echo E"
  obtains cs err where "length (conds ss) < 2" "r = Ret (Some err)" "good E ss \<longrightarrow> initialised (conds ss) cs"
      "trace w' = trace w @ [GetSecretSync req, StatusUpdate (set_conditions cs ss) False]"
      "fst (run_state (hashed_state E req) (p, w)) = None"
  | pre s1 w1 where "trace w1 = trace w @ pre"
      "run_state (reconcile_synced E req s1 (condition_type ss)) (p, w1) = (r, (p', w'))"
      "fst (run_state (hashed_state E req) (p, w)) = fst (run_state (hashed_class E req s1) (p, w1))"
      "st_SyncHash (ss_Status s1) = st_SyncHash (ss_Status ss)"
      "st_LastSuccessfulSyncTime (ss_Status s1) = st_LastSuccessfulSyncTime (ss_Status ss)" "good E ss \<longrightarrow> good E s1"
      "if length (conds ss) < 2 then pre = [GetSecretSync req, StatusUpdate (set_conditions (conds s1) ss) True]
         \<and> (good E ss \<longrightarrow> initialised (conds ss) (conds s1)) \<and> (\<exists>v. fst (Status_Update E (set_conditions (conds s1) ss) v) = Inr s1)
       else pre = [GetSecretSync req] \<and> s1 = ss"
proof -
  obtain e where g: "Client_GetSecretSync E req (env_state w) = (Inr ss, e)" using read by (metis prod.collapse)
  let ?w = "w\<lparr>env_state := e, trace := trace w @ [GetSecretSync req]\<rparr>"
  note defs = Reconcile_def hashed_state_def run_simps Let_def g
  show ?thesis
  proof (cases "length (conds ss) < 2")
    case False
    with run that(2) [of ?w "[GetSecretSync req]" ss] show ?thesis by (simp add: defs)
  next
    case True
    obtain s1 err p1 w1 where i: "run_state (initConditions E ss) (p, ?w) = ((s1, err), (p1, w1))" by (metis run_obtain surj_pair)
    from run_initConditions [OF i] obtain cs where cs: "p1 = p" "good E ss \<longrightarrow> initialised (conds ss) cs"
      and st: "case err of Some e \<Rightarrow> trace w1 = trace ?w @ [StatusUpdate (set_conditions cs ss) False]
        | None \<Rightarrow> trace w1 = trace ?w @ [StatusUpdate (set_conditions cs ss) True]
            \<and> (\<exists>v. fst (Status_Update E (set_conditions cs ss) v) = Inr s1)" by blast
    show ?thesis
    proof (cases err)
      case (Some x)
      with run True i st cs show ?thesis by (intro that(1) [of x cs]) (simp_all add: defs)
    next
      case None
      with st obtain v where v: "fst (Status_Update E (set_conditions cs ss) v) = Inr s1" by auto
      with echo have s1: "ss_Status s1 = (ss_Status ss)\<lparr>st_Conditions := cs\<rparr>" by (fastforce simp: status_echo_def)
      have good: "good E ss \<longrightarrow> good E s1" using cs(2) s1 by (auto simp: good_def dest: initialised_unique)
      have c: "cs = conds s1" using s1 by simp
      let ?pre = "[GetSecretSync req, StatusUpdate (set_conditions (conds s1) ss) True]"
      show ?thesis
      proof (rule that(2))
        show "trace w1 = trace w @ ?pre" using st None c by simp
        show "run_state (reconcile_synced E req s1 (condition_type ss)) (p, w1) = (r, (p', w'))"
          using run True i None cs(1) by (simp add: defs)
        show "fst (run_state (hashed_state E req) (p, w)) = fst (run_state (hashed_class E req s1) (p, w1))"
          using True i None cs(1) by (simp add: defs)
        show "st_SyncHash (ss_Status s1) = st_SyncHash (ss_Status ss)"
          "st_LastSuccessfulSyncTime (ss_Status s1) = st_LastSuccessfulSyncTime (ss_Status ss)" by (simp_all add: s1)
        show "good E ss \<longrightarrow> good E s1" by (rule good)
        show "if length (conds ss) < 2 then ?pre = ?pre
            \<and> (good E ss \<longrightarrow> initialised (conds ss) (conds s1)) \<and> (\<exists>v. fst (Status_Update E (set_conditions (conds s1) ss) v) = Inr s1)
          else ?pre = [GetSecretSync req] \<and> s1 = ss"
          unfolding if_P [OF True] using cs(2) v c by blast
      qed
    qed
  qed
qed

section \<open>A concrete cluster\<close>

text \<open>One SecretSync without data entries, its provider on a socket, and a given answer to the patch.\<close>

definition demo_env :: "SecretSyncStatus \<Rightarrow> string gomap option \<Rightarrow> error option \<Rightarrow> nat controller_env" where
  "demo_env st params patchErr = \<lparr>
     SetStatusCondition = (\<lambda>cs c w. (demo_set cs c, w)),
     Status_Update = (\<lambda>ss w. (Inr ss, w)),
     Client_GetSecretSync = (\<lambda>req w. (Inr (demo_ss st), w)),
     Client_GetSecretProviderClass = (\<lambda>key w. (Inr (demo_spc\<lparr>spc_Parameters := params\<rparr>), w)),
     Secrets_Patch = (\<lambda>namespace name data fm w. (patchErr, w)),
     Marshal_Secret = (\<lambda>secret. Inr ''secret''),
     Getenv = (\<lambda>name. name),
     pbkdf2_Key = (\<lambda>pw salt i n. []),
     tokenEnv = demo_tokens,
     providerEnv = demo_provider,
     cryptoLib = demo_rsa\<rparr>"

definition demo_rc :: SecretSyncReconciler where
  "demo_rc = \<lparr>rc_Audiences = [], rc_TokenCache = NewManager True, rc_ProviderClients = NewPluginClientBuilder [''/p''] []\<rparr>"

definition demo_rc' :: SecretSyncReconciler where
  "demo_rc' = demo_rc\<lparr>rc_ProviderClients := put_client ''a'' (ClientConn 0) (NewPluginClientBuilder [''/p''] [])\<rparr>"

definition demo_req :: NamespacedName where
  "demo_req = \<lparr>nn_Namespace = ''ns'', nn_Name = ''s''\<rparr>"

definition demo_params :: string where
  "demo_params = json_map json_string (fmap_of_list [(csiPodName, syncControllerPodName),
     (csiPodUID, syncControllerPodUID), (csiPodNamespace, ''ns''), (csiPodServiceAccountName, ''sa'')])"

lemma demo_env_sets: "sets_condition (demo_env st params patchErr)"
  by (simp add: sets_condition_def demo_env_def demo_sets Let_def)

lemma demo_env_echo: "status_echo (demo_env st params patchErr)"
  by (simp add: status_echo_def demo_env_def)

lemma demo_Get_from:
  "run_state (Get demo_provider ''a'') (NewPluginClientBuilder [''/p''] opts, \<lparr>env_state = 0, trace = t\<rparr>)
   = (Inr (NewCSIDriverProviderClient (ClientConn 0)),
      (put_client ''a'' (ClientConn 0) (NewPluginClientBuilder [''/p''] opts),
       \<lparr>env_state = 1, trace = t @ [Stat ''/p/a.sock'', NewConn ''unix:///p/a.sock'' (dial_opts opts) (Some (ClientConn 0))]\<rparr>))"
proof -
  have "pluginNameRe ''a''" by code_simp
  then show ?thesis
    by (simp add: Get_def NewPluginClientBuilder_def run_simps store_client_def demo_sock Let_def demo_provider_def)
qed

definition demo_fetch_calls :: "string \<Rightarrow> call list" where
  "demo_fetch_calls params = [Stat ''/p/a.sock'', NewConn ''unix:///p/a.sock'' (dial_opts []) (Some (ClientConn 0)),
     Mount (NewCSIDriverProviderClient (ClientConn 0)) (mount_request params (json_map json_string fmempty) [])]"

lemma demo_fetch:
  "\<exists>params. run_state (fetchSecretsFromProvider (demo_env st (Some m) patchErr) (demo_spc\<lparr>spc_Parameters := Some m\<rparr>) (demo_ss st'))
     (demo_rc, \<lparr>env_state = 0, trace = t\<rparr>)
   = (Ret (Inr fmempty), (demo_rc', \<lparr>env_state = 1, trace = t @ demo_fetch_calls params\<rparr>))"
  by (rule exI)
    (simp add: fetchSecretsFromProvider_def run_simps demo_env_def demo_spc_def demo_rc_def demo_rc'_def demo_Get_from
      prepareCSIProviderParams_def SecretProviderServiceAccountTokenAttrs_def provider_parameters_def map_assign_def
      MountContent_def Let_def demo_Mount build_data_def BuildKubeSecretData_def demo_ss_def
      version_map_def file_map_def demo_fetch_calls_def)

lemma set_demo_ss [simp]:
  "set_conditions cs (demo_ss st) = demo_ss (st\<lparr>st_Conditions := cs\<rparr>)"
  "set_sync h t (demo_ss st) = demo_ss (st\<lparr>st_SyncHash := h, st_LastSuccessfulSyncTime := t\<rparr>)"
  "ss_Status (demo_ss st) = st" "condition_type (demo_ss st) = (if st_SyncHash st = [] then ConditionTypeCreate else ConditionTypeUpdate)"
  by (simp_all add: set_conditions_def set_sync_def demo_ss_def condition_type_def)

lemma demo_valid: "validateLabelsAnnotations (sp_SecretObject (ss_Spec (demo_ss st))) = None"
  by (simp add: validateLabelsAnnotations_def nil_lookup_def demo_ss_def)

lemma demo_hash: "computeCurrentStateHash (\<lambda>pw salt i n. []) d spc ss = Inr ''v1:''"
  by (simp add: computeCurrentStateHash_def hex_EncodeToString_def)

definition demo_conds :: "ConditionStatus \<Rightarrow> string \<Rightarrow> string \<Rightarrow> ConditionStatus \<Rightarrow> string \<Rightarrow> string \<Rightarrow> Condition list" where
  "demo_conds s1 r1 m1 s2 r2 m2 = [new_condition ConditionTypeCreate s1 r1 m1, new_condition ConditionTypeUpdate s2 r2 m2]"

lemma demo_set_conds:
  "demo_set [] c = [c]"
  "demo_set (demo_conds s1 r1 m1 s2 r2 m2) (new_condition ConditionTypeCreate s r m) = demo_conds s r m s2 r2 m2"
  "demo_set (demo_conds s1 r1 m1 s2 r2 m2) (new_condition ConditionTypeUpdate s r m) = demo_conds s1 r1 m1 s r m"
  "demo_set [new_condition ConditionTypeCreate s1 r1 m1] (new_condition ConditionTypeUpdate s r m) = demo_conds s1 r1 m1 s r m"
  by (simp_all add: demo_conds_def new_condition_def ConditionTypeCreate_def ConditionTypeUpdate_def)

definition demo_inited :: SecretSyncStatus where
  "demo_inited = demo_status0\<lparr>st_Conditions := demo_conds ConditionUnknown ConditionReasonSyncStarting []
     ConditionUnknown ConditionReasonNoUpdateAttemptedYet []\<rparr>"

definition demo_synced :: SecretSyncStatus where
  "demo_synced = \<lparr>st_SyncHash = ''v1:'', st_LastSuccessfulSyncTime = Some 0,
     st_Conditions = demo_conds ConditionTrue ConditionReasonCreateSuccessful ConditionMessageCreateSuccessful
       ConditionTrue ConditionReasonSecretUpToDate ConditionMessageUpdateSuccessful\<rparr>"

definition demo_before :: "call list" where
  "demo_before = [GetSecretSync demo_req, StatusUpdate (demo_ss demo_inited) True,
     GetSecretProviderClass \<lparr>nn_Namespace = ''ns'', nn_Name = ''spc''\<rparr>]"

lemma demo_write_back:
  "run_state (write_back (demo_env st (Some m) None) (demo_ss demo_inited) ConditionTypeCreate ''v1:'' fmempty) (p, w)
   = (None, (p, w\<lparr>trace := trace w @ [patch_call (demo_ss demo_inited) ''secret'' True, StatusUpdate (demo_ss demo_synced) True]\<rparr>))"
  by (simp add: write_back_def demo_inited_def demo_status0_def demo_synced_def Let_def mark_synced_def updateStatusConditions_def
      set_condition_def run_simps demo_env_def demo_set_conds serverSidePatchSecret_def update_status_def demo_tokens_def
      patch_call_def secretPatchData_def demo_ss_def set_sync_def set_conditions_def failedCondition_def)

lemma demo_first:
  "\<exists>params. run_state (Reconcile (demo_env demo_status0 (Some fmempty) patchErr) demo_req) (demo_rc, \<lparr>env_state = 0, trace = []\<rparr>)
   = (case run_state (write_back (demo_env demo_status0 (Some fmempty) patchErr) (demo_ss demo_inited) ConditionTypeCreate ''v1:'' fmempty)
        (demo_rc', \<lparr>env_state = 1, trace = demo_before @ demo_fetch_calls params\<rparr>) of (err, t) \<Rightarrow> (Ret err, t))"
proof -
  let ?E = "demo_env demo_status0 (Some fmempty) patchErr"
  obtain params where f: "run_state (fetchSecretsFromProvider ?E (demo_spc\<lparr>spc_Parameters := Some fmempty\<rparr>) (demo_ss demo_inited))
     (demo_rc, \<lparr>env_state = 0, trace = demo_before\<rparr>)
   = (Ret (Inr fmempty), (demo_rc', \<lparr>env_state = 1, trace = demo_before @ demo_fetch_calls params\<rparr>))"
    using demo_fetch by blast
  have env: "Client_GetSecretSync ?E = (\<lambda>req w. (Inr (demo_ss demo_status0), w))"
    "Client_GetSecretProviderClass ?E = (\<lambda>key w. (Inr (demo_spc\<lparr>spc_Parameters := Some fmempty\<rparr>), w))"
    "pbkdf2_Key ?E = (\<lambda>pw salt i n. [])" by (simp_all add: demo_env_def)
  have init: "run_state (initConditions ?E (demo_ss demo_status0)) (demo_rc, \<lparr>env_state = 0, trace = [GetSecretSync demo_req]\<rparr>)
     = ((demo_ss demo_inited, None), (demo_rc, \<lparr>env_state = 0, trace = [GetSecretSync demo_req, StatusUpdate (demo_ss demo_inited) True]\<rparr>))"
    by (simp add: initConditions_def set_condition_def run_simps demo_env_def demo_status0_def update_status_def
        demo_inited_def new_condition_def ConditionTypeCreate_def ConditionTypeUpdate_def demo_conds_def)
  have spc: "sp_SecretProviderClassName (ss_Spec (demo_ss st)) = ''spc''" for st by (simp add: demo_ss_def)
  have "length (conds (demo_ss demo_status0)) < 2" "condition_type (demo_ss demo_status0) = ConditionTypeCreate"
    by (simp_all add: demo_status0_def)
  then show ?thesis
    using f init
    by (intro exI [of _ params])
      (simp add: Reconcile_def run_simps env Let_def reconcile_synced_def demo_valid spc demo_req_def demo_before_def
        demo_hash split_beta)
qed

lemma demo_Reconcile:
  "\<exists>params. run_state (Reconcile (demo_env demo_status0 (Some fmempty) None) demo_req) (demo_rc, \<lparr>env_state = 0, trace = []\<rparr>)
   = (Ret None, (demo_rc', \<lparr>env_state = 1, trace = demo_before @ demo_fetch_calls params
       @ [patch_call (demo_ss demo_inited) ''secret'' True, StatusUpdate (demo_ss demo_synced) True]\<rparr>))"
  using demo_first [of None] by (simp add: demo_write_back)

theorem Reconcile_status_backed_witness:
  "\<exists>ss' cs pre. ss_Status ss' = demo_status0\<lparr>st_Conditions := cs\<rparr>
     \<and> backed (demo_env demo_status0 (Some fmempty) None) ss' pre (demo_ss demo_synced)"
proof -
  obtain params where r: "run_state (Reconcile (demo_env demo_status0 (Some fmempty) None) demo_req)
      (demo_rc, \<lparr>env_state = 0, trace = []\<rparr>)
   = (Ret None, (demo_rc', \<lparr>env_state = 1, trace = demo_before @ demo_fetch_calls params
       @ [patch_call (demo_ss demo_inited) ''secret'' True, StatusUpdate (demo_ss demo_synced) True]\<rparr>))"
    using demo_Reconcile by blast
  have g: "fst (Client_GetSecretSync (demo_env demo_status0 (Some fmempty) None) demo_req
      (env_state \<lparr>env_state = 0, trace = []\<rparr>)) = Inr (demo_ss demo_status0)" by (simp add: demo_env_def)
  from Reconcile_status_backed [OF r demo_env_echo g, of
      "demo_before @ demo_fetch_calls params @ [patch_call (demo_ss demo_inited) ''secret'' True]" "demo_ss demo_synced" True "[]"]
  show ?thesis by auto
qed

section \<open>At most one patch\<close>

lemma filter_quiet: "list_all (\<lambda>c. \<not> is_write c) qs \<Longrightarrow> filter is_patch qs = []"
  by (induction qs) (auto simp: quiet_no_patch)

lemma sync_spec_patches:
  assumes "sync_spec E req ss ct r calls"
  shows "length (filter is_patch calls) \<le> 1"
  using assms
proof (induction rule: sync_spec.induct)
  case (written qs files datamap spc h err ws)
  from written.hyps(5) have "length (filter is_patch ws) \<le> 1"
    by (cases rule: wrote_back_cases) auto
  with written.hyps(2) show ?case by (auto simp: filter_quiet quiet_no_patch)
qed (auto simp: filter_quiet quiet_no_patch)

text \<open>
  One Reconcile patches at most one Secret, and none at all once validation has failed.
\<close>

theorem Reconcile_one_patch:
  assumes "run_state (Reconcile E req) (p, w) = (r, (p', w'))"
  shows "\<exists>calls. trace w' = trace w @ calls \<and> length (filter is_patch calls) \<le> 1"
proof -
  obtain calls where c: "trace w' = trace w @ calls"
    and "reconcile_spec E req (fst (Client_GetSecretSync E req (env_state w))) r calls"
    using run_Reconcile [OF assms] by blast
  from this(2) have "length (filter is_patch calls) \<le> 1"
    by cases (auto simp: quiet_no_patch dest: sync_spec_patches)
  with c show ?thesis by blast
qed

theorem Reconcile_one_patch_witness:
  "\<exists>calls. trace (snd (snd (run_state (Reconcile (demo_env demo_status0 (Some fmempty) None) demo_req)
      (demo_rc, \<lparr>env_state = 0, trace = []\<rparr>)))) = [] @ calls \<and> length (filter is_patch calls) \<le> 1"
proof -
  obtain r p' w' where r: "run_state (Reconcile (demo_env demo_status0 (Some fmempty) None) demo_req)
      (demo_rc, \<lparr>env_state = 0, trace = []\<rparr>) = (r, (p', w'))" by (rule run_obtain)
  from Reconcile_one_patch [OF r] r show ?thesis by simp
qed

section \<open>Objects with conditions\<close>

lemma run_Reconcile_ready:
  assumes "run_state (Reconcile E req) (p, w) = (r, (p', w'))"
    and "fst (Client_GetSecretSync E req (env_state w)) = Inr ss" "2 \<le> length (conds ss)"
  shows "\<exists>calls. trace w' = trace w @ GetSecretSync req # calls \<and> sync_spec E req ss (condition_type ss) r calls"
proof -
  obtain calls where c: "trace w' = trace w @ calls" and "reconcile_spec E req (Inr ss) r calls"
    using run_Reconcile [OF assms(1)] assms(2) by auto
  from this(2) assms(3) c show ?thesis by cases auto
qed

lemma type_neq: "ConditionTypeUpdate \<noteq> ConditionTypeCreate" "ConditionTypeCreate \<noteq> ConditionTypeUpdate"
  by (simp_all add: ConditionTypeCreate_def ConditionTypeUpdate_def)

text \<open>A patch that was refused, in the calls of a Reconcile.\<close>

lemma sync_spec_refused:
  assumes "sync_spec E req ss ct r calls" "calls = pre @ PatchSecret n m f d False # post"
  shows "\<exists>cs1 cs2 e ok changed. post = [StatusUpdate (set_conditions cs2 ss) ok] \<and> r = Ret (Some e)
     \<and> (good E ss \<longrightarrow> marked ct changed (conds ss) cs1
          \<and> cond_set ct ConditionFalse ConditionReasonControllerPatchError cs1 cs2)"
  using assms
proof (induction arbitrary: pre rule: sync_spec.induct)
  case (crash qs r m')
  have "list_all (\<lambda>c. \<not> is_write c) (GetSecretProviderClass (spc_key req ss) # qs)" using crash.hyps(2) by simp
  then show ?case unfolding crash.prems by simp
next
  case (no_data qs reason s' err ok')
  let ?qs = "GetSecretProviderClass (spc_key req ss) # qs"
  have q: "list_all (\<lambda>c. \<not> is_patch c) (?qs @ [StatusUpdate s' ok'])"
    using no_data.hyps(2) by (auto simp: list_all_iff quiet_no_patch)
  have e: "?qs @ [StatusUpdate s' ok'] = pre @ PatchSecret n m f d False # post" using no_data.prems by simp
  from q show ?case unfolding e by simp
next
  case (written qs files datamap spc h err ws)
  let ?qs = "GetSecretProviderClass (spc_key req ss) # qs"
  have q: "list_all (\<lambda>c. \<not> is_write c) ?qs" using written.hyps(2) by simp
  have e: "?qs @ ws = pre @ PatchSecret n m f d False # post" using written.prems by simp
  obtain pre' where ws: "ws = pre' @ PatchSecret n m f d False # post"
    using split_at_write [OF e q] by auto
  from written.hyps(5) show ?case
  proof (cases rule: wrote_back_cases)
    case (failed cs1 cs2 e pre2 ok)
    with ws have "post = [StatusUpdate (set_conditions cs2 ss) ok]"
      by (auto simp: Cons_eq_append_conv append_eq_Cons_conv)
    with failed show ?thesis
      by (intro exI [of _ cs1] exI [of _ cs2] exI [of _ e] exI [of _ ok]
          exI [of _ "h \<noteq> st_SyncHash (ss_Status ss)"]) auto
  qed (use ws in \<open>auto simp: Cons_eq_append_conv append_eq_Cons_conv patch_call_def\<close>)
qed (auto simp: Cons_eq_append_conv)

lemma split_past:
  assumes "qs @ ws = pre @ c # post" "c \<notin> set qs"
  shows "\<exists>pre'. pre = qs @ pre' \<and> ws = pre' @ c # post"
  using assms by (auto simp: append_eq_append_conv2 append_eq_Cons_conv)

lemma Reconcile_refused:
  assumes "run_state (Reconcile E req) (p, w) = (r, (p', w'))" "fst (Client_GetSecretSync E req (env_state w)) = Inr ss"
    and "status_echo E" "good E ss" "trace w' = trace w @ pre @ PatchSecret n m f d False # post"
  obtains s ok e cs cs1 changed where "post = [StatusUpdate s ok]" "r = Ret (Some e)"
    "st_SyncHash (ss_Status s) = st_SyncHash (ss_Status ss)"
    "st_LastSuccessfulSyncTime (ss_Status s) = st_LastSuccessfulSyncTime (ss_Status ss)"
    "marked (condition_type ss) changed cs cs1" "cond_set (condition_type ss) ConditionFalse ConditionReasonControllerPatchError cs1 (conds s)"
  using assms(1-3)
proof (cases rule: Reconcile_object)
  case (refused cs err)
  from refused(4) assms(5) show ?thesis by (auto simp: Cons_eq_append_conv append_eq_Cons_conv)
next
  case (synced pre0 s1 w1)
  from run_reconcile_synced [OF synced(2)] obtain calls where c: "trace w' = trace w1 @ calls"
    and sp: "sync_spec E req s1 (condition_type ss) r calls" by blast
  have "PatchSecret n m f d False \<notin> set pre0" using synced(7) by (auto split: if_splits)
  with split_past [of pre0 calls pre "PatchSecret n m f d False" post] c synced(1) assms(5)
  obtain pre' where "calls = pre' @ PatchSecret n m f d False # post" by auto
  from sync_spec_refused [OF sp this] synced(6) assms(4) obtain cs1 cs2 e ok changed where
    "post = [StatusUpdate (set_conditions cs2 s1) ok]" "r = Ret (Some e)" "marked (condition_type ss) changed (conds s1) cs1"
    "cond_set (condition_type ss) ConditionFalse ConditionReasonControllerPatchError cs1 cs2" by blast
  then show ?thesis using synced(4,5) by (intro that [of "set_conditions cs2 s1" ok e changed "conds s1" cs1]) simp_all
qed

text \<open>
  C8: Roll-back. When the API server refuses the patch, of a new object or a known one, Reconcile makes
  exactly one more call, whose own outcome it does not look at: it sends a status with the hash and the
  time of the last successful sync that it had read and with the condition of the operation at False,
  reason ControllerPatchError; and it returns an error.
\<close>

theorem Reconcile_rolls_back:
  assumes "run_state (Reconcile E req) (p, w) = (r, (p', w'))" "fst (Client_GetSecretSync E req (env_state w)) = Inr ss"
    and "status_echo E" "good E ss" "trace w' = trace w @ pre @ PatchSecret n m f d False # post"
  shows "\<exists>s ok e. post = [StatusUpdate s ok] \<and> r = Ret (Some e)
     \<and> st_SyncHash (ss_Status s) = st_SyncHash (ss_Status ss)
     \<and> st_LastSuccessfulSyncTime (ss_Status s) = st_LastSuccessfulSyncTime (ss_Status ss)
     \<and> (\<exists>c. condition_of (condition_type ss) (conds s) = Some c \<and> c_Status c = ConditionFalse
          \<and> c_Reason c = ConditionReasonControllerPatchError)"
proof -
  from assms obtain s ok e cs cs1 changed where "post = [StatusUpdate s ok]" "r = Ret (Some e)"
    "st_SyncHash (ss_Status s) = st_SyncHash (ss_Status ss)"
    "st_LastSuccessfulSyncTime (ss_Status s) = st_LastSuccessfulSyncTime (ss_Status ss)"
    "cond_set (condition_type ss) ConditionFalse ConditionReasonControllerPatchError cs1 (conds s)" by (rule Reconcile_refused)
  then show ?thesis unfolding cond_set_def by blast
qed

text \<open>
  C33: A failed creation claims an up-to-date Secret. When the patch of an object that has no Secret yet (its
  status has no hash) is refused, the status that Reconcile then sends says with SecretCreated that the
  patch failed, and with SecretUpdated that the Secret contains the last observed values.
\<close>

theorem Reconcile_failed_create_claims:
  assumes "run_state (Reconcile E req) (p, w) = (r, (p', w'))" "fst (Client_GetSecretSync E req (env_state w)) = Inr ss"
    and "status_echo E" "good E ss" "trace w' = trace w @ pre @ PatchSecret n m f d False # post"
    and "st_SyncHash (ss_Status ss) = []"
  shows "\<exists>s ok. post = [StatusUpdate s ok] \<and> st_SyncHash (ss_Status s) = []
     \<and> (\<exists>c. condition_of ConditionTypeCreate (conds s) = Some c \<and> c_Status c = ConditionFalse
          \<and> c_Reason c = ConditionReasonControllerPatchError)
     \<and> (\<exists>c. condition_of ConditionTypeUpdate (conds s) = Some c \<and> c_Status c = ConditionTrue
          \<and> c_Reason c = ConditionReasonSecretUpToDate)"
proof -
  from assms(1-5) obtain s ok e cs cs1 changed where "post = [StatusUpdate s ok]"
    and s: "st_SyncHash (ss_Status s) = st_SyncHash (ss_Status ss)" and "marked (condition_type ss) changed cs cs1"
    "cond_set (condition_type ss) ConditionFalse ConditionReasonControllerPatchError cs1 (conds s)" by (rule Reconcile_refused)
  moreover have "condition_type ss = ConditionTypeCreate" using assms(6) by (simp add: condition_type_def)
  moreover have "st_SyncHash (ss_Status s) = []" by (simp add: s assms(6))
  ultimately show ?thesis using type_neq by (fastforce simp: marked_def cond_set_def)
qed

text \<open>Runs on the concrete cluster for an object that has its conditions.\<close>

definition demo_read :: "call list" where
  "demo_read = [GetSecretSync demo_req, GetSecretProviderClass \<lparr>nn_Namespace = ''ns'', nn_Name = ''spc''\<rparr>]"

abbreviation demo_w0 :: "(nat, call) world" where
  "demo_w0 \<equiv> \<lparr>env_state = 0, trace = []\<rparr>"

lemma demo_get: "fst (Client_GetSecretSync (demo_env st params patchErr) req w) = Inr (demo_ss st)"
  by (simp add: demo_env_def)

lemma demo_Reconcile_ready:
  assumes "2 \<le> length (st_Conditions st)"
  shows "\<exists>params. run_state (Reconcile (demo_env st (Some fmempty) patchErr) demo_req) (demo_rc, demo_w0)
   = (case run_state (write_back (demo_env st (Some fmempty) patchErr) (demo_ss st) (condition_type (demo_ss st)) ''v1:'' fmempty)
        (demo_rc', \<lparr>env_state = 1, trace = demo_read @ demo_fetch_calls params\<rparr>) of (err, t) \<Rightarrow> (Ret err, t))"
proof -
  let ?E = "demo_env st (Some fmempty) patchErr"
  obtain params where f: "run_state (fetchSecretsFromProvider ?E (demo_spc\<lparr>spc_Parameters := Some fmempty\<rparr>) (demo_ss st))
     (demo_rc, \<lparr>env_state = 0, trace = demo_read\<rparr>)
   = (Ret (Inr fmempty), (demo_rc', \<lparr>env_state = 1, trace = demo_read @ demo_fetch_calls params\<rparr>))"
    using demo_fetch by blast
  have spc: "spc_key demo_req (demo_ss st) = \<lparr>nn_Namespace = ''ns'', nn_Name = ''spc''\<rparr>"
    by (simp add: spc_key_def demo_req_def demo_ss_def)
  have "run_state (fetchSecretsFromProvider ?E (demo_spc\<lparr>spc_Parameters := Some fmempty\<rparr>) (demo_ss st)) (demo_rc, demo_w0\<lparr>env_state := 0,
      trace := trace demo_w0 @ [GetSecretSync demo_req, GetSecretProviderClass (spc_key demo_req (demo_ss st))]\<rparr>)
     = (Ret (Inr fmempty), (demo_rc', \<lparr>env_state = 1, trace = demo_read @ demo_fetch_calls params\<rparr>))"
    using f by (simp add: spc demo_read_def)
  from run_up_to_write [OF _ _ demo_valid _ this] assms show ?thesis
    by (intro exI [of _ params]) (simp add: demo_env_def demo_hash)
qed

lemma demo_good: "unique_types (st_Conditions st) \<Longrightarrow> good (demo_env st' params patchErr) (demo_ss st)"
  by (simp add: good_def demo_env_sets)

lemma demo_unique: "unique_types (demo_conds s1 r1 m1 s2 r2 m2)"
  by (simp add: unique_types_def demo_conds_def new_condition_def ConditionTypeCreate_def ConditionTypeUpdate_def)

text \<open>
  The first Reconcile of a new object, whose patch is refused: it initialises the conditions, fetches, tries to
  patch and records that it failed.
\<close>

lemma demo_first_refused:
  "\<exists>params s. run_state (Reconcile (demo_env demo_status0 (Some fmempty) (Some (ErrorString ''no''))) demo_req) (demo_rc, demo_w0)
   = (Ret (Some (ErrorString ''no'')), (demo_rc', \<lparr>env_state = 1, trace = demo_before @ demo_fetch_calls params
       @ [patch_call (demo_ss demo_inited) ''secret'' False, StatusUpdate s True]\<rparr>))"
proof -
  let ?E = "demo_env demo_status0 (Some fmempty) (Some (ErrorString ''no''))"
  obtain params where r: "run_state (Reconcile ?E demo_req) (demo_rc, demo_w0)
   = (case run_state (write_back ?E (demo_ss demo_inited) ConditionTypeCreate ''v1:'' fmempty)
        (demo_rc', \<lparr>env_state = 1, trace = demo_before @ demo_fetch_calls params\<rparr>) of (err, t) \<Rightarrow> (Ret err, t))"
    using demo_first by blast
  show ?thesis
    by (rule exI [of _ params], rule exI, subst r)
      (simp add: write_back_def demo_inited_def demo_status0_def Let_def mark_synced_def updateStatusConditions_def
      set_condition_def run_simps demo_env_def demo_set_conds serverSidePatchSecret_def update_status_def demo_tokens_def
      patch_call_def secretPatchData_def demo_ss_def set_sync_def set_conditions_def failedCondition_def condition_type_def)
qed

lemma demo_good0: "good (demo_env st params patchErr) (demo_ss demo_status0)"
  by (simp add: demo_good demo_status0_def unique_types_def)

theorem Reconcile_rolls_back_witness:
  "\<exists>s ok. last (trace (snd (snd (run_state (Reconcile (demo_env demo_status0 (Some fmempty) (Some (ErrorString ''no''))) demo_req)
       (demo_rc, demo_w0))))) = StatusUpdate s ok \<and> st_SyncHash (ss_Status s) = []
     \<and> (\<exists>c. condition_of ConditionTypeCreate (conds s) = Some c \<and> c_Status c = ConditionFalse \<and> c_Reason c = ConditionReasonControllerPatchError)"
proof -
  let ?E = "demo_env demo_status0 (Some fmempty) (Some (ErrorString ''no''))"
  obtain params s0 where r: "run_state (Reconcile ?E demo_req) (demo_rc, demo_w0)
   = (Ret (Some (ErrorString ''no'')), (demo_rc', \<lparr>env_state = 1, trace = demo_before @ demo_fetch_calls params
       @ [patch_call (demo_ss demo_inited) ''secret'' False, StatusUpdate s0 True]\<rparr>))" using demo_first_refused by blast
  have c: "condition_type (demo_ss demo_status0) = ConditionTypeCreate" by (simp add: demo_status0_def)
  from Reconcile_rolls_back [OF r demo_get demo_env_echo demo_good0, of "demo_before @ demo_fetch_calls params" "om_Namespace (ss_Meta (demo_ss demo_inited))"
      "om_Name (ss_Meta (demo_ss demo_inited))" secretSyncControllerFieldManager "''secret''" "[StatusUpdate s0 True]"] c r
  show ?thesis by (auto simp: patch_call_def demo_status0_def)
qed

theorem Reconcile_failed_create_claims_witness:
  "\<exists>s ok. last (trace (snd (snd (run_state (Reconcile (demo_env demo_status0 (Some fmempty) (Some (ErrorString ''no''))) demo_req)
       (demo_rc, demo_w0))))) = StatusUpdate s ok
     \<and> (\<exists>c. condition_of ConditionTypeUpdate (conds s) = Some c \<and> c_Status c = ConditionTrue \<and> c_Reason c = ConditionReasonSecretUpToDate)"
proof -
  let ?E = "demo_env demo_status0 (Some fmempty) (Some (ErrorString ''no''))"
  obtain params s0 where r: "run_state (Reconcile ?E demo_req) (demo_rc, demo_w0)
   = (Ret (Some (ErrorString ''no'')), (demo_rc', \<lparr>env_state = 1, trace = demo_before @ demo_fetch_calls params
       @ [patch_call (demo_ss demo_inited) ''secret'' False, StatusUpdate s0 True]\<rparr>))" using demo_first_refused by blast
  from Reconcile_failed_create_claims [OF r demo_get demo_env_echo demo_good0, of "demo_before @ demo_fetch_calls params"
      "om_Namespace (ss_Meta (demo_ss demo_inited))" "om_Name (ss_Meta (demo_ss demo_inited))" secretSyncControllerFieldManager
      "''secret''" "[StatusUpdate s0 True]"] r
  show ?thesis by (auto simp: patch_call_def demo_status0_def)
qed

section \<open>When nothing is written\<close>

lemma filter_write_quiet: "list_all (\<lambda>c. \<not> is_write c) qs \<Longrightarrow> filter is_write qs = []"
  by (induction qs) auto

lemma Reconcile_unchanged:
  assumes "run_state (Reconcile E req) (p, w) = (r, (p', w'))" "fst (Client_GetSecretSync E req (env_state w)) = Inr ss"
    and "status_echo E" "fst (run_state (hashed_state E req) (p, w)) = Some (datamap, spc, s1)"
    and "computeCurrentStateHash (pbkdf2_Key E) datamap spc s1 = Inr (st_SyncHash (ss_Status ss))" "failedCondition s1 = None"
  shows "r = Ret None \<and> (\<exists>calls. trace w' = trace w @ calls
     \<and> filter is_write calls = (if length (conds ss) < 2 then [StatusUpdate (set_conditions (conds s1) ss) True] else []))"
  using assms(1-3)
proof (cases rule: Reconcile_object)
  case (synced pre s w1)
  have "filter is_write pre = (if length (conds ss) < 2 then [StatusUpdate (set_conditions (conds s) ss) True] else [])"
    using synced(7) by simp
  moreover from synced(2) show ?thesis
  proof (cases rule: synced_cases)
    case (written d c e q t h err qs files)
    have s: "d = datamap" "c = spc" "s = s1" using written(5) synced(3) assms(4) by simp_all
    then have "h = st_SyncHash (ss_Status s)" using written(7) synced(4) assms(5) by simp
    then have "err = None" "w' = t" using written(8) assms(6) s by (simp_all add: write_back_def)
    then show ?thesis using calculation synced(1) written(9-11) s filter_write_quiet [OF written(11)]
      by (intro conjI exI [of _ "pre @ qs"]) simp_all
  qed (use synced(3) assms(4) in simp)
qed (use assms(4) in simp)

text \<open>
  C9: No needless writes. When the state that Reconcile hashes has the hash that the status of the object
  records, and no condition of the object asks for a retry, Reconcile returns without an error and does not
  write: nothing is patched and no status is sent, however long ago the last sync was; only an object that did not have
  its two conditions yet gets them, before the fetch.
\<close>

theorem Reconcile_noop:
  assumes "run_state (Reconcile E req) (p, w) = (r, (p', w'))" "fst (Client_GetSecretSync E req (env_state w)) = Inr ss"
    and "status_echo E" "fst (run_state (hashed_state E req) (p, w)) = Some (datamap, spc, s1)"
    and "computeCurrentStateHash (pbkdf2_Key E) datamap spc s1 = Inr (st_SyncHash (ss_Status ss))" "failedCondition s1 = None"
  shows "r = Ret None \<and> (\<exists>calls. trace w' = trace w @ calls
     \<and> filter is_write calls = (if length (conds ss) < 2 then [StatusUpdate (set_conditions (conds s1) ss) True] else []))"
  using assms by (rule Reconcile_unchanged)

lemma demo_synced_ok: "failedCondition (demo_ss demo_synced) = None"
  by (simp add: failedCondition_def demo_synced_def demo_conds_def new_condition_def FailedConditionsTriggeringRetry_def reason_defs)

lemma demo_hashed:
  assumes "2 \<le> length (st_Conditions st)"
  shows "fst (run_state (hashed_state (demo_env st (Some fmempty) patchErr) demo_req) (demo_rc, demo_w0))
     = Some (fmempty, demo_spc\<lparr>spc_Parameters := Some fmempty\<rparr>, demo_ss st)"
proof -
  let ?E = "demo_env st (Some fmempty) patchErr" and ?spc = "demo_spc\<lparr>spc_Parameters := Some fmempty\<rparr>"
  have k: "spc_key demo_req (demo_ss st) = \<lparr>nn_Namespace = ''ns'', nn_Name = ''spc''\<rparr>" by (simp add: spc_key_def demo_req_def demo_ss_def)
  obtain params where f: "run_state (fetchSecretsFromProvider ?E ?spc (demo_ss st)) (demo_rc, \<lparr>env_state = 0, trace = demo_read\<rparr>)
   = (Ret (Inr fmempty), (demo_rc', \<lparr>env_state = 1, trace = demo_read @ demo_fetch_calls params\<rparr>))" using demo_fetch by blast
  have env: "Client_GetSecretSync ?E = (\<lambda>req w. (Inr (demo_ss st), w))" "Client_GetSecretProviderClass ?E = (\<lambda>key w. (Inr ?spc, w))"
    by (simp_all add: demo_env_def)
  show ?thesis using assms f [unfolded demo_read_def]
    by (simp add: hashed_state_def hashed_class_def class_data_def run_simps env demo_valid k not_less)
qed

lemma demo_synced_conds: "2 \<le> length (st_Conditions demo_synced)" "2 \<le> length (st_Conditions (demo_synced\<lparr>st_SyncHash := h\<rparr>))"
  by (simp_all add: demo_synced_def demo_conds_def)

theorem Reconcile_noop_witness:
  "\<exists>r p' w'. run_state (Reconcile (demo_env demo_synced (Some fmempty) None) demo_req) (demo_rc, demo_w0) = (r, (p', w'))
     \<and> r = Ret None \<and> filter is_write (trace w') = []"
proof -
  let ?E = "demo_env demo_synced (Some fmempty) None"
  obtain r p' w' where r: "run_state (Reconcile ?E demo_req) (demo_rc, demo_w0) = (r, (p', w'))" by (rule run_obtain)
  have h: "computeCurrentStateHash (pbkdf2_Key ?E) fmempty (demo_spc\<lparr>spc_Parameters := Some fmempty\<rparr>) (demo_ss demo_synced)
      = Inr (st_SyncHash (ss_Status (demo_ss demo_synced)))" by (simp add: demo_env_def demo_hash) (simp add: demo_synced_def)
  from Reconcile_noop [OF r demo_get demo_env_echo demo_hashed [OF demo_synced_conds(1)] h demo_synced_ok] r demo_synced_conds(1)
  show ?thesis by auto
qed

section \<open>After a successful sync\<close>

lemma sync_spec_success:
  assumes "sync_spec E req ss ct (Ret None) calls" "calls = pre @ [StatusUpdate s ok]"
  shows "ok \<and> (\<exists>h now cs1. s = set_sync h (Some now) (set_conditions cs1 ss)
     \<and> (failedCondition ss \<noteq> None \<or> h \<noteq> st_SyncHash (ss_Status ss))
     \<and> (good E ss \<longrightarrow> marked ct (h \<noteq> st_SyncHash (ss_Status ss)) (conds ss) cs1))"
  using assms(1)
proof cases
  case (crash qs m)
  then show ?thesis by simp
next
  case (written qs files datamap spc h ws)
  let ?qs = "GetSecretProviderClass (spc_key req ss) # qs"
  have q: "list_all (\<lambda>c. \<not> is_write c) ?qs" using written by simp
  have e: "?qs @ ws = pre @ StatusUpdate s ok # []" using written assms(2) by simp
  obtain pre' where ws: "ws = pre' @ [StatusUpdate s ok]" using split_at_write [OF e q] by auto
  from written(6) show ?thesis
  proof (cases rule: wrote_back_cases)
    case (patched cs1 data now ok')
    with ws have "s = set_sync h (Some now) (set_conditions cs1 ss)" "ok" by auto
    with patched show ?thesis by blast
  qed (use ws in auto)
qed

text \<open>The conditions of the controller: at most one of each type, and no others.\<close>

definition own_conditions :: "Condition list \<Rightarrow> bool" where
  "own_conditions cs \<longleftrightarrow> unique_types cs \<and> list_all (\<lambda>c. c_Type c \<in> {ConditionTypeCreate, ConditionTypeUpdate}) cs"

lemma condition_of_None: "condition_of t cs = None \<longleftrightarrow> t \<notin> c_Type ` set cs"
  by (induction cs) auto

lemma condition_of_mem: "condition_of t cs = Some c \<Longrightarrow> c \<in> set cs \<and> c_Type c = t"
  by (induction cs) (auto split: if_splits)

lemma unique_condition_of: "unique_types cs \<Longrightarrow> c \<in> set cs \<Longrightarrow> condition_of (c_Type c) cs = Some c"
  by (induction cs) (auto simp: unique_types_def image_iff)

lemma own_cond_set:
  assumes "cond_set t st reason cs cs'" "own_conditions cs" "t \<in> {ConditionTypeCreate, ConditionTypeUpdate}"
  shows "own_conditions cs'"
proof -
  have u: "unique_types cs'" using assms(1) by (simp add: cond_set_def)
  have "c_Type c \<in> {ConditionTypeCreate, ConditionTypeUpdate}" if c: "c \<in> set cs'" for c
  proof (cases "c_Type c = t")
    case False
    with assms(1) unique_condition_of [OF u c] have "condition_of (c_Type c) cs = Some c" by (simp add: cond_set_def)
    then have "c \<in> set cs" by (simp add: condition_of_mem)
    with assms(2) show ?thesis by (simp add: own_conditions_def list_all_iff)
  qed (use assms(3) in simp)
  with u show ?thesis by (simp add: own_conditions_def list_all_iff)
qed

lemma own_two:
  assumes "own_conditions cs"
  shows "2 \<le> length cs \<longleftrightarrow> condition_of ConditionTypeCreate cs \<noteq> None \<and> condition_of ConditionTypeUpdate cs \<noteq> None"
proof -
  have types: "c_Type ` set cs \<subseteq> {ConditionTypeCreate, ConditionTypeUpdate}" and card: "card (c_Type ` set cs) = length cs"
    using assms by (auto simp: own_conditions_def list_all_iff unique_types_def distinct_map card_image distinct_card)
  have two: "card {ConditionTypeCreate, ConditionTypeUpdate} = 2" using type_neq by simp
  have "2 \<le> length cs \<longleftrightarrow> {ConditionTypeCreate, ConditionTypeUpdate} \<subseteq> c_Type ` set cs"
  proof
    assume "2 \<le> length cs"
    then have "c_Type ` set cs = {ConditionTypeCreate, ConditionTypeUpdate}" by (intro card_seteq [OF _ types]) (simp_all only: card two finite.intros)
    then show "{ConditionTypeCreate, ConditionTypeUpdate} \<subseteq> c_Type ` set cs" by (rule equalityD2)
  next
    assume "{ConditionTypeCreate, ConditionTypeUpdate} \<subseteq> c_Type ` set cs"
    from card_mono [OF _ this] show "2 \<le> length cs" by (simp only: card two finite_imageI finite_set)
  qed
  then show ?thesis by (simp only: condition_of_None insert_subset empty_subsetI not_not simp_thms)
qed

lemma own_not_failed:
  assumes "own_conditions (conds s)" "\<And>c. condition_of ConditionTypeCreate (conds s) = Some c \<Longrightarrow> \<not> failed_reason c"
    and "\<And>c. condition_of ConditionTypeUpdate (conds s) = Some c \<Longrightarrow> \<not> failed_reason c"
  shows "failedCondition s = None"
proof -
  have "\<not> failed_reason c" if c: "c \<in> set (conds s)" for c
  proof -
    have "condition_of (c_Type c) (conds s) = Some c" using assms(1) c by (auto simp: own_conditions_def intro: unique_condition_of)
    moreover have "c_Type c \<in> {ConditionTypeCreate, ConditionTypeUpdate}" using assms(1) c by (simp add: own_conditions_def list_all_iff)
    ultimately show ?thesis using assms(2,3) by auto
  qed
  then show ?thesis by (auto simp: failedCondition_def find_None_iff failed_reason_def)
qed

lemma own_initialised: "initialised cs cs' \<Longrightarrow> own_conditions cs \<Longrightarrow> own_conditions cs'"
  by (auto simp: initialised_def dest!: own_cond_set)

text \<open>The conditions after a successful sync of a changed state.\<close>

lemma marked_own:
  assumes "marked ct True cs cs'" "ct = ConditionTypeCreate \<or> ct = ConditionTypeUpdate" "own_conditions cs"
  shows "own_conditions cs'" "\<exists>c. condition_of ConditionTypeUpdate cs' = Some c \<and> \<not> failed_reason c"
    "ct = ConditionTypeUpdate \<Longrightarrow> condition_of ConditionTypeCreate cs' = condition_of ConditionTypeCreate cs"
    "ct = ConditionTypeCreate \<Longrightarrow> \<exists>c. condition_of ConditionTypeCreate cs' = Some c \<and> \<not> failed_reason c"
proof -
  show "own_conditions cs'" using assms own_cond_set type_neq by (auto simp: marked_def split: if_splits)
  show "\<exists>c. condition_of ConditionTypeUpdate cs' = Some c \<and> \<not> failed_reason c"
    using assms(1,2) type_neq by (auto simp: marked_def cond_set_def failed_reason_new)
  show "condition_of ConditionTypeCreate cs' = condition_of ConditionTypeCreate cs" if "ct = ConditionTypeUpdate"
    using assms(1) that type_neq by (auto simp: marked_def cond_set_def)
  show "\<exists>c. condition_of ConditionTypeCreate cs' = Some c \<and> \<not> failed_reason c" if "ct = ConditionTypeCreate"
    using assms(1) that type_neq by (fastforce simp: marked_def cond_set_def failed_reason_new)
qed

lemma initialised_create: "initialised cs cs' \<Longrightarrow> \<exists>c. condition_of ConditionTypeCreate cs' = Some c \<and> \<not> failed_reason c"
  using type_neq by (fastforce simp: initialised_def cond_set_def failed_reason_def FailedConditionsTriggeringRetry_def reason_defs)

text \<open>
  A successful Reconcile that ends with a status that has a new hash: that hash is the one of the state it has
  hashed, of the object that is still there, which has its two conditions and none that asks for a retry.
\<close>

lemma Reconcile_synced_status:
  assumes run: "run_state (Reconcile E req) (p, w) = (Ret None, (p', w'))" and read: "fst (Client_GetSecretSync E req (env_state w)) = Inr ss"
    and E: "status_stores E" "sets_condition E" and state: "fst (run_state (hashed_state E req) (p, w)) = Some (datamap, spc, s1)"
    and c: "trace w' = trace w @ pre @ [StatusUpdate s ok]" "st_SyncHash (ss_Status s) \<noteq> st_SyncHash (ss_Status ss)"
    and own: "own_conditions (conds ss)"
    and create: "st_SyncHash (ss_Status ss) = [] \<or> (\<forall>c. condition_of ConditionTypeCreate (conds ss) \<noteq> Some c \<or> \<not> failed_reason c)"
  shows "ok \<and> failedCondition s = None \<and> 2 \<le> length (conds s) \<and> stored_as ss (s\<lparr>ss_Status := ss_Status ss\<rparr>)
     \<and> computeCurrentStateHash (pbkdf2_Key E) datamap spc s = Inr (st_SyncHash (ss_Status s))"
  using run read status_stores_echo [OF E(1)]
proof (cases rule: Reconcile_object)
  case (synced pre0 s0 w1)
  have good: "good E ss" using E(2) own by (simp add: good_def own_conditions_def)
  have stored: "stored_as ss (s0\<lparr>ss_Status := ss_Status ss\<rparr>)"
  proof (cases "length (conds ss) < 2")
    case True
    define cs where "cs = conds s0"
    from True synced(7) E(1) have "stored_as (set_conditions cs ss) s0" by (auto simp: status_stores_def cs_def)
    then show ?thesis by (auto simp: stored_as_def set_conditions_def)
  qed (use synced(7) in \<open>simp add: stored_as_refl\<close>)
  have s0: "own_conditions (conds s0)" "condition_of ConditionTypeCreate (conds s0) \<noteq> None"
    "st_SyncHash (ss_Status ss) = [] \<or> (\<forall>c. condition_of ConditionTypeCreate (conds s0) \<noteq> Some c \<or> \<not> failed_reason c)"
    using synced(7) good own own_initialised initialised_create [of "conds ss" "conds s0"] own_two [OF own] create
    by (auto split: if_splits)
  from synced(2) show ?thesis
  proof (cases rule: synced_cases)
    case (written d c e q t h err qs files)
    have s: "d = datamap" "c = spc" "s0 = s1" "err = None" using written(5,9) synced(3) state by simp_all
    from run_write_back [OF written(8)] obtain ws where ws: "trace w' = trace t @ ws" and "wrote_back E s0 (condition_type ss) h d None ws"
      using s by blast
    from this(2) show ?thesis
    proof (cases rule: wrote_back_cases)
      case none
      have "pre0 @ qs = pre @ [StatusUpdate s ok]" using ws none(3) written(10) synced(1) c(1) by simp
      then have "StatusUpdate s ok \<in> set (pre0 @ qs)" by simp
      then show ?thesis using synced(7) written(11) c(2) by (auto simp: list_all_iff split: if_splits)
    next
      case (patched cs1 data now ok')
      have s': "s = set_sync h (Some now) (set_conditions cs1 s0)" "ok = ok'" using ws patched(5) written(10) synced(1) c by auto
      have h: "h \<noteq> st_SyncHash (ss_Status s0)" using c(2) s'(1) synced(4) by (simp add: set_sync_def)
      have ct: "condition_type ss = ConditionTypeCreate \<or> condition_type ss = ConditionTypeUpdate" by (simp add: condition_type_def)
      have m: "marked (condition_type ss) True (conds s0) cs1" using patched(2) h synced(6) good by simp
      note m = marked_own [OF m ct s0(1)]
      have cs: "conds s = cs1" by (simp add: s' set_sync_def)
      have cr: "\<exists>c. condition_of ConditionTypeCreate cs1 = Some c \<and> \<not> failed_reason c"
        using m(3,4) ct s0(2,3) by (auto simp: condition_type_def type_neq split: if_splits)
      have f: "failedCondition s = None" using m(1,2) cr by (intro own_not_failed) (auto simp: cs)
      have two: "2 \<le> length (conds s)" using own_two [OF m(1)] m(2) cr by (auto simp: cs)
      have "computeCurrentStateHash (pbkdf2_Key E) d c s = Inr h"
        using written(7) computeCurrentStateHash_cong [of s s0] by (simp add: s' set_sync_def)
      with f two s s' patched(4) stored show ?thesis by (simp add: set_sync_def set_conditions_def)
    qed simp
  qed (use synced(3) state in simp)
qed simp

text \<open>
  C10: Convergence. Take a successful Reconcile that ends with a status with a new hash, of an object with the
  conditions of the controller only, whose SecretCreated condition does not say that an already created Secret
  failed. Then that status was accepted; and the next Reconcile that reads the object with this status and hashes
  the same data and the same version of the class (as its state is hashed from what the provider delivers then)
  returns without error and writes nothing. The server stores what it is sent and conditions are set as documented.
\<close>

theorem Reconcile_converges:
  assumes "status_stores E" "sets_condition E"
    and "run_state (Reconcile E req) (p, w) = (Ret None, (p', w'))" "fst (Client_GetSecretSync E req (env_state w)) = Inr ss"
    and "fst (run_state (hashed_state E req) (p, w)) = Some (datamap, spc, s1)"
    and "trace w' = trace w @ pre @ [StatusUpdate s ok]" "st_SyncHash (ss_Status s) \<noteq> st_SyncHash (ss_Status ss)"
    and "own_conditions (conds ss)"
    and "st_SyncHash (ss_Status ss) = [] \<or> (\<forall>c. condition_of ConditionTypeCreate (conds ss) \<noteq> Some c \<or> \<not> failed_reason c)"
    and "fst (Client_GetSecretSync E req (env_state w2)) = Inr s2" "stored_as s s2"
    and "fst (run_state (hashed_state E req) (p2, w2)) = Some (datamap, spc2, s3)"
    and "om_UID (spc_Meta spc2) = om_UID (spc_Meta spc)" "om_Generation (spc_Meta spc2) = om_Generation (spc_Meta spc)"
    and "run_state (Reconcile E req) (p2, w2) = (r2, (p2', w2'))"
  shows "ok \<and> r2 = Ret None \<and> (\<exists>calls. trace w2' = trace w2 @ calls \<and> filter is_write calls = [])"
proof -
  note s = Reconcile_synced_status [OF assms(3,4,1,2,5-9)] and s2 = stored_as_fields [OF assms(11)]
  note echo = status_stores_echo [OF assms(1)]
  have two: "\<not> length (conds s2) < 2" and f: "failedCondition s2 = None" using s s2 by (simp_all add: failedCondition_def)
  have "s3 = s2" using assms(15,10) echo
  proof (cases rule: Reconcile_object)
    case (synced pre0 s0 w1)
    from synced(2) show ?thesis by (cases rule: synced_cases) (use synced(3,7) assms(12) two in simp_all)
  qed (use two in simp)
  have "computeCurrentStateHash (pbkdf2_Key E) datamap spc2 s2 = computeCurrentStateHash (pbkdf2_Key E) datamap spc s"
    using s2 assms(13,14) by (simp add: computeCurrentStateHash_def toHash_def)
  then have "computeCurrentStateHash (pbkdf2_Key E) datamap spc2 s3 = Inr (st_SyncHash (ss_Status s2))" using s s2 \<open>s3 = s2\<close> by simp
  from Reconcile_unchanged [OF assms(15,10) echo assms(12) this] f \<open>s3 = s2\<close> two s show ?thesis by simp
qed

text \<open>
  C32: A retry does not clear its condition. When the secret already exists, the data has not changed
  and a condition asks for a retry, a successful Reconcile writes the same conditions back: the
  failure stays in the status and every further Reconcile patches the secret again.
\<close>

theorem Reconcile_retry_stuck:
  assumes "run_state (Reconcile E req) (p, w) = (Ret None, (p', w'))"
    and "fst (Client_GetSecretSync E req (env_state w)) = Inr ss" "2 \<le> length (conds ss)" "good E ss"
    and "st_SyncHash (ss_Status ss) \<noteq> []"
    and "trace w' = trace w @ pre @ [StatusUpdate s ok]"
    and "st_SyncHash (ss_Status s) = st_SyncHash (ss_Status ss)"
  shows "conds s = conds ss \<and> failedCondition s = failedCondition ss \<and> failedCondition s \<noteq> None"
proof -
  obtain calls where c: "trace w' = trace w @ GetSecretSync req # calls"
    and sp: "sync_spec E req ss (condition_type ss) (Ret None) calls"
    using run_Reconcile_ready [OF assms(1-3)] by blast
  from c assms(6) obtain pre' where pre: "calls = pre' @ [StatusUpdate s ok]"
    by (cases pre) auto
  from sync_spec_success [OF sp pre] assms(4) obtain h now cs1 where
    s: "s = set_sync h (Some now) (set_conditions cs1 ss)"
    and f: "failedCondition ss \<noteq> None \<or> h \<noteq> st_SyncHash (ss_Status ss)"
    and m: "marked (condition_type ss) (h \<noteq> st_SyncHash (ss_Status ss)) (conds ss) cs1" by blast
  from s assms(7) have h: "h = st_SyncHash (ss_Status ss)" by (simp add: set_sync_def)
  have "condition_type ss \<noteq> ConditionTypeCreate"
    using assms(5) by (simp add: condition_type_def ConditionTypeCreate_def ConditionTypeUpdate_def)
  with m h have "cs1 = conds ss" by (simp add: marked_def)
  with s f h show ?thesis by (simp add: failedCondition_def set_sync_def)
qed

definition demo_failed :: SecretSyncStatus where
  "demo_failed = demo_synced\<lparr>st_Conditions := demo_conds ConditionTrue ConditionReasonCreateSuccessful ConditionMessageCreateSuccessful
     ConditionFalse ConditionReasonFailedProviderError ''unreachable''\<rparr>"

definition demo_stale :: SecretSyncStatus where
  "demo_stale = demo_synced\<lparr>st_SyncHash := ''v0:''\<rparr>"

lemma demo_retry:
  "\<exists>params. run_state (Reconcile (demo_env demo_failed (Some fmempty) None) demo_req) (demo_rc, demo_w0)
   = (Ret None, (demo_rc', \<lparr>env_state = 1, trace = demo_read @ demo_fetch_calls params
       @ [patch_call (demo_ss demo_failed) ''secret'' True, StatusUpdate (demo_ss demo_failed) True]\<rparr>))"
proof -
  have "2 \<le> length (st_Conditions demo_failed)" by (simp add: demo_failed_def demo_conds_def)
  from demo_Reconcile_ready [OF this, of None] obtain params where
    r: "run_state (Reconcile (demo_env demo_failed (Some fmempty) None) demo_req) (demo_rc, demo_w0)
   = (case run_state (write_back (demo_env demo_failed (Some fmempty) None) (demo_ss demo_failed)
        (condition_type (demo_ss demo_failed)) ''v1:'' fmempty)
        (demo_rc', \<lparr>env_state = 1, trace = demo_read @ demo_fetch_calls params\<rparr>) of (err, t) \<Rightarrow> (Ret err, t))" by blast
  show ?thesis
    by (rule exI [of _ params], subst r)
      (simp add: write_back_def demo_failed_def demo_synced_def Let_def mark_synced_def run_simps demo_env_def demo_conds_def
      serverSidePatchSecret_def update_status_def demo_tokens_def patch_call_def secretPatchData_def demo_ss_def set_sync_def
      failedCondition_def condition_type_def FailedConditionsTriggeringRetry_def reason_defs new_condition_def
      ConditionTypeCreate_def ConditionTypeUpdate_def)
qed

lemma demo_update:
  "\<exists>params. run_state (Reconcile (demo_env demo_stale (Some fmempty) None) demo_req) (demo_rc, demo_w0)
   = (Ret None, (demo_rc', \<lparr>env_state = 1, trace = demo_read @ demo_fetch_calls params
       @ [patch_call (demo_ss demo_stale) ''secret'' True, StatusUpdate (demo_ss demo_synced) True]\<rparr>))"
proof -
  have "2 \<le> length (st_Conditions demo_stale)" by (simp add: demo_stale_def demo_synced_def demo_conds_def)
  from demo_Reconcile_ready [OF this, of None] obtain params where
    r: "run_state (Reconcile (demo_env demo_stale (Some fmempty) None) demo_req) (demo_rc, demo_w0)
   = (case run_state (write_back (demo_env demo_stale (Some fmempty) None) (demo_ss demo_stale)
        (condition_type (demo_ss demo_stale)) ''v1:'' fmempty)
        (demo_rc', \<lparr>env_state = 1, trace = demo_read @ demo_fetch_calls params\<rparr>) of (err, t) \<Rightarrow> (Ret err, t))" by blast
  show ?thesis
    by (rule exI [of _ params], subst r)
      (simp add: write_back_def demo_stale_def demo_synced_def Let_def mark_synced_def run_simps demo_env_def
      updateStatusConditions_def set_condition_def demo_set_conds set_conditions_def
      serverSidePatchSecret_def update_status_def demo_tokens_def patch_call_def secretPatchData_def demo_ss_def set_sync_def
      condition_type_def type_neq)
qed

theorem Reconcile_retry_stuck_witness:
  "conds (demo_ss demo_failed) = conds (demo_ss demo_failed) \<and> failedCondition (demo_ss demo_failed) \<noteq> None"
proof -
  obtain params where r: "run_state (Reconcile (demo_env demo_failed (Some fmempty) None) demo_req) (demo_rc, demo_w0)
   = (Ret None, (demo_rc', \<lparr>env_state = 1, trace = demo_read @ demo_fetch_calls params
       @ [patch_call (demo_ss demo_failed) ''secret'' True, StatusUpdate (demo_ss demo_failed) True]\<rparr>))"
    using demo_retry by blast
  have 2: "2 \<le> length (conds (demo_ss demo_failed))" by (simp add: demo_failed_def demo_conds_def)
  have g: "good (demo_env demo_failed (Some fmempty) None) (demo_ss demo_failed)" by (simp add: demo_good demo_failed_def demo_unique)
  have n: "st_SyncHash (ss_Status (demo_ss demo_failed)) \<noteq> []" by (simp add: demo_failed_def demo_synced_def)
  from Reconcile_retry_stuck [OF r demo_get 2 g n, of
      "demo_read @ demo_fetch_calls params @ [patch_call (demo_ss demo_failed) ''secret'' True]" "demo_ss demo_failed" True]
  show ?thesis by simp
qed

text \<open>An update of the concrete object, and the Reconcile after it.\<close>

definition demo_next :: "nat controller_env" where
  "demo_next = (demo_env demo_stale (Some fmempty) None)\<lparr>Client_GetSecretSync := \<lambda>req w.
     (Inr (if w = 0 then demo_ss demo_stale else demo_ss demo_synced), w)\<rparr>"

lemma fetch_other_read:
  "fetchSecretsFromProvider (E\<lparr>Client_GetSecretSync := g\<rparr>) spc ss = fetchSecretsFromProvider E spc ss"
proof -
  have "provider_parameters (E\<lparr>Client_GetSecretSync := g\<rparr>) = provider_parameters E"
    by (intro ext) (simp add: provider_parameters_def cong: go.case_cong)
  then have "prepareCSIProviderParams (E\<lparr>Client_GetSecretSync := g\<rparr>) = prepareCSIProviderParams E"
    by (intro ext) (simp add: prepareCSIProviderParams_def cong: go.case_cong sum.case_cong)
  moreover have "build_data (E\<lparr>Client_GetSecretSync := g\<rparr>) = build_data E"
    by (intro ext) (simp add: build_data_def)
  ultimately show ?thesis by (simp add: fetchSecretsFromProvider_def cong: go.case_cong sum.case_cong)
qed

lemma demo_next_env:
  "fetchSecretsFromProvider demo_next = fetchSecretsFromProvider (demo_env demo_stale (Some fmempty) None)"
  "Client_GetSecretProviderClass demo_next = (\<lambda>key w. (Inr (demo_spc\<lparr>spc_Parameters := Some fmempty\<rparr>), w))"
  "Client_GetSecretSync demo_next = (\<lambda>req w. (Inr (if w = 0 then demo_ss demo_stale else demo_ss demo_synced), w))"
  "computeCurrentStateHash (pbkdf2_Key demo_next) d spc ss = Inr ''v1:''"
proof -
  show "fetchSecretsFromProvider demo_next = fetchSecretsFromProvider (demo_env demo_stale (Some fmempty) None)"
    by (intro ext) (simp add: demo_next_def fetch_other_read)
qed (simp_all add: demo_next_def demo_env_def demo_hash)

lemma demo_next_laws: "status_stores demo_next" "sets_condition demo_next"
  using demo_env_sets by (simp_all add: status_stores_def sets_condition_def demo_next_def demo_env_def stored_as_refl)

lemma demo_next_write:
  "run_state (write_back demo_next (demo_ss demo_stale) ConditionTypeUpdate ''v1:'' fmempty) (p, w)
   = (None, (p, w\<lparr>trace := trace w @ [patch_call (demo_ss demo_stale) ''secret'' True, StatusUpdate (demo_ss demo_synced) True]\<rparr>))"
  by (simp add: write_back_def demo_stale_def demo_synced_def Let_def mark_synced_def run_simps demo_next_def demo_env_def
      updateStatusConditions_def set_condition_def demo_set_conds set_conditions_def
      serverSidePatchSecret_def update_status_def demo_tokens_def patch_call_def secretPatchData_def demo_ss_def set_sync_def
      condition_type_def type_neq)

lemma demo_key: "spc_key demo_req (demo_ss st) = \<lparr>nn_Namespace = ''ns'', nn_Name = ''spc''\<rparr>"
  by (simp add: spc_key_def demo_req_def demo_ss_def)

lemma demo_next_first:
  "\<exists>params. run_state (Reconcile demo_next demo_req) (demo_rc, demo_w0)
   = (Ret None, (demo_rc', \<lparr>env_state = 1, trace = demo_read @ demo_fetch_calls params
       @ [patch_call (demo_ss demo_stale) ''secret'' True, StatusUpdate (demo_ss demo_synced) True]\<rparr>))
   \<and> fst (run_state (hashed_state demo_next demo_req) (demo_rc, demo_w0)) = Some (fmempty, demo_spc\<lparr>spc_Parameters := Some fmempty\<rparr>, demo_ss demo_stale)"
proof -
  let ?spc = "demo_spc\<lparr>spc_Parameters := Some fmempty\<rparr>"
  obtain params where f: "run_state (fetchSecretsFromProvider demo_next ?spc (demo_ss demo_stale)) (demo_rc, \<lparr>env_state = 0, trace = demo_read\<rparr>)
   = (Ret (Inr fmempty), (demo_rc', \<lparr>env_state = 1, trace = demo_read @ demo_fetch_calls params\<rparr>))" using demo_fetch unfolding demo_next_env by blast
  have l: "\<not> length (conds (demo_ss demo_stale)) < 2" "condition_type (demo_ss demo_stale) = ConditionTypeUpdate"
    by (simp_all add: demo_stale_def demo_synced_def demo_conds_def)
  show ?thesis using f [unfolded demo_read_def] l
    by (intro exI [of _ params]) (simp add: Reconcile_def reconcile_synced_def hashed_state_def hashed_class_def class_data_def run_simps
        Let_def demo_next_env(2-4) demo_valid demo_key demo_key [unfolded spc_key_def] demo_next_write demo_read_def)
qed

lemma demo_next_hashed:
  "fst (run_state (hashed_state demo_next demo_req) (demo_rc', \<lparr>env_state = 1, trace = tr\<rparr>))
   = Some (fmempty, demo_spc\<lparr>spc_Parameters := Some fmempty\<rparr>, demo_ss demo_synced)"
proof -
  let ?spc = "demo_spc\<lparr>spc_Parameters := Some fmempty\<rparr>"
  have "\<exists>t. run_state (fetchSecretsFromProvider demo_next ?spc (demo_ss demo_synced)) (demo_rc', w) = (Ret (Inr fmempty), t)" for w
    by (rule exI) (simp add: fetchSecretsFromProvider_def run_simps demo_next_def demo_env_def demo_spc_def demo_rc_def demo_rc'_def Get_def put_client_def
      prepareCSIProviderParams_def SecretProviderServiceAccountTokenAttrs_def provider_parameters_def map_assign_def
      MountContent_def Let_def demo_Mount build_data_def BuildKubeSecretData_def demo_ss_def version_map_def file_map_def)
  then obtain t where "run_state (fetchSecretsFromProvider demo_next ?spc (demo_ss demo_synced)) (demo_rc',
      \<lparr>env_state = 1, trace = tr @ [GetSecretSync demo_req, GetSecretProviderClass (spc_key demo_req (demo_ss demo_synced))]\<rparr>) = (Ret (Inr fmempty), t)" by blast
  then show ?thesis using demo_synced_conds(1)
    by (simp add: hashed_state_def hashed_class_def class_data_def run_simps demo_next_env(2-4) demo_valid not_less)
qed

theorem Reconcile_converges_witness:
  "\<exists>p w r2 p2 w2 calls. run_state (Reconcile demo_next demo_req) (demo_rc, demo_w0) = (Ret None, (p, w))
     \<and> run_state (Reconcile demo_next demo_req) (p, w) = (r2, (p2, w2)) \<and> r2 = Ret None
     \<and> trace w2 = trace w @ calls \<and> filter is_write calls = []"
proof -
  from demo_next_first obtain params where r: "run_state (Reconcile demo_next demo_req) (demo_rc, demo_w0)
   = (Ret None, (demo_rc', \<lparr>env_state = 1, trace = demo_read @ demo_fetch_calls params
       @ [patch_call (demo_ss demo_stale) ''secret'' True, StatusUpdate (demo_ss demo_synced) True]\<rparr>))" (is "_ = (_, (_, ?w))")
    and h: "fst (run_state (hashed_state demo_next demo_req) (demo_rc, demo_w0)) = Some (fmempty, demo_spc\<lparr>spc_Parameters := Some fmempty\<rparr>, demo_ss demo_stale)"
    by blast
  obtain r2 p2 w2 where r2: "run_state (Reconcile demo_next demo_req) (demo_rc', ?w) = (r2, (p2, w2))" by (rule run_obtain)
  have reads: "fst (Client_GetSecretSync demo_next demo_req (env_state demo_w0)) = Inr (demo_ss demo_stale)"
    "fst (Client_GetSecretSync demo_next demo_req (env_state ?w)) = Inr (demo_ss demo_synced)" by (simp_all add: demo_next_env)
  have c: "trace ?w = trace demo_w0 @ (demo_read @ demo_fetch_calls params @ [patch_call (demo_ss demo_stale) ''secret'' True]) @ [StatusUpdate (demo_ss demo_synced) True]"
    by simp
  have new: "st_SyncHash (ss_Status (demo_ss demo_synced)) \<noteq> st_SyncHash (ss_Status (demo_ss demo_stale))" by (simp add: demo_synced_def demo_stale_def)
  have own: "own_conditions (conds (demo_ss demo_stale))"
    by (simp add: own_conditions_def demo_stale_def demo_synced_def demo_unique) (simp add: demo_conds_def new_condition_def)
  have create: "st_SyncHash (ss_Status (demo_ss demo_stale)) = []
     \<or> (\<forall>c. condition_of ConditionTypeCreate (conds (demo_ss demo_stale)) \<noteq> Some c \<or> \<not> failed_reason c)"
    by (simp add: demo_stale_def demo_synced_def demo_conds_def new_condition_def failed_reason_new)
  from Reconcile_converges [OF demo_next_laws r reads(1) h c new own create reads(2) stored_as_refl demo_next_hashed refl refl r2] r r2
  show ?thesis by blast
qed

section \<open>Refinement\<close>

text \<open>
  C5: Reconcile refines its specification. Every run of the composed handler, whatever the cluster,
  the provider and the caches answer, has a result and a sequence of calls that the abstract relation
  \<open>reconcile_spec\<close> allows for the object the API server returned: unreadable object, failed or
  successful initialisation of the conditions, invalid metadata, missing class, failed fetch, crash of
  the fetch, or the write protocol (nothing, refused patch with roll-back, or patch then status).
\<close>

theorem Reconcile_refines:
  assumes "run_state (Reconcile E req) (p, w) = (r, (p', w'))"
  shows "\<exists>calls. trace w' = trace w @ calls
     \<and> reconcile_spec E req (fst (Client_GetSecretSync E req (env_state w))) r calls"
  using assms by (rule run_Reconcile)

theorem Reconcile_refines_witness:
  "\<exists>params. reconcile_spec (demo_env demo_stale (Some fmempty) None) demo_req (Inr (demo_ss demo_stale)) (Ret None)
     (demo_read @ demo_fetch_calls params
       @ [patch_call (demo_ss demo_stale) ''secret'' True, StatusUpdate (demo_ss demo_synced) True])"
proof -
  obtain params where r: "run_state (Reconcile (demo_env demo_stale (Some fmempty) None) demo_req) (demo_rc, demo_w0)
   = (Ret None, (demo_rc', \<lparr>env_state = 1, trace = demo_read @ demo_fetch_calls params
       @ [patch_call (demo_ss demo_stale) ''secret'' True, StatusUpdate (demo_ss demo_synced) True]\<rparr>))"
    using demo_update by blast
  from Reconcile_refines [OF r] show ?thesis by (auto simp: demo_env_def)
qed

section \<open>Errors\<close>

text \<open>
  Reserved metadata. An object whose secret asks for the reserved label (with a value) or the
  reserved annotation never gets further than its status: the only calls of Reconcile are the read
  of the object and one status write, with the hash it had and a condition that names the reason;
  no provider is contacted, no token is requested and nothing is patched.
\<close>

theorem Reconcile_reserved:
  assumes "run_state (Reconcile E req) (p, w) = (r, (p', w'))"
    and "fst (Client_GetSecretSync E req (env_state w)) = Inr ss" "2 \<le> length (conds ss)" "good E ss"
    and "validateLabelsAnnotations (sp_SecretObject (ss_Spec ss)) = Some (reason, err)"
  shows "r = Ret (Some err) \<and> (\<exists>s ok. trace w' = trace w @ [GetSecretSync req, StatusUpdate s ok]
     \<and> st_SyncHash (ss_Status s) = st_SyncHash (ss_Status ss)
     \<and> (\<exists>c. condition_of (condition_type ss) (conds s) = Some c \<and> c_Status c = ConditionFalse \<and> c_Reason c = reason))"
proof -
  obtain calls where c: "trace w' = trace w @ GetSecretSync req # calls"
    and "sync_spec E req ss (condition_type ss) r calls"
    using run_Reconcile_ready [OF assms(1-3)] by blast
  from this(2) assms(4,5) c show ?thesis
    by cases (auto simp: failed_write_def cond_set_def)
qed

definition demo_reserved :: SecretSync where
  "demo_reserved = (demo_ss demo_synced)\<lparr>ss_Spec := (ss_Spec (demo_ss demo_synced))\<lparr>
     sp_SecretObject := (sp_SecretObject (ss_Spec (demo_ss demo_synced)))\<lparr>so_Annotations := Some (fmupd controllerAnnotationKey [] fmempty)\<rparr>\<rparr>\<rparr>"

theorem Reconcile_reserved_witness:
  "fst (run_state (Reconcile ((demo_env demo_synced (Some fmempty) None)\<lparr>Client_GetSecretSync := \<lambda>req w. (Inr demo_reserved, w)\<rparr>)
     demo_req) (demo_rc, demo_w0)) = Ret (Some errReservedAnnotation)"
proof -
  let ?E = "(demo_env demo_synced (Some fmempty) None)\<lparr>Client_GetSecretSync := \<lambda>req w. (Inr demo_reserved, w)\<rparr>"
  obtain r p' w' where r: "run_state (Reconcile ?E demo_req) (demo_rc, demo_w0) = (r, (p', w'))" by (rule run_obtain)
  have g: "fst (Client_GetSecretSync ?E demo_req (env_state demo_w0)) = Inr demo_reserved" by simp
  have c: "conds demo_reserved = conds (demo_ss demo_synced)" by (simp add: demo_reserved_def demo_ss_def)
  have 2: "2 \<le> length (conds demo_reserved)" by (simp add: c demo_synced_def demo_conds_def)
  have "sets_condition ?E" using demo_env_sets [of demo_synced "Some fmempty" None]
    by (simp add: sets_condition_def)
  then have o: "good ?E demo_reserved" by (simp add: good_def c demo_synced_def demo_unique)
  have v: "validateLabelsAnnotations (sp_SecretObject (ss_Spec demo_reserved))
      = Some (ConditionReasonFailedInvalidAnnotationError, errReservedAnnotation)"
    by (simp add: validateLabelsAnnotations_def nil_lookup_def demo_reserved_def demo_ss_def)
  from Reconcile_reserved [OF r g 2 o v] r show ?thesis by simp
qed

lemma sync_spec_error:
  assumes "sync_spec E req ss ct (Ret (Some err)) calls" "good E ss"
  shows "\<exists>pre s ok. calls = pre @ [StatusUpdate s ok] \<and> ((\<exists>cs. s = set_conditions cs ss) \<and> (\<exists>c. condition_of ct (conds s) = Some c \<and> c_Status c = ConditionFalse \<and> failed_reason c)
        \<or> (\<exists>pre' data. pre = pre' @ [patch_call ss data True] \<and> \<not> ok))"
  using assms(1)
proof cases
  case (invalid reason s ok)
  then have "reason \<in> set FailedConditionsTriggeringRetry"
    by (auto simp: validateLabelsAnnotations_def FailedConditionsTriggeringRetry_def split: if_splits)
  with invalid assms(2) show ?thesis
    by (intro exI [of _ "[]"] exI [of _ s] exI [of _ ok]) (auto simp: failed_write_def cond_set_def failed_reason_def)
next
  case (no_spc s ok)
  with assms(2) show ?thesis
    by (intro exI [of _ "[GetSecretProviderClass (spc_key req ss)]"] exI [of _ s] exI [of _ ok])
      (auto simp: failed_write_def cond_set_def failed_reason_new)
next
  case (no_data qs reason s ok)
  then have "reason \<in> set FailedConditionsTriggeringRetry"
    by (auto simp: fetch_reasons_def FailedConditionsTriggeringRetry_def)
  with no_data assms(2) show ?thesis
    by (intro exI [of _ "GetSecretProviderClass (spc_key req ss) # qs"] exI [of _ s] exI [of _ ok])
      (auto simp: failed_write_def cond_set_def failed_reason_def)
next
  case (written qs files datamap spc h ws)
  from written(6) show ?thesis
  proof (cases rule: wrote_back_cases)
    case (patched cs1 data now ok)
    with written(1) show ?thesis
      by (intro exI [of _ "GetSecretProviderClass (spc_key req ss) # qs @ [patch_call ss data True]"] exI
          [of _ "set_sync h (Some now) (set_conditions cs1 ss)"] exI [of _ ok]) auto
  next
    case (failed cs1 cs2 e pre ok)
    with written(1) assms(2) show ?thesis
      by (intro exI [of _ "GetSecretProviderClass (spc_key req ss) # qs @ pre"] exI
          [of _ "set_conditions cs2 ss"] exI [of _ ok]) (auto simp: cond_set_def failed_reason_new)
  qed simp
qed simp

lemma stored_patch_call: "stored_as s s' \<Longrightarrow> patch_call s' data ok = patch_call s data ok"
  by (simp add: patch_call_def stored_as_fields)

text \<open>
  C11: What an error leaves behind. Whenever Reconcile returns an error for an object it could read, new or
  known, its last call is a status update, and it is one of three. It has the hash and the time that were
  read and a condition of the current operation with status False and one of the reasons that make the
  controller try again (whether the server accepts this update is not looked at); or it is the refused
  status update right after a successful patch of the object's Secret; or it is the refused update with the initial
  conditions of an object that had fewer than two.
\<close>

theorem Reconcile_error_recorded:
  assumes "run_state (Reconcile E req) (p, w) = (Ret (Some err), (p', w'))" "fst (Client_GetSecretSync E req (env_state w)) = Inr ss"
    and "status_stores E" "good E ss"
  shows "\<exists>pre s ok. trace w' = trace w @ pre @ [StatusUpdate s ok]
     \<and> (st_SyncHash (ss_Status s) = st_SyncHash (ss_Status ss)
          \<and> st_LastSuccessfulSyncTime (ss_Status s) = st_LastSuccessfulSyncTime (ss_Status ss)
          \<and> (\<exists>c. condition_of (condition_type ss) (conds s) = Some c \<and> c_Status c = ConditionFalse \<and> failed_reason c)
        \<or> (\<exists>pre' data. pre = pre' @ [patch_call ss data True] \<and> \<not> ok)
        \<or> length (conds ss) < 2 \<and> pre = [GetSecretSync req] \<and> \<not> ok
          \<and> (\<exists>cs. s = set_conditions cs ss \<and> initialised (conds ss) cs))"
  using assms(1,2) status_stores_echo [OF assms(3)]
proof (cases rule: Reconcile_object)
  case (refused cs err)
  then show ?thesis using assms(4)
    by (intro exI [of _ "[GetSecretSync req]"] exI [of _ "set_conditions cs ss"] exI [of _ False]) auto
next
  case (synced pre0 s1 w1)
  from run_reconcile_synced [OF synced(2)] obtain calls where c: "trace w' = trace w1 @ calls"
    and sp: "sync_spec E req s1 (condition_type ss) (Ret (Some err)) calls" by blast
  have "good E s1" using synced(6) assms(4) by simp
  from sync_spec_error [OF sp this] obtain pre s ok where e: "calls = pre @ [StatusUpdate s ok]"
    and "(\<exists>cs. s = set_conditions cs s1) \<and> (\<exists>c. condition_of (condition_type ss) (conds s) = Some c \<and> c_Status c = ConditionFalse \<and> failed_reason c)
        \<or> (\<exists>pre' data. pre = pre' @ [patch_call s1 data True] \<and> \<not> ok)" by blast
  moreover have "patch_call s1 data True = patch_call ss data True" for data
  proof (cases "length (conds ss) < 2")
    case True
    with synced(7) assms(3) have "stored_as (set_conditions (conds s1) ss) s1" by (auto simp: status_stores_def)
    from stored_patch_call [OF this] show ?thesis by simp
  qed (use synced(7) in simp)
  moreover have "trace w' = trace w @ (pre0 @ pre) @ [StatusUpdate s ok]" using c e synced(1) by simp
  ultimately show ?thesis using synced(4,5)
    by (intro exI [of _ "pre0 @ pre"] exI [of _ s] exI [of _ ok]) (auto simp: set_conditions_def)
qed

lemma demo_stores: "status_stores (demo_env st params patchErr)"
  by (simp add: status_stores_def demo_env_def stored_as_refl)

theorem Reconcile_error_recorded_witness:
  "\<exists>pre s ok. trace (snd (snd (run_state (Reconcile (demo_env demo_status0 (Some fmempty) (Some (ErrorString ''no''))) demo_req)
      (demo_rc, demo_w0)))) = pre @ [StatusUpdate s ok]
     \<and> (\<exists>c. condition_of ConditionTypeCreate (conds s) = Some c \<and> c_Status c = ConditionFalse \<and> failed_reason c)"
proof -
  let ?E = "demo_env demo_status0 (Some fmempty) (Some (ErrorString ''no''))"
  obtain params s0 where r: "run_state (Reconcile ?E demo_req) (demo_rc, demo_w0)
   = (Ret (Some (ErrorString ''no'')), (demo_rc', \<lparr>env_state = 1, trace = demo_before @ demo_fetch_calls params
       @ [patch_call (demo_ss demo_inited) ''secret'' False, StatusUpdate s0 True]\<rparr>))" using demo_first_refused by blast
  have c: "condition_type (demo_ss demo_status0) = ConditionTypeCreate" by (simp add: demo_status0_def)
  from Reconcile_error_recorded [OF r demo_get demo_stores demo_good0] r c show ?thesis by (fastforce simp: patch_call_def)
qed

section \<open>What the provider and the cluster are told\<close>

text \<open>
  The parameters sent to the provider. The pod and service account attributes always come from
  the controller and its SecretSync, whatever the SecretProviderClass says; the token attribute comes
  from the token manager when there are audiences, and only without audiences from the class; all
  other parameters are those of the class.
\<close>

lemma provider_parameters_lookup:
  assumes "provider_parameters E spc namespace sa attrs = Ret params"
    and "attrs = None \<or> (\<exists>tokens. attrs = Some (fmupd tokensKey tokens fmempty))"
  shows "fmlookup params k =
     (if k = csiPodName then Some (Getenv E syncControllerPodName)
      else if k = csiPodUID then Some (Getenv E syncControllerPodUID)
      else if k = csiPodNamespace then Some namespace
      else if k = csiPodServiceAccountName then Some sa
      else if k = csiPodServiceAccountTokens \<and> attrs \<noteq> None then fmlookup (the attrs) tokensKey
      else fmlookup (the (spc_Parameters spc)) k)"
proof -
  have keys: "csiPodUID \<noteq> csiPodName" "csiPodNamespace \<noteq> csiPodName" "csiPodNamespace \<noteq> csiPodUID"
    "csiPodServiceAccountName \<noteq> csiPodName" "csiPodServiceAccountName \<noteq> csiPodUID"
    "csiPodServiceAccountName \<noteq> csiPodNamespace"
    "csiPodServiceAccountTokens \<noteq> csiPodName" "csiPodServiceAccountTokens \<noteq> csiPodUID"
    "csiPodServiceAccountTokens \<noteq> csiPodNamespace" "csiPodServiceAccountTokens \<noteq> csiPodServiceAccountName"
    by (simp_all add: csiPodName_def csiPodUID_def csiPodNamespace_def csiPodServiceAccountName_def
        csiPodServiceAccountTokens_def)
  have tk: "tokensKey = csiPodServiceAccountTokens" by (simp add: csiPodServiceAccountTokens_def tokensKey_def)
  obtain m where "spc_Parameters spc = Some m"
    using assms(1) by (auto simp: provider_parameters_def map_assign_def split: option.splits)
  with assms show ?thesis
    by (auto simp: provider_parameters_def map_assign_def Let_def tk keys keys [symmetric])
qed

text \<open>
  C35: A SecretProviderClass without parameters crashes the fetch: the clone of a nil map is nil, and
  the first assignment to it panics, once a client for the provider and the tokens are there.
\<close>

theorem nil_parameters_panic:
  assumes "spc_Parameters spc = None"
    and "run_state (Get (providerEnv E) (spc_Provider spc)) (rc_ProviderClients p, w) = (Inr client, (pcb, w1))"
    and "run_state (SecretProviderServiceAccountTokenAttrs (tokenEnv E) (om_Namespace (ss_Meta ss)) (sp_ServiceAccountName (ss_Spec ss))
        (rc_Audiences p)) (rc_TokenCache p, w1) = (Inr attrs, (m, w2))"
  shows "fst (run_state (fetchSecretsFromProvider E spc ss) (p, w)) = Panic ''assignment to entry in nil map''"
  using assms
  by (simp add: fetchSecretsFromProvider_def prepareCSIProviderParams_def run_simps provider_parameters_def map_assign_def)

theorem nil_parameters_panic_witness:
  "fst (run_state (fetchSecretsFromProvider (demo_env demo_synced None None) (demo_spc\<lparr>spc_Parameters := None\<rparr>) (demo_ss demo_synced))
     (demo_rc, demo_w0)) = Panic ''assignment to entry in nil map''"
proof -
  have p: "providerEnv (demo_env demo_synced None None) = demo_provider" "spc_Provider (demo_spc\<lparr>spc_Parameters := None\<rparr>) = ''a''"
    "rc_ProviderClients demo_rc = NewPluginClientBuilder [''/p''] []" "rc_Audiences demo_rc = []"
    by (simp_all add: demo_env_def demo_spc_def demo_rc_def)
  show ?thesis
    by (rule nil_parameters_panic) (simp_all add: p demo_Get_from SecretProviderServiceAccountTokenAttrs_def)
qed

end
