(* ===== verification/Driver.thy ===== *)
theory Driver
  imports SyncProtocol
begin

text \<open>
  What drives Reconcile: the event filter, the set-up and the polling loop of
  \<^verbatim>\<open>internal/controller/secretsync_controller.go\<close>, and the process around them, \<^verbatim>\<open>cmd/main.go\<close> and
  \<^verbatim>\<open>pkg/version/version.go\<close>.
\<close>

section \<open>Events\<close>

datatype event =
    CreateEvent SecretSync
  | UpdateEvent SecretSync SecretSync
  | DeleteEvent SecretSync
  | GenericEvent SecretSync

definition processIfSecretChanged :: "SecretSync \<Rightarrow> SecretSync \<Rightarrow> bool" where
  "processIfSecretChanged ssOldObj ssNewObj = (om_Generation (ss_Meta ssOldObj) \<noteq> om_Generation (ss_Meta ssNewObj))"

fun shouldReconcilePredicate :: "event \<Rightarrow> bool" where
  "shouldReconcilePredicate (CreateEvent ss) = True"
| "shouldReconcilePredicate (UpdateEvent old new) = processIfSecretChanged old new"
| "shouldReconcilePredicate (DeleteEvent ss) = False"
| "shouldReconcilePredicate (GenericEvent ss) = True"

text \<open>
  Set-up: watched objects go through the filter; with a positive interval the polled objects come in
  by a channel that does not. \<open>mgr_Add\<close> and \<open>builder_Complete\<close> are what controller-runtime answers.
\<close>

record manager_env =
  mgr_Add :: "error option"
  builder_Complete :: "error option"

record controller_setup =
  su_filter :: "event \<Rightarrow> bool"
  su_polling :: bool

definition SetupWithManager :: "manager_env \<Rightarrow> int64 \<Rightarrow> error + controller_setup" where
  "SetupWithManager M secretsPollingInterval =
     (if 0 <s secretsPollingInterval then
        (case mgr_Add M of
           Some err \<Rightarrow> Inl err
         | None \<Rightarrow> (case builder_Complete M of
             Some err \<Rightarrow> Inl err
           | None \<Rightarrow> Inr \<lparr>su_filter = shouldReconcilePredicate, su_polling = True\<rparr>))
      else (case builder_Complete M of
          Some err \<Rightarrow> Inl err
        | None \<Rightarrow> Inr \<lparr>su_filter = shouldReconcilePredicate, su_polling = False\<rparr>))"

section \<open>Polling\<close>

text \<open>
  The polling function as a state machine over its channel. \<open>Starting\<close> waits for the caches,
  \<open>Waiting\<close> is the outer select, \<open>Sending\<close> the inner loop over the items not yet sent, \<open>Stopped\<close>
  the return. The channel is a queue of at most 1024 objects; the controller receives from it. The
  context can be cancelled at any time. Ghosts: all objects listed so far, and all received.
\<close>

definition channelCapacity :: nat where "channelCapacity = 1024"

definition errCacheSync :: error where
  "errCacheSync = ErrorString ''timed out waiting for cache sync''"

datatype poll_pc = Starting | Waiting | Sending "SecretSync list" | Stopped "error option"

record poller =
  po_pc :: poll_pc
  po_chan :: "SecretSync list"
  po_closed :: bool
  po_done :: bool
  po_listed :: "SecretSync list"
  po_received :: "SecretSync list"

inductive poll_step :: "poller \<Rightarrow> poller \<Rightarrow> bool" where
  no_sync: "po_pc s = Starting \<Longrightarrow> poll_step s (s\<lparr>po_pc := Stopped (Some errCacheSync), po_closed := True\<rparr>)"
| synced: "po_pc s = Starting \<Longrightarrow> poll_step s (s\<lparr>po_pc := Waiting\<rparr>)"
| list_failed: "po_pc s = Waiting \<Longrightarrow> poll_step s s"
| tick: "po_pc s = Waiting
    \<Longrightarrow> poll_step s (s\<lparr>po_pc := Sending (sl_Items (ssList :: SecretSyncList)), po_listed := po_listed s @ sl_Items ssList\<rparr>)"
| send: "po_pc s = Sending (x # xs) \<Longrightarrow> length (po_chan s) < channelCapacity
    \<Longrightarrow> poll_step s (s\<lparr>po_pc := Sending xs, po_chan := po_chan s @ [x]\<rparr>)"
| sent: "po_pc s = Sending [] \<Longrightarrow> poll_step s (s\<lparr>po_pc := Waiting\<rparr>)"
| stop_sending: "po_pc s = Sending (x # xs) \<Longrightarrow> po_done s
    \<Longrightarrow> poll_step s (s\<lparr>po_pc := Stopped None, po_closed := True\<rparr>)"
| stop_waiting: "po_pc s = Waiting \<Longrightarrow> po_done s
    \<Longrightarrow> poll_step s (s\<lparr>po_pc := Stopped None, po_closed := True\<rparr>)"
| cancel: "poll_step s (s\<lparr>po_done := True\<rparr>)"
| receive: "po_chan s = x # xs
    \<Longrightarrow> poll_step s (s\<lparr>po_chan := xs, po_received := po_received s @ [x]\<rparr>)"

definition poll_init :: "poller \<Rightarrow> bool" where
  "poll_init s \<longleftrightarrow> s = \<lparr>po_pc = Starting, po_chan = [], po_closed = False, po_done = False, po_listed = [], po_received = []\<rparr>"

definition pending :: "poll_pc \<Rightarrow> SecretSync list" where
  "pending pc = (case pc of Sending xs \<Rightarrow> xs | _ \<Rightarrow> [])"

definition is_stopped :: "poll_pc \<Rightarrow> bool" where
  "is_stopped pc = (case pc of Stopped _ \<Rightarrow> True | _ \<Rightarrow> False)"

definition poll_inv :: "poller \<Rightarrow> bool" where
  "poll_inv s \<longleftrightarrow> length (po_chan s) \<le> channelCapacity
     \<and> (po_closed s \<longleftrightarrow> is_stopped (po_pc s))
     \<and> (\<exists>lost. po_received s @ po_chan s @ pending (po_pc s) @ lost = po_listed s \<and> (lost = [] \<or> is_stopped (po_pc s)))"

lemma poll_inv_step: "poll_step s t \<Longrightarrow> poll_inv s \<Longrightarrow> poll_inv t"
  by (induction rule: poll_step.induct) (auto simp: poll_inv_def pending_def is_stopped_def intro: exI [of _ "[]"])

interpretation polling: invariant_system poll_init poll_step poll_inv
proof
  show "poll_inv s" if "poll_init s" for s
    using that by (simp add: poll_init_def poll_inv_def pending_def is_stopped_def)
  show "poll_inv t" if "poll_inv s" "poll_step s t" for s t
    using that poll_inv_step by blast
qed

text \<open>
  C22: Polling loses nothing and never panics. In every reachable state the channel holds at most
  1024 objects and is closed exactly when the polling function has returned, so nothing is ever sent
  on a closed channel; and until the poller stops, the objects received, those in the channel and
  those still to be sent are, in order, exactly the objects listed so far.
\<close>

theorem polling_delivers:
  assumes "reach poll_init poll_step s"
  shows "length (po_chan s) \<le> channelCapacity \<and> (po_closed s \<longleftrightarrow> is_stopped (po_pc s))
     \<and> (\<exists>lost. po_received s @ po_chan s @ pending (po_pc s) @ lost = po_listed s
          \<and> (if is_stopped (po_pc s) then True else lost = []))"
  using polling.reach_inv [OF assms] by (auto simp: poll_inv_def)

definition demo_polled :: poller where
  "demo_polled = \<lparr>po_pc = Sending [demo_ss demo_synced], po_chan = [], po_closed = False, po_done = False,
     po_listed = [demo_ss demo_synced], po_received = []\<rparr>"

lemma demo_polled_reached: "reach poll_init poll_step demo_polled"
proof -
  let ?x = "demo_ss demo_synced"
  let ?l = "\<lparr>sl_TypeMeta = ss_TypeMeta ?x, sl_ListMeta = \<lparr>lm_SelfLink = [], lm_ResourceVersion = ''7'', lm_Continue = [],
    lm_RemainingItemCount = None\<rparr>, sl_Items = [?x]\<rparr>"
  let ?s0 = "\<lparr>po_pc = Starting, po_chan = [], po_closed = False, po_done = False, po_listed = [], po_received = []\<rparr>"
  have "reach poll_init poll_step ?s0" by (rule reach_init) (simp add: poll_init_def)
  then have "reach poll_init poll_step (?s0\<lparr>po_pc := Waiting\<rparr>)" by (rule reach_step) (rule synced, simp)
  then have "reach poll_init poll_step (?s0\<lparr>po_pc := Waiting, po_pc := Sending (sl_Items ?l),
      po_listed := po_listed (?s0\<lparr>po_pc := Waiting\<rparr>) @ sl_Items ?l\<rparr>)" by (rule reach_step) (rule tick, simp)
  then show ?thesis by (simp add: demo_polled_def)
qed

theorem polling_delivers_witness:
  "reach poll_init poll_step demo_polled
     \<and> (\<exists>lost. po_received demo_polled @ po_chan demo_polled @ pending (po_pc demo_polled) @ lost = po_listed demo_polled)"
  using polling_delivers [OF demo_polled_reached] demo_polled_reached by blast

text \<open>
  The steps in which the poller and the controller work off what was listed: a send, a receive, the
  end of the inner loop. They are the steps that leave less work and do not stop the poller.
\<close>

definition work :: "poller \<Rightarrow> nat" where
  "work s = length (po_chan s) + (case po_pc s of Sending xs \<Rightarrow> 2 * length xs + 1 | _ \<Rightarrow> 0)"

definition deliver_step :: "poller \<Rightarrow> poller \<Rightarrow> bool" where
  "deliver_step s t \<longleftrightarrow> poll_step s t \<and> work t < work s \<and> \<not> is_stopped (po_pc t)"

inductive_cases poll_stepE: "poll_step s t"

lemma deliver_kept:
  assumes "deliver_step s t"
  shows "po_listed t = po_listed s \<and> (po_pc t = Starting \<longrightarrow> po_pc s = Starting)"
proof -
  have "poll_step s t" "work t < work s" "\<not> is_stopped (po_pc t)" using assms by (auto simp: deliver_step_def)
  then show ?thesis by (elim poll_stepE) (auto simp: work_def is_stopped_def)
qed

lemma deliver_possible:
  assumes "\<not> is_stopped (po_pc s)" "po_pc s \<noteq> Starting" "po_pc s \<noteq> Waiting \<or> po_chan s \<noteq> []"
  shows "\<exists>t. deliver_step s t"
proof (cases "po_chan s")
  case (Cons x xs)
  then show ?thesis using receive [OF Cons] assms(1) by (intro exI) (auto simp: deliver_step_def work_def)
next
  case Nil
  with assms obtain ys where pc: "po_pc s = Sending ys" by (cases "po_pc s") (auto simp: is_stopped_def)
  show ?thesis
  proof (cases ys)
    case Nil
    then show ?thesis using sent [of s] pc by (intro exI) (auto simp: deliver_step_def work_def is_stopped_def)
  next
    case (Cons y ys')
    then show ?thesis using send [of s y ys'] pc \<open>po_chan s = []\<close>
      by (intro exI) (auto simp: deliver_step_def work_def is_stopped_def channelCapacity_def)
  qed
qed

lemma deliver_runs:
  assumes "deliver_step\<^sup>*\<^sup>* s t" "reach poll_init poll_step s" "\<not> is_stopped (po_pc s)" "po_pc s \<noteq> Starting"
  shows "reach poll_init poll_step t \<and> po_listed t = po_listed s \<and> \<not> is_stopped (po_pc t) \<and> po_pc t \<noteq> Starting"
  using assms
proof (induction rule: rtranclp_induct)
  case (step t u)
  with deliver_kept [OF step.hyps(2)] show ?case by (auto simp: deliver_step_def intro: reach_step)
qed simp

lemma deliver_ends: "\<exists>t. deliver_step\<^sup>*\<^sup>* s t \<and> \<not> (\<exists>u. deliver_step t u)"
proof (induction s rule: measure_induct_rule [of work])
  case (less s)
  show ?case
  proof (cases "\<exists>u. deliver_step s u")
    case True
    then obtain u where u: "deliver_step s u" ..
    then have "work u < work s" by (simp add: deliver_step_def)
    from less [OF this] obtain t where "deliver_step\<^sup>*\<^sup>* u t" "\<not> (\<exists>v. deliver_step t v)" by blast
    with u show ?thesis by (meson converse_rtranclp_into_rtranclp)
  qed auto
qed

text \<open>
  C23: Polled objects reach the controller. Once the caches are synced and while the poller is not
  stopped, sending and receiving go on, in any order, until nothing is left to do, which is after
  finitely many steps, however long the list and however full the channel; and then the poller waits
  for its next tick, the channel is empty and every object listed so far has been received, in order.
\<close>

theorem polling_drains:
  assumes "reach poll_init poll_step s" "\<not> is_stopped (po_pc s)" "po_pc s \<noteq> Starting"
  shows "(\<exists>t. deliver_step\<^sup>*\<^sup>* s t \<and> \<not> (\<exists>u. deliver_step t u))
     \<and> (\<forall>t. deliver_step\<^sup>*\<^sup>* s t \<longrightarrow> (\<exists>u. deliver_step t u)
          \<or> po_pc t = Waiting \<and> po_chan t = [] \<and> po_received t = po_listed s)"
proof -
  have "po_pc t = Waiting \<and> po_chan t = [] \<and> po_received t = po_listed s"
    if t: "deliver_step\<^sup>*\<^sup>* s t" and stuck: "\<not> (\<exists>u. deliver_step t u)" for t
  proof -
    note r = deliver_runs [OF t assms]
    with deliver_possible [of t] stuck have "po_pc t = Waiting" "po_chan t = []" by auto
    with polling.reach_inv [of t] r show ?thesis by (auto simp: poll_inv_def pending_def is_stopped_def)
  qed
  with deliver_ends show ?thesis by blast
qed

theorem polling_drains_witness:
  "\<exists>t. deliver_step\<^sup>*\<^sup>* demo_polled t \<and> po_pc t = Waiting \<and> po_chan t = [] \<and> po_received t = [demo_ss demo_synced]"
  using polling_drains [OF demo_polled_reached] by (auto simp: demo_polled_def is_stopped_def)

section \<open>Which events lead to a Reconcile\<close>

text \<open>
  The controller's own status writes do not wake it up: an update event whose objects have the
  same generation is filtered out, as is a deletion, while a creation and every change of the spec
  (a new generation) pass, and so does every polled object.
\<close>

theorem reconcile_triggers:
  "shouldReconcilePredicate (UpdateEvent ss (ss\<lparr>ss_Status := st\<rparr>)) = False
   \<and> shouldReconcilePredicate (DeleteEvent ss) = False
   \<and> shouldReconcilePredicate (CreateEvent ss) \<and> shouldReconcilePredicate (GenericEvent ss)
   \<and> (om_Generation (ss_Meta old) \<noteq> om_Generation (ss_Meta new) \<longleftrightarrow> shouldReconcilePredicate (UpdateEvent old new))
   \<and> (case SetupWithManager M interval of Inl _ \<Rightarrow> True
      | Inr s \<Rightarrow> su_filter s = shouldReconcilePredicate \<and> (su_polling s \<longleftrightarrow> 0 < sint interval))"
  by (auto simp: processIfSecretChanged_def SetupWithManager_def word_sless_alt split: option.splits)

section \<open>Version\<close>

record build_info =
  bi_Vcs :: string
  bi_BuildTime :: string
  bi_BuildVersion :: string
  bi_GOOS :: string
  bi_GOARCH :: string

definition GetUserAgent :: "build_info \<Rightarrow> string \<Rightarrow> string" where
  "GetUserAgent b controllerName = ''secrets-store-sync-controller/'' @ controllerName @ ''/'' @ bi_BuildVersion b
     @ '' ('' @ bi_GOOS b @ ''/'' @ bi_GOARCH b @ '') '' @ bi_Vcs b @ ''/'' @ bi_BuildTime b"

text \<open>What is printed; marshalling three strings cannot fail.\<close>

definition PrintVersion :: "build_info \<Rightarrow> string" where
  "PrintVersion b = CHR 0x7B # json_string ''BuildVersion'' @ '':'' @ json_string (bi_BuildVersion b) @ '',''
     @ json_string ''GitCommit'' @ '':'' @ json_string (bi_Vcs b) @ '',''
     @ json_string ''BuildDate'' @ '':'' @ json_string (bi_BuildTime b) @ [CHR 0x7D, CHR 10]"

section \<open>The process\<close>

record flags =
  fl_metricsAddr :: string
  fl_enableLeaderElection :: bool
  fl_leaderElectionNamespace :: string
  fl_probeAddr :: string
  fl_tokenRequestAudiences :: string
  fl_providerVolumePath :: string
  fl_rotationPollInterval :: int64
  fl_maxCallRecvMsgSize :: int64
  fl_versionInfo :: bool

definition default_flags :: flags where
  "default_flags = \<lparr>fl_metricsAddr = '':8085'', fl_enableLeaderElection = False, fl_leaderElectionNamespace = [],
     fl_probeAddr = '':8081'', fl_tokenRequestAudiences = [], fl_providerVolumePath = ''/provider'',
     fl_rotationPollInterval = 12 * 3600 * Second, fl_maxCallRecvMsgSize = 1024 * 1024 * 4, fl_versionInfo = False\<rparr>"

text \<open>What the manager is created with.\<close>

record manager_options =
  mo_UserAgent :: string
  mo_MetricsBindAddress :: string
  mo_HealthProbeBindAddress :: string
  mo_LeaderElection :: bool
  mo_LeaderElectionID :: string
  mo_LeaderElectionNamespace :: string

definition make_options :: "build_info \<Rightarrow> flags \<Rightarrow> manager_options" where
  "make_options b f = \<lparr>mo_UserAgent = GetUserAgent b ''secrets-store-sync-controller'',
     mo_MetricsBindAddress = fl_metricsAddr f, mo_HealthProbeBindAddress = fl_probeAddr f,
     mo_LeaderElection = fl_enableLeaderElection f, mo_LeaderElectionID = ''29f1d54e.secret-sync.x-k8s.io'',
     mo_LeaderElectionNamespace = fl_leaderElectionNamespace f\<rparr>"

definition parse_audiences :: "string \<Rightarrow> string list" where
  "parse_audiences tokenRequestAudiences =
     (if tokenRequestAudiences = [] then [] else Split CHR '','' tokenRequestAudiences)"

definition grpc_options :: "flags \<Rightarrow> DialOption list" where
  "grpc_options f = [WithDefaultCallOptions [MaxCallRecvMsgSize (fl_maxCallRecvMsgSize f)]]"

definition make_reconciler :: "flags \<Rightarrow> SecretSyncReconciler" where
  "make_reconciler f = \<lparr>rc_Audiences = parse_audiences (fl_tokenRequestAudiences f), rc_TokenCache = NewManager True,
     rc_ProviderClients = NewPluginClientBuilder [fl_providerVolumePath f] (grpc_options f)\<rparr>"

datatype main_call =
    CallPrintVersion string
  | CallNewManager manager_options
  | CallNewPluginClientBuilder "string list" "DialOption list"
  | CallSetup SecretSyncReconciler int64
  | CallAddHealthzCheck
  | CallAddReadyzCheck
  | CallStart
  | CallCleanup

text \<open>
  The answers of controller-runtime and client-go. \<^verbatim>\<open>GetConfigOrDie\<close> (called twice) ends the process
  with status 1 when there is no configuration, \<^verbatim>\<open>NewForConfigOrDie\<close> panics.
\<close>

record main_env =
  ctrl_GetConfig :: "error option"
  ctrl_NewManager :: "error option"
  ctrl_GetConfigAgain :: "error option"
  kubernetes_NewForConfig :: "error option"
  ctrl_manager :: manager_env
  ctrl_AddHealthzCheck :: "error option"
  ctrl_AddReadyzCheck :: "error option"
  ctrl_Start :: "error option"

datatype run_result = Finished "error option" | Exited nat | Crashed

text \<open>From the registration of the deferred Cleanup on, which is therefore the last call.\<close>

definition run_controller :: "main_env \<Rightarrow> flags \<Rightarrow> error option \<times> main_call list" where
  "run_controller M f =
     (let (err, calls) =
        (let rc = make_reconciler f; interval = fl_rotationPollInterval f in
         case SetupWithManager (ctrl_manager M) interval of
           Inl err \<Rightarrow> (Some err, [CallSetup rc interval])
         | Inr s \<Rightarrow>
             (case ctrl_AddHealthzCheck M of
                Some err \<Rightarrow> (Some err, [CallSetup rc interval, CallAddHealthzCheck])
              | None \<Rightarrow> (case ctrl_AddReadyzCheck M of
                  Some err \<Rightarrow> (Some err, [CallSetup rc interval, CallAddHealthzCheck, CallAddReadyzCheck])
                | None \<Rightarrow> (ctrl_Start M, [CallSetup rc interval, CallAddHealthzCheck, CallAddReadyzCheck, CallStart]))))
      in (err, calls @ [CallCleanup]))"

definition runMain :: "main_env \<Rightarrow> build_info \<Rightarrow> flags \<Rightarrow> run_result \<times> main_call list" where
  "runMain M b f =
     (if fl_versionInfo f then (Finished None, [CallPrintVersion (PrintVersion b)])
      else if ctrl_GetConfig M \<noteq> None then (Exited 1, [])
      else (let created = CallNewManager (make_options b f) in
        case ctrl_NewManager M of
          Some err \<Rightarrow> (Finished (Some err), [created])
        | None \<Rightarrow>
            (if ctrl_GetConfigAgain M \<noteq> None then (Exited 1, [created])
             else if kubernetes_NewForConfig M \<noteq> None then (Crashed, [created])
             else (let (err, calls) = run_controller M f in
               (Finished err,
                created # CallNewPluginClientBuilder [fl_providerVolumePath f] (grpc_options f) # calls)))))"

text \<open>The exit status; a panic that is not recovered ends a Go program with 2.\<close>

definition main :: "main_env \<Rightarrow> build_info \<Rightarrow> flags \<Rightarrow> nat" where
  "main M b f = (case fst (runMain M b f) of
       Finished None \<Rightarrow> 0 | Finished (Some err) \<Rightarrow> 1 | Exited n \<Rightarrow> n | Crashed \<Rightarrow> 2)"

lemma Split_Join: "Join [c] (Split c s) = s"
proof (induction s)
  case (Cons x s)
  have "Split c s \<noteq> []" by (induction s) (auto split: list.splits)
  then obtain p ps where s: "Split c s = p # ps" by (cases "Split c s") auto
  with Cons show ?case by (cases ps) auto
qed simp

text \<open>
  C24: The life of the process. It exits with 0 exactly when the version was asked for or every step up
  to the end of the manager's run succeeded; once the provider clients exist they are cleaned up, once
  and as the last call on every path, after the manager has stopped; the manager is started only after
  the controller and both probes are in place; without audiences the reconciler asks for no tokens,
  otherwise its audiences joined by commas are the flag again.
\<close>

theorem runMain_cleans_up:
  "(main M b f = 0 \<longleftrightarrow> fl_versionInfo f \<or>
      ctrl_GetConfig M = None \<and> ctrl_NewManager M = None \<and> ctrl_GetConfigAgain M = None
      \<and> kubernetes_NewForConfig M = None
      \<and> (mgr_Add (ctrl_manager M) = None \<or> sint (fl_rotationPollInterval f) \<le> 0)
      \<and> builder_Complete (ctrl_manager M) = None
      \<and> ctrl_AddHealthzCheck M = None \<and> ctrl_AddReadyzCheck M = None \<and> ctrl_Start M = None)
   \<and> (if \<exists>paths opts. CallNewPluginClientBuilder paths opts \<in> set (snd (runMain M b f))
      then \<exists>pre. snd (runMain M b f) = pre @ [CallCleanup] \<and> CallCleanup \<notin> set pre
        \<and> (if CallStart \<in> set pre
           then [c \<leftarrow> pre. c \<in> {CallSetup (make_reconciler f) (fl_rotationPollInterval f), CallAddHealthzCheck, CallAddReadyzCheck, CallStart}]
             = [CallSetup (make_reconciler f) (fl_rotationPollInterval f), CallAddHealthzCheck, CallAddReadyzCheck, CallStart]
           else fst (runMain M b f) \<noteq> Finished None)
      else CallCleanup \<notin> set (snd (runMain M b f)) \<and> CallStart \<notin> set (snd (runMain M b f)))
   \<and> (if fl_tokenRequestAudiences f = [] then rc_Audiences (make_reconciler f) = []
      else Join '','' (rc_Audiences (make_reconciler f)) = fl_tokenRequestAudiences f)"
proof -
  have "main M b f = 0 \<longleftrightarrow> fl_versionInfo f \<or>
      ctrl_GetConfig M = None \<and> ctrl_NewManager M = None \<and> ctrl_GetConfigAgain M = None
      \<and> kubernetes_NewForConfig M = None
      \<and> (mgr_Add (ctrl_manager M) = None \<or> sint (fl_rotationPollInterval f) \<le> 0)
      \<and> builder_Complete (ctrl_manager M) = None
      \<and> ctrl_AddHealthzCheck M = None \<and> ctrl_AddReadyzCheck M = None \<and> ctrl_Start M = None"
    by (auto simp: main_def runMain_def run_controller_def SetupWithManager_def Let_def word_sless_alt
        split: option.splits if_splits)
  moreover have "if \<exists>paths opts. CallNewPluginClientBuilder paths opts \<in> set (snd (runMain M b f))
      then \<exists>pre. snd (runMain M b f) = pre @ [CallCleanup] \<and> CallCleanup \<notin> set pre
        \<and> (if CallStart \<in> set pre
           then [c \<leftarrow> pre. c \<in> {CallSetup (make_reconciler f) (fl_rotationPollInterval f), CallAddHealthzCheck, CallAddReadyzCheck, CallStart}]
             = [CallSetup (make_reconciler f) (fl_rotationPollInterval f), CallAddHealthzCheck, CallAddReadyzCheck, CallStart]
           else fst (runMain M b f) \<noteq> Finished None)
      else CallCleanup \<notin> set (snd (runMain M b f)) \<and> CallStart \<notin> set (snd (runMain M b f))"
    by (auto simp: runMain_def run_controller_def Let_def split: option.splits sum.splits if_splits)
  ultimately show ?thesis
    by (simp add: make_reconciler_def parse_audiences_def Split_Join)
qed

end
