(* ===== verification/Isolation.thy ===== *)
theory Isolation
  imports Driver
begin

text \<open>
  The running controller: a reconciler that main set up, one Reconcile after another (the default of
  one worker), the token manager's cleanup in between, and an environment that changes at will. Its
  invariant ties the three components together: where cached tokens come from, where connections go,
  and what every Mount request that was ever sent contains.
\<close>

section \<open>The running controller\<close>

type_synonym 'w controller = "SecretSyncReconciler \<times> ('w, call) world"

definition running_init :: "flags \<Rightarrow> 'w controller \<Rightarrow> bool" where
  "running_init f s \<longleftrightarrow> fst s = make_reconciler f \<and> trace (snd s) = []"

abbreviation token_cleanup :: "('w, 'z) controller_env_scheme \<Rightarrow> string list \<Rightarrow> (SecretSyncReconciler, 'w, unit) meth" where
  "token_cleanup E order \<equiv> zoom rc_TokenCache (\<lambda>m r. r\<lparr>rc_TokenCache := m\<rparr>) (cleanup (tokenEnv E) order)"

inductive running_step :: "('w, 'z) controller_env_scheme \<Rightarrow> 'w controller \<Rightarrow> 'w controller \<Rightarrow> bool" for E where
  reconcile: "run_state (Reconcile E req) s = (r, t) \<Longrightarrow> running_step E s t"
| collect: "run_state (token_cleanup E order) s = (u, t) \<Longrightarrow> running_step E s t"
| environment: "running_step E s (fst s, (snd s)\<lparr>env_state := e\<rparr>)"

section \<open>Its invariant\<close>

text \<open>\<open>dialed dirs opts calls name conn\<close>: the connection was made to the socket of a provider of that name in one of the directories, with the given options.\<close>

definition dialed :: "string list \<Rightarrow> DialOption list \<Rightarrow> call list \<Rightarrow> string \<Rightarrow> ClientConn \<Rightarrow> bool" where
  "dialed dirs opts calls name conn \<longleftrightarrow> pluginNameRe name
     \<and> (\<exists>dir. dir \<in> set dirs \<and> NewConn (''unix://'' @ sock_path dir name) opts (Some conn) \<in> set calls)"

text \<open>
  \<open>attributes_ok tenv auds calls attributes\<close>: the attributes are the JSON form of parameters that name a
  namespace and a service account; with audiences configured, they carry exactly one token per
  audience, each issued to that very account for that audience alone.
\<close>

definition attributes_ok :: "'w token_env \<Rightarrow> string list \<Rightarrow> call list \<Rightarrow> string \<Rightarrow> bool" where
  "attributes_ok tenv auds calls attributes \<longleftrightarrow> (\<exists>params namespace sa.
     attributes = json_map json_string params
     \<and> fmlookup params csiPodNamespace = Some namespace
     \<and> fmlookup params csiPodServiceAccountName = Some sa
     \<and> (auds = [] \<or> (\<exists>tokens. fmlookup params csiPodServiceAccountTokens = Some (json_map (json_status tenv) tokens)
          \<and> fset (fmdom tokens) = set auds \<and> fm_all (issued_for calls namespace sa) tokens)))"

definition mount_backed :: "'w token_env \<Rightarrow> string list \<Rightarrow> string list \<Rightarrow> DialOption list \<Rightarrow> call list \<Rightarrow> call \<Rightarrow> bool" where
  "mount_backed tenv auds dirs opts calls c \<longleftrightarrow> (case c of
      Mount client req \<Rightarrow> (\<exists>name. dialed dirs opts calls name (conn_of client))
        \<and> attributes_ok tenv auds calls (mreq_Attributes req)
    | _ \<Rightarrow> True)"

definition controller_inv :: "('w, 'z) controller_env_scheme \<Rightarrow> string list \<Rightarrow> string list \<Rightarrow> DialOption list
    \<Rightarrow> SecretSyncReconciler \<Rightarrow> call list \<Rightarrow> bool" where
  "controller_inv E auds dirs opts r calls \<longleftrightarrow>
     rc_Audiences r = auds \<and> pcb_socketPaths (rc_ProviderClients r) = dirs \<and> pcb_opts (rc_ProviderClients r) = opts
     \<and> cache_ok (isPrint (tokenEnv E)) (rc_TokenCache r) calls
     \<and> builder_ok (rc_ProviderClients r)
     \<and> fm_all (dialed dirs opts calls) (pcb_conns (rc_ProviderClients r))
     \<and> list_all (mount_backed (tokenEnv E) auds dirs opts calls) calls"

lemma dialed_mono: "dialed dirs opts calls name conn \<Longrightarrow> dialed dirs opts (calls @ later) name conn"
  by (auto simp: dialed_def)

lemma fm_all_mono: "fm_all P m \<Longrightarrow> (\<And>k v. P k v \<Longrightarrow> Q k v) \<Longrightarrow> fm_all Q m"
  by (auto simp: fm_all_iff fmpred_iff)

lemma attributes_ok_mono: "attributes_ok tenv auds calls a \<Longrightarrow> attributes_ok tenv auds (calls @ later) a"
  unfolding attributes_ok_def by (blast intro: fm_all_mono issued_for_mono)

lemma mount_backed_mono: "mount_backed tenv auds dirs opts calls c \<Longrightarrow> mount_backed tenv auds dirs opts (calls @ later) c"
  unfolding mount_backed_def by (auto split: call.splits intro: dialed_mono attributes_ok_mono)

text \<open>Appending calls keeps the invariant as long as every new Mount call is backed.\<close>

lemma controller_inv_append:
  assumes "controller_inv E auds dirs opts r calls"
    and "list_all (mount_backed (tokenEnv E) auds dirs opts (calls @ later)) later"
  shows "controller_inv E auds dirs opts r (calls @ later)"
  using assms
  by (auto simp: controller_inv_def list_all_iff intro: fm_all_mono dialed_mono mount_backed_mono cache_ok_more)

definition no_mount :: "call \<Rightarrow> bool" where
  "no_mount c = (case c of Mount _ _ \<Rightarrow> False | _ \<Rightarrow> True)"

lemma no_mount_backed: "list_all no_mount cs \<Longrightarrow> list_all (mount_backed tenv auds dirs opts calls) cs"
  by (induction cs) (auto simp: no_mount_def mount_backed_def split: call.splits)

lemma controller_inv_silent:
  "controller_inv E auds dirs opts r calls \<Longrightarrow> list_all no_mount later \<Longrightarrow> controller_inv E auds dirs opts r (calls @ later)"
  by (rule controller_inv_append) (assumption, rule no_mount_backed)

section \<open>The components keep it\<close>

lemma token_calls_no_mount: "token_calls no_mount namespace name"
  by (simp add: token_calls_def no_mount_def)

lemma conn_of_stored:
  "builder_ok p \<Longrightarrow> fmlookup (pcb_clients p) k = Some c \<Longrightarrow> fmlookup (pcb_conns p) k = Some (conn_of c)"
  by (auto simp: builder_ok_def)

lemma inv_Get:
  assumes inv: "controller_inv E auds dirs opts r (trace w)"
    and run: "run_state (Get (providerEnv E) provider) (rc_ProviderClients r, w) = (a, (p', w'))"
  shows "controller_inv E auds dirs opts (r\<lparr>rc_ProviderClients := p'\<rparr>) (trace w')
     \<and> (case a of Inl _ \<Rightarrow> True | Inr c \<Rightarrow> dialed dirs opts (trace w') provider (conn_of c))"
proof -
  let ?p = "rc_ProviderClients r"
  have ok: "builder_ok ?p" and dirs: "pcb_socketPaths ?p = dirs" "pcb_opts ?p = opts" and conns: "fm_all (dialed dirs opts (trace w)) (pcb_conns ?p)"
    using inv by (auto simp: controller_inv_def)
  have new: "builder_ok p'" "pcb_socketPaths p' = dirs" "pcb_opts p' = opts"
    and stored: "\<And>c. a = Inr c \<Longrightarrow> fmlookup (pcb_clients p') provider = Some c"
    using get_inv_aux [OF ok run] dirs by auto
  have "\<exists>calls. trace w' = trace w @ calls \<and> list_all no_mount calls
     \<and> fm_all (dialed dirs opts (trace w')) (pcb_conns p')"
  proof (cases "fmlookup (pcb_clients ?p) provider = None \<and> pluginNameRe provider")
    case False
    then have "p' = ?p \<and> w' = w"
      using run run_Get_cached [of ?p provider _ "providerEnv E" w] run_Get_invalid [of ?p provider "providerEnv E" w]
      by (cases "fmlookup (pcb_clients ?p) provider") auto
    with conns show ?thesis by simp
  next
    case True
    then have "fmlookup (pcb_clients ?p) provider = None" "pluginNameRe provider" by auto
    from run_Get_new [OF run this] obtain calls where c: "trace w' = trace w @ calls" "get_outcome ?p provider a p' calls"
      by blast
    have "list_all no_mount calls"
      using c(2) by (auto simp: get_outcome_def list_all_iff probes_def no_mount_def)
    moreover have "fm_all (dialed dirs opts (trace w')) (pcb_conns ?p)"
      using conns c(1) by (auto intro: fm_all_mono dialed_mono)
    moreover have "dialed dirs opts (trace w') provider (conn_of cl)" if "a = Inr cl" for cl
      using c that True dirs last_in_set [of calls] by (fastforce simp: get_outcome_def dialed_def)
    ultimately show ?thesis
      using c by (cases a) (auto simp: get_outcome_def put_client_def fm_all_iff fmpred_iff)
  qed
  then obtain calls where c: "trace w' = trace w @ calls" "list_all no_mount calls"
    and d: "fm_all (dialed dirs opts (trace w')) (pcb_conns p')" by blast
  have "controller_inv E auds dirs opts r (trace w')"
    unfolding c(1) using inv c(2) by (rule controller_inv_silent)
  with new d have "controller_inv E auds dirs opts (r\<lparr>rc_ProviderClients := p'\<rparr>) (trace w')"
    by (simp add: controller_inv_def)
  moreover have "dialed dirs opts (trace w') provider (conn_of cl)" if "a = Inr cl" for cl
    using d conn_of_stored [OF new(1) stored [OF that]] by (auto simp: fm_all_iff fmpred_iff)
  ultimately show ?thesis by (auto split: sum.split)
qed

lemma inv_TokenAttrs:
  assumes inv: "controller_inv E auds dirs opts r (trace w)"
    and run: "run_state (SecretProviderServiceAccountTokenAttrs (tokenEnv E) namespace sa auds) (rc_TokenCache r, w) = (a, (m', w'))"
  shows "controller_inv E auds dirs opts (r\<lparr>rc_TokenCache := m'\<rparr>) (trace w')"
proof -
  have "cache_ok (isPrint (tokenEnv E)) m' (trace w')"
    using run_TokenAttrs [OF _ run] inv by (simp add: controller_inv_def)
  moreover obtain calls where "trace w' = trace w @ calls" "list_all no_mount calls"
    using emitsD [OF emits_TokenAttrs [OF token_calls_no_mount] run] by blast
  then have "controller_inv E auds dirs opts r (trace w')"
    using controller_inv_silent [OF inv] by simp
  ultimately show ?thesis by (simp add: controller_inv_def)
qed

lemma tokensKey_eq: "tokensKey = csiPodServiceAccountTokens"
  by (simp add: tokensKey_def csiPodServiceAccountTokens_def)

lemma provider_parameters_identity:
  assumes "provider_parameters E spc namespace sa attrs = Ret params"
    and "if auds = [] then attrs = None
      else \<exists>tokens. attrs = Some (fmupd tokensKey (json_map (json_status tenv) tokens) fmempty)
        \<and> fset (fmdom tokens) = set auds \<and> fm_all (issued_for calls namespace sa) tokens"
  shows "attributes_ok tenv auds calls (json_map json_string params)"
proof -
  have keys: "csiPodNamespace \<noteq> csiPodServiceAccountTokens" "csiPodServiceAccountName \<noteq> csiPodServiceAccountTokens"
    "csiPodServiceAccountName \<noteq> csiPodNamespace"
    by (simp_all add: csiPodNamespace_def csiPodServiceAccountTokens_def csiPodServiceAccountName_def)
  obtain m where "spc_Parameters spc = Some m"
    using assms(1) by (auto simp: provider_parameters_def map_assign_def split: option.splits)
  with assms have "fmlookup params csiPodNamespace = Some namespace \<and> fmlookup params csiPodServiceAccountName = Some sa
     \<and> (auds = [] \<or> (\<exists>tokens. fmlookup params csiPodServiceAccountTokens = Some (json_map (json_status tenv) tokens)
          \<and> fset (fmdom tokens) = set auds \<and> fm_all (issued_for calls namespace sa) tokens))"
    by (cases "auds = []")
      (auto simp: provider_parameters_def map_assign_def Let_def tokensKey_eq keys keys [symmetric])
  then show ?thesis unfolding attributes_ok_def by blast
qed

lemma inv_prepare:
  assumes inv: "controller_inv E auds dirs opts r (trace w)"
    and run: "run_state (prepareCSIProviderParams E spc namespace sa) (r, w) = (ps, (r', w'))"
  shows "controller_inv E auds dirs opts r' (trace w') \<and> (\<exists>later. trace w' = trace w @ later)
     \<and> (\<forall>json. ps = Ret (Inr json) \<longrightarrow> attributes_ok (tokenEnv E) auds (trace w') json)"
proof -
  have auds: "rc_Audiences r = auds" and cache: "cache_ok (isPrint (tokenEnv E)) (rc_TokenCache r) (trace w)"
    using inv by (auto simp: controller_inv_def)
  obtain a m' w1 where a: "run_state (SecretProviderServiceAccountTokenAttrs (tokenEnv E) namespace sa auds)
      (rc_TokenCache r, w) = (a, (m', w1))" by (rule run_obtain)
  with run auds have eq: "r' = r\<lparr>rc_TokenCache := m'\<rparr>" "w' = w1"
    and ps: "ps = (case a of
         Inl err \<Rightarrow> Ret (Inl (ConditionReasonControllerSyncError, err))
       | Inr serviceAccountTokenAttrs \<Rightarrow>
           (case provider_parameters E spc namespace sa serviceAccountTokenAttrs of
              Panic s \<Rightarrow> Panic s
            | Diverges \<Rightarrow> Diverges
            | Ret parameters \<Rightarrow> Ret (Inr (json_map json_string parameters))))"
    by (auto simp: prepareCSIProviderParams_def run_simps)
  have "attributes_ok (tokenEnv E) auds (trace w') json" if json: "ps = Ret (Inr json)" for json
  proof -
    from ps json obtain attrs params where "a = Inr attrs" "json = json_map json_string params"
      "provider_parameters E spc namespace sa attrs = Ret params"
      by (auto split: sum.splits go.splits)
    with run_TokenAttrs [OF cache a] eq show ?thesis
      by (auto intro: provider_parameters_identity)
  qed
  moreover have "\<exists>later. trace w' = trace w @ later"
    using emitsD [OF emits_TokenAttrs [OF token_calls_no_mount] a] eq by blast
  ultimately show ?thesis using inv_TokenAttrs [OF inv a] eq by simp
qed

lemma inv_MountContent:
  assumes inv: "controller_inv E auds dirs opts r (trace w)"
    and run: "run_state (MountContent (providerEnv E) client attributes secrets ov) (r, w) = (a, (r', w'))"
    and client: "dialed dirs opts (trace w) name (conn_of client)"
    and attributes: "attributes_ok (tokenEnv E) auds (trace w) attributes"
  shows "controller_inv E auds dirs opts r' (trace w')"
proof -
  let ?call = "Mount client (mount_request attributes secrets ov)"
  obtain later where l: "trace w' = trace w @ ?call # later" "list_all no_mount later" and r: "r' = r"
    using run by (auto simp: MountContent_def run_simps Let_def no_mount_def split: sum.splits option.splits if_splits list.splits)
  have "mount_backed (tokenEnv E) auds dirs opts (trace w @ ?call # later) ?call"
    using client attributes dialed_mono [of dirs opts "trace w" name _ "?call # later"]
      attributes_ok_mono [of "tokenEnv E" auds "trace w" _ "?call # later"]
    by (auto simp: mount_backed_def mount_request_def)
  then have "list_all (mount_backed (tokenEnv E) auds dirs opts (trace w @ ?call # later)) (?call # later)"
    using no_mount_backed [OF l(2)] by simp
  from controller_inv_append [OF inv this] l(1) r show ?thesis by simp
qed

lemma keeps_fetch: "keeps (controller_inv E auds dirs opts) (fetchSecretsFromProvider E spc ss)"
proof (rule keepsI)
  fix r w f r' w'
  assume run: "run_state (fetchSecretsFromProvider E spc ss) (r, w) = (f, (r', w'))"
    and inv: "controller_inv E auds dirs opts r (trace w)"
  let ?namespace = "om_Namespace (ss_Meta ss)" and ?sa = "sp_ServiceAccountName (ss_Spec ss)"
  obtain a p1 w1 where a: "run_state (Get (providerEnv E) (spc_Provider spc)) (rc_ProviderClients r, w) = (a, (p1, w1))"
    by (rule run_obtain)
  let ?r1 = "r\<lparr>rc_ProviderClients := p1\<rparr>"
  obtain ps r2 w2 where ps: "run_state (prepareCSIProviderParams E spc ?namespace ?sa) (?r1, w1) = (ps, (r2, w2))"
    by (rule run_obtain)
  note defs = fetchSecretsFromProvider_def run_simps
  have 1: "controller_inv E auds dirs opts ?r1 (trace w1)" using inv_Get [OF inv a] by blast
  have 2: "controller_inv E auds dirs opts r2 (trace w2)" using inv_prepare [OF 1 ps] by blast
  show "controller_inv E auds dirs opts r' (trace w')"
  proof (cases "\<exists>client json. a = Inr client \<and> ps = Ret (Inr json)")
    case False
    with run a ps have "(r', w') = (?r1, w1) \<or> (r', w') = (r2, w2)"
      by (cases a; cases ps) (auto simp: defs split: sum.splits prod.splits)
    with 1 2 show ?thesis by auto
  next
    case True
    then obtain client json where c: "a = Inr client" "ps = Ret (Inr json)" by blast
    obtain mnt r3 w3 where m: "run_state (MountContent (providerEnv E) client json (json_map json_string fmempty) []) (r2, w2)
        = (mnt, (r3, w3))" by (rule run_obtain)
    have "dialed dirs opts (trace w2) (spc_Provider spc) (conn_of client)"
      using inv_Get [OF inv a] inv_prepare [OF 1 ps] c by (auto intro: dialed_mono)
    moreover have "attributes_ok (tokenEnv E) auds (trace w2) json" using inv_prepare [OF 1 ps] c by blast
    ultimately have "controller_inv E auds dirs opts r3 (trace w3)" by (rule inv_MountContent [OF 2 m])
    moreover have "(r', w') = (r3, w3)"
      using run a ps m c by (auto simp: defs split: sum.splits prod.splits)
    ultimately show ?thesis by simp
  qed
qed

section \<open>Reconcile keeps it\<close>

lemma controller_inv_call:
  "no_mount c \<Longrightarrow> controller_inv E auds dirs opts r calls \<Longrightarrow> controller_inv E auds dirs opts r (calls @ [c])"
  by (rule controller_inv_silent) simp_all

lemma no_mount_calls [simp]:
  "no_mount (GetSecretSync k)" "no_mount (GetSecretProviderClass k)" "no_mount (StatusUpdate s ok)"
  "no_mount (PatchSecret a b c d e)"
  by (simp_all add: no_mount_def)

lemma keeps_update_status: "keeps (controller_inv E auds dirs opts) (update_status F ss)"
  unfolding update_status_def by (intro keeps_intros controller_inv_call no_mount_calls)

lemma keeps_updateStatusConditions: "keeps (controller_inv E auds dirs opts) (updateStatusConditions F ss t st reason msg upd)"
  unfolding updateStatusConditions_def set_condition_def by (intro keeps_intros keeps_update_status)

lemma keeps_initConditions: "keeps (controller_inv E auds dirs opts) (initConditions F ss)"
  unfolding initConditions_def set_condition_def by (intro keeps_intros keeps_update_status)

lemma keeps_write_back: "keeps (controller_inv E auds dirs opts) (write_back F ss ct h datamap)"
  unfolding write_back_def mark_synced_def serverSidePatchSecret_def Let_def
  by (intro keeps_intros keeps_updateStatusConditions keeps_update_status controller_inv_call no_mount_calls)

lemma keeps_reconcile_synced: "keeps (controller_inv E auds dirs opts) (reconcile_synced E req ss ct)"
  unfolding reconcile_synced_def Let_def
  by (intro keeps_intros keeps_updateStatusConditions keeps_write_back keeps_fetch controller_inv_call no_mount_calls)

lemma keeps_Reconcile: "keeps (controller_inv E auds dirs opts) (Reconcile E req)"
  unfolding Reconcile_def Let_def
  by (intro keeps_intros keeps_initConditions keeps_reconcile_synced controller_inv_call no_mount_calls)

lemma run_cleanup_subset:
  "run_state (cleanup_loop E ks) (m, w) = (u, (m', w')) \<Longrightarrow>
     trace w' = trace w \<and> (\<forall>k tr. fmlookup (mg_cache m') k = Some tr \<longrightarrow> fmlookup (mg_cache m) k = Some tr)"
proof (induction ks arbitrary: m w)
  case (Cons x ks)
  show ?case
  proof (cases "fmlookup (mg_cache m) x")
    case None
    with Cons show ?thesis by (auto simp: run_simps)
  next
    case (Some tr)
    let ?now = "fst (Now E (env_state w))" and ?w = "w\<lparr>env_state := snd (Now E (env_state w))\<rparr>"
    let ?m = "if tst_ExpirationTimestamp (tr_Status tr) < ?now then m\<lparr>mg_cache := fmdrop x (mg_cache m)\<rparr> else m"
    have run: "run_state (cleanup_loop E ks) (?m, ?w) = (u, (m', w'))"
      using Cons.prems Some by (simp add: run_simps run_expired split: if_splits)
    from Cons.IH [OF run] show ?thesis by (auto split: if_splits) (metis option.distinct(1))
  qed
qed simp

lemma keeps_cleanup: "keeps (controller_inv E auds dirs opts) (token_cleanup E order)"
proof (rule keepsI)
  fix r w u r' w'
  assume "run_state (token_cleanup E order) (r, w) = (u, (r', w'))" and inv: "controller_inv E auds dirs opts r (trace w)"
  then obtain m' where m: "run_state (cleanup_loop (tokenEnv E) order) (rc_TokenCache r, w) = (u, (m', w'))"
    and r': "r' = r\<lparr>rc_TokenCache := m'\<rparr>"
    by (auto simp: run_simps cleanup_def split: prod.splits)
  with run_cleanup_subset [OF m] inv show "controller_inv E auds dirs opts r' (trace w')"
    by (auto simp: controller_inv_def cache_ok_def cache.entries_ok_def)
qed

interpretation running: invariant_system "running_init f" "running_step E"
  "\<lambda>s. controller_inv E (parse_audiences (fl_tokenRequestAudiences f)) [fl_providerVolumePath f] (dial_opts (grpc_options f)) (fst s) (trace (snd s))"
  for E :: "('w, 'z) controller_env_scheme" and f
proof
  fix s :: "'w controller"
  assume "running_init f s"
  then show "controller_inv E (parse_audiences (fl_tokenRequestAudiences f)) [fl_providerVolumePath f] (dial_opts (grpc_options f)) (fst s) (trace (snd s))"
    by (simp add: running_init_def controller_inv_def make_reconciler_def cache_ok_NewManager builder_ok_New)
      (simp add: NewPluginClientBuilder_def fm_all_iff)
next
  fix s t :: "'w controller"
  assume inv: "controller_inv E (parse_audiences (fl_tokenRequestAudiences f)) [fl_providerVolumePath f] (dial_opts (grpc_options f)) (fst s) (trace (snd s))"
    and "running_step E s t"
  from this(2) show "controller_inv E (parse_audiences (fl_tokenRequestAudiences f)) [fl_providerVolumePath f] (dial_opts (grpc_options f)) (fst t) (trace (snd t))"
  proof cases
    case (reconcile req r)
    with keepsD [OF keeps_Reconcile] inv show ?thesis by (metis prod.collapse)
  next
    case (collect order u)
    with keepsD [OF keeps_cleanup] inv show ?thesis by (metis prod.collapse)
  next
    case (environment e)
    with inv show ?thesis by simp
  qed
qed

section \<open>What providers are ever told\<close>

text \<open>
  C3: End-to-end isolation. In every state the running controller can reach, after any sequence of
  Reconciles of any objects, cleanups and outside changes, every Mount request it ever sent went over
  a connection to a socket directly under the provider directory, named after a valid provider and dialed
  with the message limit of the flags, without transport security and with the retry policy of
  \<^verbatim>\<open>ServiceConfig\<close>; its attributes name one namespace and one service account; when audiences are
  configured, they carry exactly one token per audience, each issued by the API server to that service
  account of that namespace for that audience alone.
\<close>

theorem mounts_isolated:
  assumes "reach (running_init f) (running_step E) (r, w)" and "Mount client req \<in> set (trace w)"
  shows "(\<exists>name. dialed [fl_providerVolumePath f] (dial_opts (grpc_options f)) (trace w) name (conn_of client))
     \<and> attributes_ok (tokenEnv E) (parse_audiences (fl_tokenRequestAudiences f)) (trace w) (mreq_Attributes req)"
proof -
  from running.reach_inv [OF assms(1)]
  have "list_all (mount_backed (tokenEnv E) (parse_audiences (fl_tokenRequestAudiences f)) [fl_providerVolumePath f] (dial_opts (grpc_options f)) (trace w)) (trace w)"
    by (simp add: controller_inv_def)
  with assms(2) show ?thesis by (fastforce simp: list_all_iff mount_backed_def)
qed

text \<open>The controller of a concrete cluster, started with one audience.\<close>

definition demo_flags :: flags where
  "demo_flags = default_flags\<lparr>fl_tokenRequestAudiences := ''a'', fl_providerVolumePath := ''/p''\<rparr>"

lemma demo_attrs_from:
  "\<exists>attrs m' calls. run_state (SecretProviderServiceAccountTokenAttrs demo_tokens ''ns'' ''sa'' [''a'']) (NewManager True, w)
     = (Inr attrs, (m', w\<lparr>trace := trace w @ calls\<rparr>))"
  by (simp add: SecretProviderServiceAccountTokenAttrs_def GetServiceAccountToken_def Manager_get_def Manager_set_def
      getToken_def run_simps Let_def NewManager_def demo_tokens_def demo_token_def fm_all_iff fmpred_iff)
    (intro exI, rule refl)

lemma demo_audience_run:
  "\<exists>r' w' req. run_state (Reconcile (demo_env demo_synced (Some fmempty) None) demo_req) (make_reconciler demo_flags, demo_w0)
     = (Ret None, (r', w')) \<and> Mount (NewCSIDriverProviderClient (ClientConn 0)) req \<in> set (trace w')"
proof -
  let ?E = "demo_env demo_synced (Some fmempty) None" and ?spc = "demo_spc\<lparr>spc_Parameters := Some fmempty\<rparr>"
  let ?client = "NewCSIDriverProviderClient (ClientConn 0)"
  have rc: "make_reconciler demo_flags = \<lparr>rc_Audiences = [''a''], rc_TokenCache = NewManager True,
      rc_ProviderClients = NewPluginClientBuilder [''/p''] (grpc_options demo_flags)\<rparr>"
    by (simp add: make_reconciler_def demo_flags_def default_flags_def parse_audiences_def)
  let ?w1 = "\<lparr>env_state = 1 :: nat, trace = demo_read @ [Stat ''/p/a.sock'', NewConn ''unix:///p/a.sock'' (dial_opts (grpc_options demo_flags)) (Some (ClientConn 0))]\<rparr>"
  obtain attrs m' calls where a: "run_state (SecretProviderServiceAccountTokenAttrs demo_tokens ''ns'' ''sa'' [''a'']) (NewManager True, ?w1)
     = (Inr attrs, (m', ?w1\<lparr>trace := trace ?w1 @ calls\<rparr>))" using demo_attrs_from by blast
  obtain params where params: "provider_parameters ?E ?spc ''ns'' ''sa'' attrs = Ret params"
    by (simp add: provider_parameters_def map_assign_def Let_def)
  have proj: "tokenEnv ?E = demo_tokens" "providerEnv ?E = demo_provider" "spc_Provider ?spc = ''a''"
    "om_Namespace (ss_Meta (demo_ss demo_synced)) = ''ns''" "sp_ServiceAccountName (ss_Spec (demo_ss demo_synced)) = ''sa''"
    "so_Data (sp_SecretObject (ss_Spec (demo_ss demo_synced))) = []"
    by (simp_all add: demo_env_def demo_spc_def demo_ss_def demo_meta_def)
  let ?req = "mount_request (json_map json_string params) (json_map json_string fmempty) []"
  have f: "run_state (fetchSecretsFromProvider ?E ?spc (demo_ss demo_synced)) (make_reconciler demo_flags, \<lparr>env_state = 0, trace = demo_read\<rparr>)
     = (Ret (Inr fmempty), (\<lparr>rc_Audiences = [''a''], rc_TokenCache = m',
          rc_ProviderClients = put_client ''a'' (ClientConn 0) (NewPluginClientBuilder [''/p''] (grpc_options demo_flags))\<rparr>,
        \<lparr>env_state = 1, trace = trace ?w1 @ calls @ [Mount ?client ?req]\<rparr>))"
    using a params
    by (simp add: fetchSecretsFromProvider_def run_simps rc demo_Get_from prepareCSIProviderParams_def proj
        MountContent_def Let_def demo_Mount build_data_def BuildKubeSecretData_def version_map_def file_map_def)
  have env: "Client_GetSecretSync ?E = (\<lambda>req w. (Inr (demo_ss demo_synced), w))"
    "Client_GetSecretProviderClass ?E = (\<lambda>key w. (Inr ?spc, w))"
    "pbkdf2_Key ?E = (\<lambda>pw salt i n. [])" by (simp_all add: demo_env_def)
  have ss: "sp_SecretProviderClassName (ss_Spec (demo_ss demo_synced)) = ''spc''"
    "\<not> length (st_Conditions demo_synced) < 2" "st_SyncHash demo_synced = ''v1:''"
    by (simp_all add: demo_ss_def demo_synced_def demo_conds_def)
  show ?thesis
    using f by (simp add: Reconcile_def run_simps env Let_def reconcile_synced_def demo_valid ss demo_req_def demo_read_def
        demo_hash split_beta write_back_def demo_synced_ok) blast
qed

theorem mounts_isolated_witness:
  "\<exists>calls (req :: MountRequest). attributes_ok (demo_tokens :: nat token_env) [''a''] calls (mreq_Attributes req)
     \<and> (\<exists>name. dialed [''/p''] (dial_opts (grpc_options demo_flags)) calls name (ClientConn 0))"
proof -
  let ?E = "demo_env demo_synced (Some fmempty) None"
  obtain r' w' req where run: "run_state (Reconcile ?E demo_req) (make_reconciler demo_flags, demo_w0) = (Ret None, (r', w'))"
    and m: "Mount (NewCSIDriverProviderClient (ClientConn 0)) req \<in> set (trace w')"
    using demo_audience_run by blast
  have "reach (running_init demo_flags) (running_step ?E) (make_reconciler demo_flags, demo_w0)"
    by (rule reach_init) (simp add: running_init_def)
  then have "reach (running_init demo_flags) (running_step ?E) (r', w')"
    by (rule reach_step) (rule running_step.reconcile [OF run])
  from mounts_isolated [OF this m] show ?thesis
    by (intro exI [of _ "trace w'"] exI [of _ req])
      (auto simp: demo_flags_def default_flags_def parse_audiences_def demo_env_def)
qed

section \<open>On whose behalf\<close>

text \<open>\<open>acts_for req ss c\<close>: the call is one that the SecretSync \<open>ss\<close>, reconciled under the name \<open>req\<close>, may cause.\<close>

definition names_account :: "SecretSync \<Rightarrow> string \<Rightarrow> bool" where
  "names_account ss attributes \<longleftrightarrow> (\<exists>params. attributes = json_map json_string params
     \<and> fmlookup params csiPodNamespace = Some (om_Namespace (ss_Meta ss))
     \<and> fmlookup params csiPodServiceAccountName = Some (sp_ServiceAccountName (ss_Spec ss)))"

text \<open>The same object but for its status and its resource version.\<close>

definition same_object :: "SecretSync \<Rightarrow> SecretSync \<Rightarrow> bool" where
  "same_object ss s \<longleftrightarrow> (ss_Meta s)\<lparr>om_ResourceVersion := om_ResourceVersion (ss_Meta ss)\<rparr> = ss_Meta ss \<and> ss_Spec s = ss_Spec ss"

lemma same_object_fields:
  assumes "same_object ss s"
  shows "om_Name (ss_Meta s) = om_Name (ss_Meta ss)" "om_Namespace (ss_Meta s) = om_Namespace (ss_Meta ss)" "ss_Spec s = ss_Spec ss"
  using assms unfolding same_object_def by (metis ObjectMeta.select_convs ObjectMeta.surjective ObjectMeta.update_convs(5), metis ObjectMeta.select_convs ObjectMeta.surjective ObjectMeta.update_convs(5), simp)

lemma same_object_trans: "same_object s0 s1 \<Longrightarrow> same_object s1 s2 \<Longrightarrow> same_object s0 s2"
  by (cases "ss_Meta s0"; cases "ss_Meta s1"; cases "ss_Meta s2") (simp add: same_object_def)

definition acts_for :: "NamespacedName \<Rightarrow> SecretSync \<Rightarrow> call \<Rightarrow> bool" where
  "acts_for req ss c \<longleftrightarrow> (case c of
      GetSecretSync k \<Rightarrow> k = req
    | GetSecretProviderClass k \<Rightarrow> k = spc_key req ss
    | StatusUpdate s ok \<Rightarrow> same_object ss s
    | PatchSecret namespace name fieldManager data ok \<Rightarrow> namespace = om_Namespace (ss_Meta ss)
        \<and> name = om_Name (ss_Meta ss) \<and> fieldManager = secretSyncControllerFieldManager
    | CreateToken namespace name tr r \<Rightarrow> namespace = om_Namespace (ss_Meta ss) \<and> name = sp_ServiceAccountName (ss_Spec ss)
    | Mount client mreq \<Rightarrow> names_account ss (mreq_Attributes mreq)
    | VersionRPC client v \<Rightarrow> False
    | CloseConn conn \<Rightarrow> False
    | _ \<Rightarrow> True)"

lemma yields_TokenAttrs:
  "yields (\<lambda>r. case r of Inr (Some attrs) \<Rightarrow> \<exists>tokens. attrs = fmupd tokensKey tokens fmempty | _ \<Rightarrow> True)
     (SecretProviderServiceAccountTokenAttrs E namespace sa auds)"
  unfolding SecretProviderServiceAccountTokenAttrs_def
  by (auto intro!: yields_intros split: sum.splits if_splits option.splits)

lemma provider_parameters_names:
  assumes "provider_parameters E spc (om_Namespace (ss_Meta ss)) (sp_ServiceAccountName (ss_Spec ss)) attrs = Ret params"
    and "case attrs of Some a \<Rightarrow> \<exists>tokens. a = fmupd tokensKey tokens fmempty | _ \<Rightarrow> True"
  shows "names_account ss (json_map json_string params)"
  using assms unfolding names_account_def
  by (intro exI [of _ params])
    (auto simp: provider_parameters_def map_assign_def Let_def tokensKey_eq csiPodNamespace_def csiPodServiceAccountName_def
      csiPodServiceAccountTokens_def split: option.splits)

lemma yields_names_account:
  "yields (\<lambda>r. case r of Ret (Inr json) \<Rightarrow> names_account ss json | _ \<Rightarrow> True)
     (prepareCSIProviderParams E spc (om_Namespace (ss_Meta ss)) (sp_ServiceAccountName (ss_Spec ss)))"
  unfolding prepareCSIProviderParams_def
  by (rule yields_bind, rule yields_bind_with [OF yields_zoom [OF yields_TokenAttrs]], rule yields_return)
    (auto split: sum.splits go.splits intro: provider_parameters_names)

lemma acts_for_prepare:
  "emits (acts_for req ss) (prepareCSIProviderParams E spc (om_Namespace (ss_Meta ss)) (sp_ServiceAccountName (ss_Spec ss)))"
  unfolding prepareCSIProviderParams_def
  by (intro emits_intros emits_TokenAttrs) (simp add: token_calls_def acts_for_def)

lemma acts_for_fetch: "emits (acts_for req ss) (fetchSecretsFromProvider E spc ss)"
proof -
  have "socket_calls (acts_for req ss)" by (simp add: socket_calls_def acts_for_def)
  moreover have "mount_calls (acts_for req ss) json" if "names_account ss json" for json
    using that by (simp add: mount_calls_def acts_for_def)
  ultimately show ?thesis
    unfolding fetchSecretsFromProvider_def
    by (intro emits_bind emits_zoom emits_Get emits_case_sum emits_return
        emits_bind_with [OF yields_names_account acts_for_prepare])
      (auto intro!: emits_bind emits_return emits_MountContent split: go.splits sum.splits prod.splits)
qed

lemma yields_set_condition: "same_object ss s \<Longrightarrow> yields (same_object ss) (set_condition F s c)"
  unfolding set_condition_def
  by (intro yields_intros) (simp add: same_object_def set_conditions_def)

lemma yields_mark: "same_object ss s \<Longrightarrow> yields (same_object ss) (updateStatusConditions F s t st reason msg False)"
  unfolding updateStatusConditions_def
  by (rule yields_bind_with [OF yields_set_condition]) (auto intro: yields_return)

lemma yields_mark_synced: "yields (same_object ss) (mark_synced F ss ct changed)"
  unfolding mark_synced_def
  by (auto intro!: yields_bind_with [OF yields_mark] yields_mark yields_return simp: same_object_def)

lemma acts_for_update_status: "same_object ss s \<Longrightarrow> emits (acts_for req ss) (update_status F s)"
  unfolding update_status_def by (intro emits_intros) (simp add: acts_for_def)

lemma acts_for_updateStatusConditions:
  "same_object ss s \<Longrightarrow> emits (acts_for req ss) (updateStatusConditions F s t st reason msg upd)"
  unfolding updateStatusConditions_def
  by (rule emits_bind_with [OF yields_set_condition])
    (auto simp: set_condition_def intro!: emits_intros acts_for_update_status)

lemma acts_for_mark_synced: "emits (acts_for req ss) (mark_synced F ss ct changed)"
  unfolding mark_synced_def
  by (auto simp: same_object_def intro!: emits_bind_with [OF yields_mark] acts_for_updateStatusConditions emits_return)

lemma acts_for_patch: "same_object ss s \<Longrightarrow> emits (acts_for req ss) (serverSidePatchSecret E s datamap)"
  unfolding serverSidePatchSecret_def Let_def
  by (intro emits_intros) (simp add: acts_for_def same_object_fields secretPatchData_def Let_def)

lemma same_object_set_sync: "same_object ss s \<Longrightarrow> same_object ss (set_sync h t s)"
  by (simp add: same_object_def set_sync_def)

lemma same_object_refl: "same_object ss ss"
  by (simp add: same_object_def)

lemma acts_for_write_back: "emits (acts_for req ss) (write_back E ss ct h datamap)"
  unfolding write_back_def Let_def
  by (intro emits_intros emits_bind_with [OF yields_mark_synced acts_for_mark_synced] acts_for_updateStatusConditions
      acts_for_update_status acts_for_patch same_object_set_sync)

lemma acts_for_reconcile_synced: "emits (acts_for req ss) (reconcile_synced E req ss ct)"
  unfolding reconcile_synced_def Let_def
  by (intro emits_intros acts_for_updateStatusConditions acts_for_write_back acts_for_fetch same_object_refl)
    (simp add: acts_for_def spc_key_def)

lemma acts_for_same:
  assumes "same_object ss s1" "acts_for req s1 c"
  shows "acts_for req ss c"
  using assms(2) same_object_fields [OF assms(1)] same_object_trans [OF assms(1)]
  by (auto simp: acts_for_def names_account_def spc_key_def split: call.splits)

lemma same_object_stored: "stored_as (set_conditions cs ss) s1 \<Longrightarrow> same_object ss s1"
  by (auto simp: stored_as_def same_object_def set_conditions_def)

text \<open>
  C4: The controller is no confused deputy. Whatever the cluster and the provider answer, a Reconcile
  of an object that could be read, new or known, makes only calls on behalf of that object: it reads the object
  and the SecretProviderClass the object names in the namespace of the request, requests tokens only
  for the object's own service account and namespace, tells providers that account and namespace,
  patches only the Secret with the object's name and namespace, and sends only status updates of the object,
  with its metadata (but for the resource version) and its spec. The server answers an accepted status update with
  the object it was sent, under a new resource version.
\<close>

theorem Reconcile_on_behalf:
  assumes "run_state (Reconcile E req) (r, w) = (res, (r', w'))"
    and "fst (Client_GetSecretSync E req (env_state w)) = Inr ss" "status_stores E"
  shows "\<exists>calls. trace w' = trace w @ calls \<and> list_all (acts_for req ss) calls"
  using assms(1,2) status_stores_echo [OF assms(3)]
proof (cases rule: Reconcile_object)
  case (refused cs err)
  then show ?thesis
    by (intro exI [of _ "[GetSecretSync req, StatusUpdate (set_conditions cs ss) False]"]) (simp add: acts_for_def same_object_def)
next
  case (synced pre s1 w1)
  have s1: "same_object ss s1"
    using synced(7) assms(3) same_object_refl by (auto simp: status_stores_def intro: same_object_stored split: if_splits)
  from emitsD [OF acts_for_reconcile_synced synced(2)] obtain calls where
    "trace w' = trace w1 @ calls" "list_all (acts_for req s1) calls" by blast
  moreover from this(2) have "list_all (acts_for req ss) calls" using acts_for_same [OF s1] by (auto simp: list_all_iff)
  moreover have "list_all (acts_for req ss) pre" using synced(7) by (auto simp: acts_for_def same_object_def split: if_splits)
  ultimately show ?thesis using synced(1) by (intro exI [of _ "pre @ calls"]) simp
qed

text \<open>The first Reconcile of a new object.\<close>

theorem Reconcile_on_behalf_witness:
  "\<exists>params. list_all (acts_for demo_req (demo_ss demo_status0)) (demo_before @ demo_fetch_calls params
     @ [patch_call (demo_ss demo_inited) ''secret'' True, StatusUpdate (demo_ss demo_synced) True])"
proof -
  let ?E = "demo_env demo_status0 (Some fmempty) None"
  obtain params where r: "run_state (Reconcile ?E demo_req) (demo_rc, demo_w0)
   = (Ret None, (demo_rc', \<lparr>env_state = 1, trace = demo_before @ demo_fetch_calls params
       @ [patch_call (demo_ss demo_inited) ''secret'' True, StatusUpdate (demo_ss demo_synced) True]\<rparr>))"
    using demo_Reconcile by blast
  from Reconcile_on_behalf [OF r demo_get demo_stores] show ?thesis by auto
qed

end
