(* ===== verification/Regex.thy ===== *)
theory Regex
  imports GoStrings
begin

text \<open>
  Regular expressions as the source writes them (the validation
  patterns of \<^verbatim>\<open>api/v1alpha1\<close>): their language, and a matcher by derivatives that decides it. All of
  them are anchored at both ends.
\<close>

datatype re =
    RVoid
  | REps
  | RCls "char \<Rightarrow> bool"
  | RSeq re re
  | RAlt re re
  | RStar re

text \<open>The character ranges the patterns use.\<close>

definition lower :: "char \<Rightarrow> bool" where "lower c = in_range 97 122 c"
definition upper :: "char \<Rightarrow> bool" where "upper c = in_range 65 90 c"
definition digit :: "char \<Rightarrow> bool" where "digit c = in_range 48 57 c"
definition alnum :: "char \<Rightarrow> bool" where "alnum c = (upper c \<or> lower c \<or> digit c)"

definition ropt :: "re \<Rightarrow> re" where "ropt r = RAlt REps r"
definition rplus :: "re \<Rightarrow> re" where "rplus r = RSeq r (RStar r)"

inductive in_re :: "re \<Rightarrow> string \<Rightarrow> bool" where
  in_eps: "in_re REps []"
| in_cls: "P c \<Longrightarrow> in_re (RCls P) [c]"
| in_seq: "in_re r s \<Longrightarrow> in_re q t \<Longrightarrow> in_re (RSeq r q) (s @ t)"
| in_left: "in_re r s \<Longrightarrow> in_re (RAlt r q) s"
| in_right: "in_re q s \<Longrightarrow> in_re (RAlt r q) s"
| in_stop: "in_re (RStar r) []"
| in_more: "in_re r s \<Longrightarrow> in_re (RStar r) t \<Longrightarrow> in_re (RStar r) (s @ t)"

inductive_simps in_re_simps [simp]:
  "in_re RVoid s" "in_re REps s" "in_re (RCls P) s" "in_re (RSeq r q) s" "in_re (RAlt r q) s"

primrec nullable :: "re \<Rightarrow> bool" where
  "nullable RVoid = False"
| "nullable REps = True"
| "nullable (RCls P) = False"
| "nullable (RSeq r q) = (nullable r \<and> nullable q)"
| "nullable (RAlt r q) = (nullable r \<or> nullable q)"
| "nullable (RStar r) = True"

primrec deriv :: "char \<Rightarrow> re \<Rightarrow> re" where
  "deriv c RVoid = RVoid"
| "deriv c REps = RVoid"
| "deriv c (RCls P) = (if P c then REps else RVoid)"
| "deriv c (RSeq r q) = (if nullable r then RAlt (RSeq (deriv c r) q) (deriv c q) else RSeq (deriv c r) q)"
| "deriv c (RAlt r q) = RAlt (deriv c r) (deriv c q)"
| "deriv c (RStar r) = RSeq (deriv c r) (RStar r)"

fun re_match :: "re \<Rightarrow> string \<Rightarrow> bool" where
  "re_match r [] = nullable r"
| "re_match r (c # s) = re_match (deriv c r) s"

section \<open>The matcher decides the language\<close>

lemma nullable_iff: "nullable r \<longleftrightarrow> in_re r []"
  by (induction r) (auto intro: in_stop)

lemma in_star_Cons: "in_re (RStar r) (c # s) \<longleftrightarrow> (\<exists>s1 s2. s = s1 @ s2 \<and> in_re r (c # s1) \<and> in_re (RStar r) s2)"
proof
  assume "in_re (RStar r) (c # s)"
  then show "\<exists>s1 s2. s = s1 @ s2 \<and> in_re r (c # s1) \<and> in_re (RStar r) s2"
  proof (induction "RStar r" "c # s" rule: in_re.induct)
    case (in_more s1 t)
    then show ?case by (cases s1) auto
  qed
next
  assume "\<exists>s1 s2. s = s1 @ s2 \<and> in_re r (c # s1) \<and> in_re (RStar r) s2"
  then show "in_re (RStar r) (c # s)" using in_more by fastforce
qed

lemma deriv_iff: "in_re (deriv c r) s \<longleftrightarrow> in_re r (c # s)"
proof (induction r arbitrary: s)
  case (RSeq r q)
  have "in_re (RSeq r q) (c # s) \<longleftrightarrow> (in_re r [] \<and> in_re q (c # s))
      \<or> (\<exists>s1 s2. s = s1 @ s2 \<and> in_re r (c # s1) \<and> in_re q s2)"
    by (auto simp: Cons_eq_append_conv)
  with RSeq show ?case by (auto simp: nullable_iff)
next
  case (RStar r)
  then show ?case by (auto simp: in_star_Cons)
qed auto

lemma re_match_iff: "re_match r s \<longleftrightarrow> in_re r s"
  by (induction s arbitrary: r) (simp_all add: nullable_iff deriv_iff)

section \<open>Characters of a match\<close>

primrec re_chars :: "re \<Rightarrow> char \<Rightarrow> bool" where
  "re_chars RVoid c = False"
| "re_chars REps c = False"
| "re_chars (RCls P) c = P c"
| "re_chars (RSeq r q) c = (re_chars r c \<or> re_chars q c)"
| "re_chars (RAlt r q) c = (re_chars r c \<or> re_chars q c)"
| "re_chars (RStar r) c = re_chars r c"

lemma in_re_chars: "in_re r s \<Longrightarrow> list_all (re_chars r) s"
  by (induction rule: in_re.induct) (auto simp: list_all_iff)

section \<open>Code points\<close>

text \<open>The number of code points of a string, which length limits count; an invalid byte counts as one.\<close>

function rune_count :: "string \<Rightarrow> nat" where
  "rune_count [] = 0"
| "rune_count (c # s) = Suc (rune_count (drop (rune_len (c # s) - 1) s))"
  by pat_completeness auto
termination
  by (relation "measure length") auto

end
