(* ===== verification/Admission.thy ===== *)
theory Admission
  imports SyncProtocol Regex
begin

text \<open>
  The validation markers of \<^verbatim>\<open>api/v1alpha1/secretsync_types.go\<close>, which the API server checks before it
  stores a SecretSync, with the schema of conditions from the CRD; what the controller's own checks can
  still find in a stored object, and that a status the controller sends is valid again exactly when its
  messages are not too long.
\<close>

section \<open>Patterns\<close>

text \<open>\<^verbatim>\<open>[-A-Za-z0-9]+([-._a-zA-Z0-9]?[A-Za-z0-9])*\<close>, the common tail of two of the patterns.\<close>

definition word_tail :: re where
  "word_tail = RSeq (rplus (RCls (\<lambda>c. c = CHR ''-'' \<or> alnum c)))
     (RStar (RSeq (ropt (RCls (\<lambda>c. c \<in> {CHR ''-'', CHR ''.'', CHR ''_''} \<or> alnum c))) (RCls alnum)))"

definition pathPattern :: re where
  "pathPattern = RSeq (RCls (\<lambda>c. alnum c \<or> c = CHR ''.'')) (RSeq (ropt word_tail)
     (RStar (RSeq (RCls (\<lambda>c. c = CHR ''/'')) (rplus (RCls digit)))))"

text \<open>\<^verbatim>\<open>[a-z0-9]([-a-z0-9]*[a-z0-9])?\<close>, a DNS label.\<close>

definition dns_label :: re where
  "dns_label = RSeq (RCls (\<lambda>c. lower c \<or> digit c))
     (ropt (RSeq (RStar (RCls (\<lambda>c. c = CHR ''-'' \<or> lower c \<or> digit c))) (RCls (\<lambda>c. lower c \<or> digit c))))"

definition namePattern :: re where
  "namePattern = RSeq dns_label (RStar (RSeq (RCls (\<lambda>c. c = CHR ''.'')) dns_label))"

definition forcePattern :: re where
  "forcePattern = RSeq (RCls alnum) (ropt word_tail)"

section \<open>Validation of an object\<close>

definition SecretObjectData_valid :: "SecretObjectData \<Rightarrow> bool" where
  "SecretObjectData_valid d \<longleftrightarrow>
     1 \<le> rune_count (sod_SourcePath d) \<and> rune_count (sod_SourcePath d) \<le> 253 \<and> re_match pathPattern (sod_SourcePath d)
     \<and> 1 \<le> rune_count (sod_TargetKey d) \<and> rune_count (sod_TargetKey d) \<le> 253 \<and> re_match pathPattern (sod_TargetKey d)"

definition startsWith :: "string \<Rightarrow> string \<Rightarrow> bool" where
  "startsWith s p \<longleftrightarrow> take (length p) s = p"

definition metadata_valid :: "(nat \<Rightarrow> bool) \<Rightarrow> nat \<Rightarrow> string gomap option \<Rightarrow> bool" where
  "metadata_valid key_size value_max m \<longleftrightarrow> (case m of None \<Rightarrow> True
    | Some m \<Rightarrow> fm_all (\<lambda>k v. key_size (rune_count k) \<and> rune_count v \<le> value_max
        \<and> \<not> startsWith k ''secrets-store.sync.x-k8s.io'') m)"

text \<open>A list of type map with key targetKey has no two entries with the same target key.\<close>

definition SecretObject_valid :: "SecretObject \<Rightarrow> bool" where
  "SecretObject_valid so \<longleftrightarrow> rune_count (so_Type so) \<le> 253
     \<and> so_Data so \<noteq> [] \<and> list_all SecretObjectData_valid (so_Data so) \<and> distinct (map sod_TargetKey (so_Data so))
     \<and> metadata_valid (\<lambda>n. n \<le> 317) 63 (so_Labels so)
     \<and> metadata_valid (\<lambda>n. n < 317) 262144 (so_Annotations so)"

definition name_valid :: "string \<Rightarrow> bool" where
  "name_valid s \<longleftrightarrow> 1 \<le> rune_count s \<and> rune_count s \<le> 253 \<and> re_match namePattern s"

definition SecretSyncSpec_valid :: "SecretSyncSpec \<Rightarrow> bool" where
  "SecretSyncSpec_valid sp \<longleftrightarrow> name_valid (sp_SecretProviderClassName sp) \<and> name_valid (sp_ServiceAccountName sp)
     \<and> SecretObject_valid (sp_SecretObject sp)
     \<and> (sp_ForceSynchronization sp = [] \<or> rune_count (sp_ForceSynchronization sp) \<le> 253
          \<and> re_match forcePattern (sp_ForceSynchronization sp))"

text \<open>
  The schema of a condition in the CRD: \<^verbatim>\<open>[A-Za-z]([A-Za-z0-9_,:]*[A-Za-z0-9_])?\<close> for the reason, an
  optional DNS prefix and a name for the type, at most 32768 characters for the message. The status is an
  enumeration here, and the time of the transition is always there.
\<close>

definition reasonPattern :: re where
  "reasonPattern = RSeq (RCls (\<lambda>c. upper c \<or> lower c))
     (ropt (RSeq (RStar (RCls (\<lambda>c. alnum c \<or> c \<in> {CHR ''_'', CHR '','', CHR '':''}))) (RCls (\<lambda>c. alnum c \<or> c = CHR ''_''))))"

definition typePattern :: re where
  "typePattern = RSeq (ropt (RSeq namePattern (RCls (\<lambda>c. c = CHR ''/''))))
     (RSeq (ropt (RSeq (RCls alnum) (RStar (RCls (\<lambda>c. alnum c \<or> c \<in> {CHR ''-'', CHR ''_'', CHR ''.''}))))) (RCls alnum))"

definition Condition_valid :: "Condition \<Rightarrow> bool" where
  "Condition_valid c \<longleftrightarrow> 1 \<le> rune_count (c_Reason c) \<and> rune_count (c_Reason c) \<le> 1024 \<and> re_match reasonPattern (c_Reason c)
     \<and> rune_count (c_Type c) \<le> 316 \<and> re_match typePattern (c_Type c)
     \<and> rune_count (c_Message c) \<le> 32768 \<and> 0 \<le> sint (c_ObservedGeneration c)"

definition SecretSyncStatus_valid :: "SecretSyncStatus \<Rightarrow> bool" where
  "SecretSyncStatus_valid st \<longleftrightarrow> distinct (map c_Type (st_Conditions st)) \<and> length (st_Conditions st) \<le> 16
     \<and> list_all Condition_valid (st_Conditions st)"

definition SecretSync_valid :: "SecretSync \<Rightarrow> bool" where
  "SecretSync_valid ss \<longleftrightarrow> SecretSyncSpec_valid (ss_Spec ss) \<and> SecretSyncStatus_valid (ss_Status ss)"

text \<open>The part of it that the constants of the controller decide.\<close>

definition named_ok :: "Condition \<Rightarrow> bool" where
  "named_ok c \<longleftrightarrow> 1 \<le> rune_count (c_Reason c) \<and> rune_count (c_Reason c) \<le> 1024 \<and> re_match reasonPattern (c_Reason c)
     \<and> rune_count (c_Type c) \<le> 316 \<and> re_match typePattern (c_Type c)"

lemma Condition_valid_iff: "Condition_valid c \<longleftrightarrow> named_ok c \<and> rune_count (c_Message c) \<le> 32768 \<and> 0 \<le> sint (c_ObservedGeneration c)"
  by (auto simp: Condition_valid_def named_ok_def)

section \<open>What the controller can rely on\<close>

lemma pattern_chars_graph: "re_chars pathPattern c \<Longrightarrow> graph c"
  by (auto simp: pathPattern_def word_tail_def ropt_def rplus_def alnum_def upper_def lower_def digit_def in_range_def graph_def)

lemma path_graph: "re_match pathPattern s \<Longrightarrow> list_all graph s \<and> s \<noteq> []"
proof -
  assume m: "re_match pathPattern s"
  then have "list_all (re_chars pathPattern) s" by (simp add: re_match_iff in_re_chars)
  moreover have "s \<noteq> []" using m by (auto simp: pathPattern_def)
  ultimately show ?thesis by (auto simp: list_all_iff pattern_chars_graph)
qed

lemma path_trim: "re_match pathPattern s \<Longrightarrow> TrimSpace s = s \<and> s \<noteq> []"
  using path_graph [of s] hd_in_set [of s] last_in_set [of s] by (auto simp: list_all_iff intro: TrimSpace_graph)

lemma metadata_unreserved:
  "metadata_valid ks vm m \<Longrightarrow> nil_lookup m ''secrets-store.sync.x-k8s.io'' = None"
proof (cases m)
  case (Some l)
  assume "metadata_valid ks vm m"
  with Some have "fmpred (\<lambda>k v. \<not> startsWith k ''secrets-store.sync.x-k8s.io'') l"
    by (auto simp: metadata_valid_def fm_all_iff fmpred_iff)
  with Some show ?thesis by (cases "fmlookup l ''secrets-store.sync.x-k8s.io''")
      (auto simp: nil_lookup_def startsWith_def dest: fmpredD)
qed (simp add: nil_lookup_def)

text \<open>
  A stored object never trips the controller's own metadata check: if the API server validated
  the SecretSync, validateLabelsAnnotations accepts it, so the reserved-label and reserved-annotation
  conditions only arise where the custom resource is installed without its validation; and its
  conditions have distinct types, as the condition updates require.
\<close>

theorem admitted_validates:
  assumes "SecretSync_valid ss"
  shows "validateLabelsAnnotations (sp_SecretObject (ss_Spec ss)) = None \<and> unique_types (conds ss)"
proof -
  have "nil_lookup (so_Labels (sp_SecretObject (ss_Spec ss))) controllerLabelKey = None"
    "nil_lookup (so_Annotations (sp_SecretObject (ss_Spec ss))) controllerAnnotationKey = None"
    using assms unfolding controllerLabelKey_def controllerAnnotationKey_def
    by (auto simp: SecretSync_valid_def SecretSyncSpec_valid_def SecretObject_valid_def intro: metadata_unreserved)
  with assms show ?thesis
    by (simp add: validateLabelsAnnotations_def unique_types_def SecretSync_valid_def SecretSyncStatus_valid_def)
qed

section \<open>The data of a stored object\<close>

lemma build_admitted:
  assumes "list_all SecretObjectData_valid ds" "secretType \<noteq> SecretTypeTLS"
  shows "if list_all (\<lambda>d. fmlookup files (sod_SourcePath d) \<noteq> None) ds
     then build_loop C secretType files dm ds
       = Ret (foldl (\<lambda>m d. fmupd (sod_TargetKey d) (the (fmlookup files (sod_SourcePath d))) m) dm ds, None)
     else \<exists>m d. d \<in> set ds \<and> fmlookup files (sod_SourcePath d) = None
       \<and> build_loop C secretType files dm ds = Ret (m, Some (errNoFile (sod_SourcePath d)))"
  using assms(1)
proof (induction ds arbitrary: dm)
  case (Cons d ds)
  have trim: "TrimSpace (sod_SourcePath d) = sod_SourcePath d" "TrimSpace (sod_TargetKey d) = sod_TargetKey d"
    "sod_SourcePath d \<noteq> []" "sod_TargetKey d \<noteq> []"
    using Cons.prems by (auto simp: SecretObjectData_valid_def dest: path_trim)
  show ?case
  proof (cases "fmlookup files (sod_SourcePath d)")
    case None
    with trim show ?thesis by auto
  next
    case (Some v)
    with Cons.IH [of "fmupd (sod_TargetKey d) v dm"] Cons.prems trim assms(2) show ?thesis
      by (auto simp: Let_def split: if_splits)
  qed
qed simp

lemma foldl_fmupd_distinct:
  assumes "distinct (map f xs)" "x \<in> set xs"
  shows "fmlookup (foldl (\<lambda>m x. fmupd (f x) (g x) m) m0 xs) (f x) = Some (g x)"
proof -
  have "find (\<lambda>y. f y = f x) (rev xs) = Some x"
    using assms find_None_iff [of "\<lambda>y. f y = f x" "rev xs"] find_Some_iff [of "\<lambda>y. f y = f x" "rev xs"]
    by (cases "find (\<lambda>y. f y = f x) (rev xs)") (auto simp: distinct_map inj_on_def, metis nth_mem set_rev length_rev)
  then show ?thesis by (simp add: foldl_fmupd_lookup)
qed

lemma foldl_fmupd_dom:
  "fset (fmdom (foldl (\<lambda>m x. fmupd (f x) (g x) m) m0 xs)) = fset (fmdom m0) \<union> f ` set xs"
  by (induction xs arbitrary: m0) auto

text \<open>
  C38: What a stored object gets. For a validated object of any type but TLS, building the data never
  fails over its own entries: paths and keys are used exactly as written, it fails only if the
  provider delivered no file for some source path, naming that path, and otherwise the data has
  exactly the target keys, each with the content of its file.
\<close>

theorem admitted_secret_data:
  assumes "SecretObject_valid so" "so_Type so \<noteq> SecretTypeTLS"
  shows "if list_all (\<lambda>d. fmlookup files (sod_SourcePath d) \<noteq> None) (so_Data so)
     then \<exists>m. BuildKubeSecretData C (so_Data so) (so_Type so) files = Ret (m, None)
       \<and> fset (fmdom m) = set (map sod_TargetKey (so_Data so))
       \<and> list_all (\<lambda>d. fmlookup m (sod_TargetKey d) = fmlookup files (sod_SourcePath d)) (so_Data so)
     else \<exists>m d. d \<in> set (so_Data so) \<and> fmlookup files (sod_SourcePath d) = None
       \<and> BuildKubeSecretData C (so_Data so) (so_Type so) files = Ret (m, Some (errNoFile (sod_SourcePath d)))"
proof -
  let ?ds = "so_Data so"
  have v: "list_all SecretObjectData_valid ?ds" "distinct (map sod_TargetKey ?ds)"
    using assms(1) by (auto simp: SecretObject_valid_def)
  note b = build_admitted [OF v(1) assms(2), of files C fmempty]
  let ?m = "foldl (\<lambda>m d. fmupd (sod_TargetKey d) (the (fmlookup files (sod_SourcePath d))) m) fmempty ?ds"
  have "list_all (\<lambda>d. fmlookup ?m (sod_TargetKey d) = fmlookup files (sod_SourcePath d)) ?ds"
    if "list_all (\<lambda>d. fmlookup files (sod_SourcePath d) \<noteq> None) ?ds"
    using that foldl_fmupd_distinct [OF v(2), of _ "\<lambda>d. the (fmlookup files (sod_SourcePath d))" fmempty]
    by (simp add: list_all_iff)
  with b show ?thesis
    by (simp add: BuildKubeSecretData_def foldl_fmupd_dom split: if_splits)
qed

text \<open>A valid object with two entries.\<close>

definition demo_object :: SecretObject where
  "demo_object = \<lparr>so_Type = ''Opaque'', so_Data = [demo_entry ''db-user'' ''user'', demo_entry ''db/1'' ''.pass''],
     so_Labels = Some (fmap_of_list [(''app'', ''x'')]), so_Annotations = None\<rparr>"

definition demo_admitted :: SecretSync where
  "demo_admitted = (demo_ss demo_synced)\<lparr>ss_Spec := (ss_Spec (demo_ss demo_synced))\<lparr>sp_SecretObject := demo_object\<rparr>\<rparr>"

lemma demo_object_valid: "SecretObject_valid demo_object"
proof -
  have "list_all SecretObjectData_valid [demo_entry ''db-user'' ''user'', demo_entry ''db/1'' ''.pass'']" by code_simp
  moreover have "metadata_valid (\<lambda>n. n \<le> 317) 63 (Some (fmap_of_list [(''app'', ''x'')]))" by code_simp
  moreover have "rune_count ''Opaque'' \<le> 253" by code_simp
  ultimately show ?thesis
    by (simp add: SecretObject_valid_def demo_object_def demo_entry_def metadata_valid_def)
qed

lemma demo_messages: "rune_count ConditionMessageCreateSuccessful = 28" "rune_count ConditionMessageUpdateSuccessful = 37"
  by code_simp+

lemma demo_synced_valid: "SecretSyncStatus_valid demo_synced"
proof -
  have "list_all named_ok (st_Conditions demo_synced)" by code_simp
  then have "list_all Condition_valid (st_Conditions demo_synced)"
    by (simp add: Condition_valid_iff demo_synced_def demo_conds_def) (simp add: new_condition_def demo_messages)
  then show ?thesis using demo_unique by (simp add: SecretSyncStatus_valid_def demo_synced_def unique_types_def) (simp add: demo_conds_def)
qed

lemma demo_admitted_valid: "SecretSync_valid demo_admitted"
proof -
  have "name_valid ''spc''" "name_valid ''sa''" by code_simp+
  moreover have "SecretSyncStatus_valid demo_synced" by (rule demo_synced_valid)
  ultimately show ?thesis
    by (simp add: SecretSync_valid_def SecretSyncSpec_valid_def demo_admitted_def demo_ss_def demo_object_valid)
qed

theorem admitted_validates_witness:
  "SecretSync_valid demo_admitted \<and> validateLabelsAnnotations (sp_SecretObject (ss_Spec demo_admitted)) = None"
  using admitted_validates [OF demo_admitted_valid] demo_admitted_valid by simp

theorem admitted_secret_data_witness:
  "\<exists>m. BuildKubeSecretData demo_rsa (so_Data demo_object) ''Opaque''
       (fmap_of_list [(''db-user'', Some ''u''), (''db/1'', Some ''p'')]) = Ret (m, None)
     \<and> fset (fmdom m) = {''user'', ''.pass''}"
proof -
  have t: "so_Type demo_object = ''Opaque''" "so_Type demo_object \<noteq> SecretTypeTLS"
    by (simp_all add: demo_object_def SecretTypeTLS_def)
  from admitted_secret_data [OF demo_object_valid t(2), of "fmap_of_list [(''db-user'', Some ''u''), (''db/1'', Some ''p'')]" demo_rsa]
  show ?thesis unfolding t(1) by (auto simp: demo_object_def demo_entry_def fmlookup_of_list)
qed

section \<open>The status that is sent\<close>

text \<open>
  The controller is the only one to set conditions. Their types and reasons come from its constants; the messages
  of failures come from elsewhere.
\<close>

definition controller_reasons :: "string list" where
  "controller_reasons = [ConditionReasonFailedProviderError, ConditionReasonFailedInvalidLabelError,
     ConditionReasonFailedInvalidAnnotationError, ConditionReasonControllerSyncError, ConditionReasonControllerPatchError,
     ConditionReasonControllerSpcError, ConditionReasonRemoteSecretStoreFetchFailed, ConditionReasonSyncStarting,
     ConditionReasonNoUpdateAttemptedYet, ConditionReasonSecretUpToDate, ConditionReasonCreateSuccessful]"

lemma in_star_cls: "list_all P s \<Longrightarrow> in_re (RStar (RCls P)) s"
proof (induction s)
  case (Cons c s)
  then show ?case using in_more [of "RCls P" "[c]" s] by simp
qed (rule in_stop)

text \<open>A word of letters is a valid reason and a valid type.\<close>

lemma letters_valid:
  assumes "list_all (\<lambda>c. upper c \<or> lower c) s" "s \<noteq> []"
  shows "re_match reasonPattern s" "re_match typePattern s"
proof -
  obtain c t where s: "s = c # t" using assms(2) by (cases s) auto
  let ?P = "\<lambda>c. alnum c \<or> c \<in> {CHR ''_'', CHR '','', CHR '':''}"
  have c: "in_re (RCls (\<lambda>c. upper c \<or> lower c)) [c]" using assms s by simp
  have "in_re (ropt (RSeq (RStar (RCls ?P)) (RCls (\<lambda>c. alnum c \<or> c = CHR ''_'')))) t"
  proof (cases t rule: rev_cases)
    case (snoc u d)
    then have "in_re (RStar (RCls ?P)) u" using assms s by (intro in_star_cls) (auto simp: list_all_iff alnum_def)
    moreover have "in_re (RCls (\<lambda>c. alnum c \<or> c = CHR ''_'')) [d]" using assms s snoc by (auto simp: alnum_def)
    ultimately show ?thesis unfolding ropt_def snoc by (intro in_right in_seq)
  qed (simp add: ropt_def)
  from in_seq [OF c this] show "re_match reasonPattern s" by (simp add: re_match_iff reasonPattern_def s del: in_re_simps)
  obtain u d where u: "s = u @ [d]" using assms(2) by (cases s rule: rev_cases) auto
  let ?Q = "\<lambda>c. alnum c \<or> c \<in> {CHR ''-'', CHR ''_'', CHR ''.''}"
  have "in_re (ropt (RSeq (RCls alnum) (RStar (RCls ?Q)))) u"
  proof (cases u)
    case (Cons a v)
    have "in_re (RStar (RCls ?Q)) v" using assms u Cons by (intro in_star_cls) (auto simp: list_all_iff alnum_def)
    moreover have "in_re (RCls alnum) [a]" using assms u Cons by (auto simp: alnum_def)
    ultimately have "in_re (RSeq (RCls alnum) (RStar (RCls ?Q))) ([a] @ v)" by (intro in_seq)
    then show ?thesis unfolding ropt_def Cons by (intro in_right) simp
  qed (simp add: ropt_def)
  moreover have "in_re (RCls alnum) [d]" using assms u by (auto simp: alnum_def)
  moreover have "in_re (ropt (RSeq namePattern (RCls (\<lambda>c. c = CHR ''/'')))) []" by (simp add: ropt_def)
  ultimately have "in_re typePattern ([] @ u @ [d])" unfolding typePattern_def by (intro in_seq)
  then show "re_match typePattern s" by (simp add: re_match_iff u)
qed

lemma controller_reasons_valid: "list_all (\<lambda>r. 1 \<le> rune_count r \<and> rune_count r \<le> 1024 \<and> re_match reasonPattern r) controller_reasons"
proof -
  have "list_all (\<lambda>r. 1 \<le> rune_count r \<and> rune_count r \<le> 1024 \<and> list_all (\<lambda>c. upper c \<or> lower c) r \<and> r \<noteq> []) controller_reasons" by code_simp
  with letters_valid(1) show ?thesis by (simp add: list_all_iff)
qed

lemma controller_types_valid:
  "list_all (\<lambda>t. rune_count t \<le> 316 \<and> re_match typePattern t) [ConditionTypeCreate, ConditionTypeUpdate]"
proof -
  have "list_all (\<lambda>t. rune_count t \<le> 316 \<and> list_all (\<lambda>c. upper c \<or> lower c) t \<and> t \<noteq> []) [ConditionTypeCreate, ConditionTypeUpdate]" by code_simp
  with letters_valid(2) show ?thesis by (simp add: list_all_iff)
qed

definition named_conditions :: "Condition list \<Rightarrow> bool" where
  "named_conditions cs \<longleftrightarrow> own_conditions cs \<and> list_all named_ok cs"

lemma cond_set_own:
  assumes "cond_set t st reason cs cs'" "named_conditions cs"
    and "t \<in> {ConditionTypeCreate, ConditionTypeUpdate}" "reason \<in> set controller_reasons"
  shows "named_conditions cs'"
proof -
  have u: "unique_types cs'" using assms(1) by (simp add: cond_set_def)
  have "c_Type c \<in> {ConditionTypeCreate, ConditionTypeUpdate} \<and> named_ok c" if c: "c \<in> set cs'" for c
  proof (cases "c_Type c = t")
    case True
    with unique_condition_of [OF u c] assms(1) have "c_Reason c = reason" by (auto simp: cond_set_def)
    then show ?thesis
      using True assms(3,4) controller_reasons_valid controller_types_valid by (auto simp: named_ok_def list_all_iff)
  next
    case False
    with unique_condition_of [OF u c] assms(1) have "condition_of (c_Type c) cs = Some c" by (simp add: cond_set_def)
    from condition_of_mem [OF this] assms(2) show ?thesis by (auto simp: named_conditions_def own_conditions_def list_all_iff)
  qed
  with u show ?thesis by (auto simp: named_conditions_def own_conditions_def list_all_iff)
qed

lemma marked_named:
  assumes "marked ct changed cs cs'" "named_conditions cs" "ct \<in> {ConditionTypeCreate, ConditionTypeUpdate}"
  shows "named_conditions cs'"
proof -
  have r: "ConditionReasonCreateSuccessful \<in> set controller_reasons" "ConditionReasonSecretUpToDate \<in> set controller_reasons"
    by (simp_all add: controller_reasons_def)
  show ?thesis
    using assms cond_set_own [OF _ _ _ r(1)] cond_set_own [OF _ _ _ r(2)] unfolding marked_def by (auto split: if_splits)
qed

lemma initialised_own:
  assumes "initialised cs cs'" "named_conditions cs"
  shows "named_conditions cs'"
proof -
  have r: "ConditionReasonSyncStarting \<in> set controller_reasons" "ConditionReasonNoUpdateAttemptedYet \<in> set controller_reasons"
    by (simp_all add: controller_reasons_def)
  from assms(1) obtain c where "cond_set ConditionTypeCreate ConditionUnknown ConditionReasonSyncStarting cs c"
    "cond_set ConditionTypeUpdate ConditionUnknown ConditionReasonNoUpdateAttemptedYet c cs'" by (auto simp: initialised_def)
  from cond_set_own [OF this(2) cond_set_own [OF this(1) assms(2) _ r(1)] _ r(2)] show ?thesis by simp
qed

text \<open>A status update of the object with conditions of the controller and the same spec.\<close>

definition sends_own :: "SecretSync \<Rightarrow> call \<Rightarrow> bool" where
  "sends_own ss c \<longleftrightarrow> (case c of StatusUpdate s ok \<Rightarrow> named_conditions (conds s) \<and> ss_Spec s = ss_Spec ss | _ \<Rightarrow> True)"

lemma sends_own_quiet: "\<not> is_write c \<Longrightarrow> sends_own ss c"
  by (simp add: sends_own_def is_write_def split: call.splits)

lemma sends_own_update:
  "named_conditions cs \<Longrightarrow> sends_own ss (StatusUpdate (set_conditions cs ss) ok)"
  "named_conditions cs \<Longrightarrow> sends_own ss (StatusUpdate (set_sync h t (set_conditions cs ss)) ok)"
  by (simp_all add: sends_own_def set_sync_def)

lemma wrote_back_own:
  assumes "wrote_back E ss ct h datamap err ws" "sets_condition E" "named_conditions (conds ss)" "ct \<in> {ConditionTypeCreate, ConditionTypeUpdate}"
  shows "list_all (sends_own ss) ws"
proof -
  have g: "good E ss" using assms(2,3) by (simp add: good_def named_conditions_def own_conditions_def)
  have r: "ConditionReasonControllerPatchError \<in> set controller_reasons" by (simp add: controller_reasons_def)
  show ?thesis
    using assms(1)
  proof (cases rule: wrote_back_cases)
    case (patched cs1 data now ok)
    with g have "named_conditions cs1" by (intro marked_named [OF _ assms(3,4)]) auto
    with patched show ?thesis by (simp add: sends_own_update) (simp add: sends_own_def patch_call_def)
  next
    case (failed cs1 cs2 e pre ok)
    with g have "named_conditions cs1" by (intro marked_named [OF _ assms(3,4)]) auto
    with failed g have "named_conditions cs2" by (auto intro: cond_set_own [OF _ _ assms(4) r])
    with failed show ?thesis by (auto simp: sends_own_update) (auto simp: sends_own_def patch_call_def)
  qed simp
qed

lemma failed_write_own:
  assumes "failed_write E ss ct reason s" "sets_condition E" "named_conditions (conds ss)"
    and "ct \<in> {ConditionTypeCreate, ConditionTypeUpdate}" "reason \<in> set controller_reasons"
  shows "sends_own ss (StatusUpdate s ok)"
  using assms cond_set_own [OF _ assms(3-5)] by (auto simp: failed_write_def good_def named_conditions_def own_conditions_def intro: sends_own_update)

lemma fetch_reasons_own: "set fetch_reasons \<subseteq> set controller_reasons"
  by (simp add: fetch_reasons_def controller_reasons_def)

lemma sync_spec_own:
  assumes "sync_spec E req ss ct r calls" "sets_condition E" "named_conditions (conds ss)" "ct \<in> {ConditionTypeCreate, ConditionTypeUpdate}"
  shows "list_all (sends_own ss) calls"
  using assms(1)
proof cases
  case (invalid reason err s ok)
  then have "reason \<in> set controller_reasons" by (auto simp: validateLabelsAnnotations_def controller_reasons_def split: if_splits)
  with invalid failed_write_own [OF _ assms(2-4)] show ?thesis by simp
next
  case (no_spc s err ok)
  moreover have "ConditionReasonControllerSpcError \<in> set controller_reasons" by (simp add: controller_reasons_def)
  ultimately show ?thesis using failed_write_own [OF _ assms(2-4)] by (simp add: sends_own_quiet)
next
  case (crash qs m)
  then show ?thesis by (auto simp: list_all_iff sends_own_quiet)
next
  case (no_data qs reason s err ok)
  with fetch_reasons_own failed_write_own [OF no_data(6) assms(2-4)] show ?thesis by (auto simp: list_all_iff sends_own_quiet)
next
  case (written qs files datamap spc h err ws v)
  with wrote_back_own [OF _ assms(2-4)] show ?thesis by (auto simp: list_all_iff sends_own_quiet)
qed

lemma reconcile_spec_own:
  assumes "reconcile_spec E req (Inr ss) r calls" "sets_condition E" "named_conditions (conds ss)"
    and echo: "\<And>s v s'. fst (Status_Update E s v) = Inr s' \<Longrightarrow> ss_Status s' = ss_Status s \<and> ss_Spec s' = ss_Spec s"
  shows "list_all (sends_own ss) calls"
proof -
  have ct: "condition_type ss \<in> {ConditionTypeCreate, ConditionTypeUpdate}" by (simp add: condition_type_def)
  have g: "good E ss" using assms(2,3) by (simp add: good_def named_conditions_def own_conditions_def)
  from assms(1) show ?thesis
  proof cases
    case (init_failed err cs)
    with initialised_own [OF _ assms(3)] g show ?thesis by (simp add: sends_own_update sends_own_quiet)
  next
    case (inited cs v ss' calls')
    have cs: "named_conditions cs" using inited g initialised_own [OF _ assms(3)] by simp
    have ss': "conds ss' = cs" "ss_Spec ss' = ss_Spec ss" using echo [OF inited(3)] by simp_all
    from sync_spec_own [OF inited(4) assms(2) _ ct] cs ss' have "list_all (sends_own ss') calls'" by simp
    moreover have "sends_own ss' = sends_own ss" using ss'(2) by (intro ext) (simp add: sends_own_def split: call.splits)
    ultimately have "list_all (sends_own ss) calls'" by simp
    with cs inited(1) show ?thesis by (simp add: sends_own_update sends_own_quiet)
  next
    case (ready calls')
    from sync_spec_own [OF ready(3) assms(2,3) ct] ready(1) show ?thesis by (simp add: sends_own_quiet)
  qed
qed

lemma named_status_valid:
  assumes "named_conditions (st_Conditions st)"
  shows "SecretSyncStatus_valid st \<longleftrightarrow> list_all (\<lambda>c. rune_count (c_Message c) \<le> 32768 \<and> 0 \<le> sint (c_ObservedGeneration c)) (st_Conditions st)"
proof -
  let ?t = "map c_Type (st_Conditions st)"
  have own: "distinct ?t" "set ?t \<subseteq> {ConditionTypeCreate, ConditionTypeUpdate}" "list_all named_ok (st_Conditions st)"
    using assms by (auto simp: named_conditions_def own_conditions_def unique_types_def list_all_iff)
  have "length (st_Conditions st) = card (set ?t)" using distinct_card [OF own(1)] by simp
  also have "\<dots> \<le> card {ConditionTypeCreate, ConditionTypeUpdate}" using own(2) by (intro card_mono) simp_all
  also have "\<dots> \<le> 16" by (simp add: card_insert_if)
  finally show ?thesis using own(1,3) by (auto simp: SecretSyncStatus_valid_def Condition_valid_iff list_all_iff)
qed

text \<open>
  \<^verbatim>\<open>meta.SetStatusCondition\<close> updates all fields of the condition of the type, so the generation is that of the new
  condition, 0 for the controller, which never sets it; the other conditions stay as they are.
\<close>

definition sets_generation :: "('w, 'z) status_env_scheme \<Rightarrow> bool" where
  "sets_generation E \<longleftrightarrow> (\<forall>cs c w. list_all (\<lambda>d. d \<in> set cs \<or> c_ObservedGeneration d = c_ObservedGeneration c) (fst (SetStatusCondition E cs c w)))"

definition generations_ok :: "SecretSync \<Rightarrow> bool" where
  "generations_ok s \<longleftrightarrow> list_all (\<lambda>c. 0 \<le> sint (c_ObservedGeneration c)) (conds s)"

definition sends_generations :: "call \<Rightarrow> bool" where
  "sends_generations c \<longleftrightarrow> (case c of StatusUpdate s ok \<Rightarrow> generations_ok s | _ \<Rightarrow> True)"

lemma sends_generations_quiet: "\<not> is_write c \<Longrightarrow> sends_generations c"
  by (simp add: sends_generations_def is_write_def split: call.splits)

lemma generation_set_condition:
  assumes "sets_generation E" "generations_ok s"
  shows "yields generations_ok (set_condition E s (new_condition t st reason msg))"
proof -
  have "generations_ok (set_conditions (fst (SetStatusCondition E (conds s) (new_condition t st reason msg) w)) s)" for w
  proof -
    have "list_all (\<lambda>d. d \<in> set (conds s) \<or> c_ObservedGeneration d = c_ObservedGeneration (new_condition t st reason msg))
        (fst (SetStatusCondition E (conds s) (new_condition t st reason msg) w))"
      using assms(1) unfolding sets_generation_def by blast
    then show ?thesis using assms(2) by (auto simp: generations_ok_def list_all_iff new_condition_def)
  qed
  then show ?thesis by (auto simp: yields_def set_condition_def run_simps split: prod.splits)
qed

lemma generation_quiet:
  assumes "quiet m"
  shows "emits sends_generations m"
proof (rule emitsI)
  fix p w a p' w'
  assume "run_state m (p, w) = (a, (p', w'))"
  from emitsD [OF assms this] show "\<exists>calls. trace w' = trace w @ calls \<and> list_all sends_generations calls"
    by (auto simp: list_all_iff sends_generations_quiet)
qed

lemma generation_update: "generations_ok s \<Longrightarrow> emits sends_generations (update_status E s)"
  unfolding update_status_def by (intro emits_intros) (simp add: sends_generations_def)

lemma generation_mark:
  assumes "sets_generation E" "generations_ok s"
  shows "yields generations_ok (updateStatusConditions E s t st reason msg False)"
    "emits sends_generations (updateStatusConditions E s t st reason msg upd)"
  unfolding updateStatusConditions_def
  by (rule yields_bind_with [OF generation_set_condition [OF assms]], auto intro: yields_return)
    (rule emits_bind_with [OF generation_set_condition [OF assms]], auto simp: set_condition_def intro!: emits_intros generation_update)

lemma generation_mark_synced:
  assumes "sets_generation E" "generations_ok s"
  shows "yields generations_ok (mark_synced E s ct changed)" "emits sends_generations (mark_synced E s ct changed)"
  unfolding mark_synced_def using assms
  by (auto intro!: yields_bind_with [OF generation_mark(1)] emits_bind_with [OF generation_mark(1)] generation_mark yields_return emits_return)

lemma generation_write_back:
  assumes "sets_generation E" "generations_ok s"
  shows "emits sends_generations (write_back E s ct h datamap)"
proof -
  have sync: "generations_ok (set_sync h t x) = generations_ok x" for h t x by (simp add: generations_ok_def set_sync_def)
  have "emits sends_generations (serverSidePatchSecret E x datamap)" for x
    unfolding serverSidePatchSecret_def Let_def by (intro emits_intros) (simp add: sends_generations_def)
  then show ?thesis unfolding write_back_def Let_def
    by (intro emits_intros emits_bind_with [OF generation_mark_synced [OF assms]] generation_mark(2) [OF assms(1)] generation_update)
      (simp_all add: sync)
qed

lemma generation_reconcile_synced:
  assumes "sets_generation E" "generations_ok s"
  shows "emits sends_generations (reconcile_synced E req s ct)"
  unfolding reconcile_synced_def Let_def
  by (intro emits_intros generation_mark(2) [OF assms] generation_write_back [OF assms] generation_quiet quiet_fetchSecretsFromProvider)
    (simp add: sends_generations_def)

lemma generation_initConditions:
  assumes "sets_generation E" "generations_ok s"
  shows "emits sends_generations (initConditions E s)"
  unfolding initConditions_def
  by (intro emits_bind_with [OF generation_set_condition] assms generation_update) (auto simp: set_condition_def intro: emits_intros)

lemma generation_Reconcile:
  assumes "run_state (Reconcile E req) (p, w) = (r, (p', w'))" "sets_generation E" "status_echo E"
    and "fst (Client_GetSecretSync E req (env_state w)) = Inr ss" "generations_ok ss"
  shows "\<exists>calls. trace w' = trace w @ calls \<and> list_all sends_generations calls"
proof -
  obtain e where g: "Client_GetSecretSync E req (env_state w) = (Inr ss, e)" using assms(4) by (metis prod.collapse)
  let ?w = "w\<lparr>env_state := e, trace := trace w @ [GetSecretSync req]\<rparr>"
  note defs = Reconcile_def run_simps Let_def g
  have read: "sends_generations (GetSecretSync req)" by (simp add: sends_generations_def)
  show ?thesis
  proof (cases "length (conds ss) < 2")
    case False
    with assms(1) have "run_state (reconcile_synced E req ss (condition_type ss)) (p, ?w) = (r, (p', w'))" by (simp add: defs)
    from emitsD [OF generation_reconcile_synced [OF assms(2,5)] this] read show ?thesis by auto
  next
    case True
    obtain s1 err p1 w1 where i: "run_state (initConditions E ss) (p, ?w) = ((s1, err), (p1, w1))" by (metis run_obtain surj_pair)
    from emitsD [OF generation_initConditions [OF assms(2,5)] i] obtain c1 where
      c1: "trace w1 = trace ?w @ c1" "list_all sends_generations c1" by blast
    show ?thesis
    proof (cases err)
      case (Some x)
      with assms(1) True i c1 read show ?thesis by (simp add: defs)
    next
      case None
      with run_initConditions [OF i] obtain cs v where cs: "trace w1 = trace ?w @ [StatusUpdate (set_conditions cs ss) True]"
        "fst (Status_Update E (set_conditions cs ss) v) = Inr s1" by auto
      with assms(3) have "ss_Status s1 = ss_Status (set_conditions cs ss)" unfolding status_echo_def by blast
      moreover have "generations_ok (set_conditions cs ss)" using c1 cs(1) by (auto simp: sends_generations_def)
      ultimately have s1: "generations_ok s1" by (simp add: generations_ok_def)
      have "run_state (reconcile_synced E req s1 (condition_type ss)) (p1, w1) = (r, (p', w'))" using assms(1) True i None by (simp add: defs)
      from emitsD [OF generation_reconcile_synced [OF assms(2) s1] this] c1 read show ?thesis by auto
    qed
  qed
qed

text \<open>
  C13: The statuses of the controller are valid up to the length of their messages. If the object that was
  read satisfies the schema and all of its conditions are of the two types of the controller, then in every status
  that Reconcile sends the conditions are again at most one of each of the two types; and the object that is sent
  satisfies the schema exactly when none of its messages is longer than the 32768 characters that the schema
  allows, which is the one limit that the controller does not enforce. Conditions are set as SetStatusCondition
  documents, and the server returns spec and status as they were sent.
\<close>

theorem Reconcile_sends_valid:
  assumes "run_state (Reconcile E req) (p, w) = (r, (p', w'))" "sets_condition E" "sets_generation E"
    and "\<And>s v s'. fst (Status_Update E s v) = Inr s' \<Longrightarrow> ss_Status s' = ss_Status s \<and> ss_Spec s' = ss_Spec s"
    and "fst (Client_GetSecretSync E req (env_state w)) = Inr ss" "SecretSync_valid ss" "own_conditions (conds ss)"
    and "trace w' = trace w @ pre @ StatusUpdate s ok # post"
  shows "own_conditions (conds s) \<and> (SecretSync_valid s \<longleftrightarrow> list_all (\<lambda>c. rune_count (c_Message c) \<le> 32768) (conds s))"
proof -
  have ss: "named_conditions (conds ss)" "generations_ok ss" "SecretSyncSpec_valid (ss_Spec ss)"
    using assms(6,7) by (auto simp: named_conditions_def generations_ok_def SecretSync_valid_def SecretSyncStatus_valid_def Condition_valid_iff list_all_iff)
  have "reconcile_spec E req (Inr ss) r (pre @ StatusUpdate s ok # post)" using run_Reconcile [OF assms(1)] assms(5,8) by auto
  then have "list_all (sends_own ss) (pre @ StatusUpdate s ok # post)" using assms(2,4) ss(1) by (intro reconcile_spec_own)
  then have s: "named_conditions (conds s)" "ss_Spec s = ss_Spec ss" by (auto simp: sends_own_def)
  have "status_echo E" using assms(4) by (auto simp: status_echo_def)
  from generation_Reconcile [OF assms(1,3) this assms(5) ss(2)] assms(8) have "generations_ok s" by (auto simp: sends_generations_def)
  then show ?thesis using named_status_valid [OF s(1)] s ss(3)
    by (auto simp: SecretSync_valid_def named_conditions_def generations_ok_def list_all_iff)
qed

text \<open>A stored object whose SecretProviderClass cannot be read: the failure is reported in a valid status.\<close>

definition unclassed_env :: "nat controller_env" where
  "unclassed_env = (demo_env demo_synced (Some fmempty) None)\<lparr>Client_GetSecretSync := (\<lambda>k w. (Inr demo_admitted, w)),
     Client_GetSecretProviderClass := (\<lambda>k w. (Inl (ErrorString ''gone''), w))\<rparr>"

lemma demo_set_generation: "list_all (\<lambda>d. d \<in> set cs \<or> c_ObservedGeneration d = c_ObservedGeneration c) (demo_set cs c)"
  by (induction cs) (auto simp: list_all_iff)

lemma unclassed_message:
  "\<exists>s w'. run_state (Reconcile unclassed_env demo_req) (demo_rc, demo_w0) = (Ret (Some (ErrorString ''gone'')), (demo_rc, w'))
     \<and> trace w' = trace demo_w0 @ [GetSecretSync demo_req, GetSecretProviderClass (spc_key demo_req demo_admitted)] @ StatusUpdate s True # []
     \<and> list_all (\<lambda>c. c_Message c = ConditionMessageCreateSuccessful \<or> c_Message c = errText (isPrint (tokenEnv unclassed_env))
         ''failed to get SecretProviderClass'' ''spc'' (ErrorString ''gone'')) (conds s)"
proof -
  have "validateLabelsAnnotations (sp_SecretObject (ss_Spec demo_admitted)) = None"
    by (simp add: validateLabelsAnnotations_def nil_lookup_def demo_admitted_def demo_object_def controllerLabelKey_def)
  moreover have "st_Conditions (ss_Status demo_admitted) = st_Conditions demo_synced" "condition_type demo_admitted = ConditionTypeUpdate"
    "sp_SecretProviderClassName (ss_Spec demo_admitted) = ''spc''"
    by (simp_all add: demo_admitted_def demo_ss_def condition_type_def demo_synced_def)
  ultimately show ?thesis
    by (simp add: Reconcile_def reconcile_synced_def run_simps Let_def unclassed_env_def demo_env_def updateStatusConditions_def set_condition_def
        update_status_def spc_key_def demo_set_conds demo_synced_def demo_conds_def new_condition_def ConditionTypeCreate_def ConditionTypeUpdate_def)
qed

theorem Reconcile_sends_valid_witness:
  "\<exists>s w'. run_state (Reconcile unclassed_env demo_req) (demo_rc, demo_w0) = (Ret (Some (ErrorString ''gone'')), (demo_rc, w'))
     \<and> StatusUpdate s True \<in> set (trace w') \<and> SecretSync_valid s"
proof -
  obtain s w' where r: "run_state (Reconcile unclassed_env demo_req) (demo_rc, demo_w0) = (Ret (Some (ErrorString ''gone'')), (demo_rc, w'))"
    and t: "trace w' = trace demo_w0 @ [GetSecretSync demo_req, GetSecretProviderClass (spc_key demo_req demo_admitted)] @ StatusUpdate s True # []"
    and m: "list_all (\<lambda>c. c_Message c = ConditionMessageCreateSuccessful \<or> c_Message c = errText (isPrint (tokenEnv unclassed_env))
         ''failed to get SecretProviderClass'' ''spc'' (ErrorString ''gone'')) (conds s)"
    using unclassed_message by blast
  have "rune_count (errText (isPrint (tokenEnv unclassed_env)) ''failed to get SecretProviderClass'' ''spc'' (ErrorString ''gone'')) = 45" by code_simp
  with m have short: "list_all (\<lambda>c. rune_count (c_Message c) \<le> 32768) (conds s)" by (auto simp: list_all_iff demo_messages)
  have laws: "sets_condition unclassed_env" "sets_generation unclassed_env"
    using demo_set_generation by (simp_all add: sets_condition_def sets_generation_def unclassed_env_def demo_env_def demo_sets Let_def)
  have read: "fst (Client_GetSecretSync unclassed_env demo_req (env_state demo_w0)) = Inr demo_admitted" by (simp add: unclassed_env_def)
  have own: "own_conditions (conds demo_admitted)"
    by (simp add: own_conditions_def demo_admitted_def demo_ss_def demo_synced_def demo_unique) (simp add: demo_conds_def new_condition_def)
  have "SecretSync_valid s"
    using Reconcile_sends_valid [OF r laws _ read demo_admitted_valid own t] short by (auto simp: unclassed_env_def demo_env_def)
  with r t show ?thesis by auto
qed

section \<open>A message that is too long\<close>

lemma rune_count_ascii: "is_ascii p \<Longrightarrow> rune_count (p @ s) = length p + rune_count s"
proof (induction p)
  case (Cons c p)
  then have "rune_len (c # p @ s) = 1" by (simp add: is_ascii_def rune_len.simps(2) in_range_def)
  with Cons show ?case by (simp add: is_ascii_def)
qed simp

lemma long_message_invalid:
  assumes "condition_of t (conds s) = Some c" "32768 < rune_count (c_Message c)"
  shows "\<not> SecretSync_valid s"
proof
  assume "SecretSync_valid s"
  then have "list_all Condition_valid (conds s)" by (simp add: SecretSync_valid_def SecretSyncStatus_valid_def)
  moreover have "c \<in> set (conds s)" using condition_of_mem [OF assms(1)] by simp
  ultimately show False using assms(2) by (auto simp: list_all_iff Condition_valid_def)
qed

lemma run_report_message:
  assumes "run_state (updateStatusConditions E ss t st reason msg True) (p, w) = (s', (p', w'))" "good E ss"
  shows "\<exists>s ok c. trace w' = trace w @ [StatusUpdate s ok] \<and> condition_of t (conds s) = Some c \<and> c_Message c = msg"
proof -
  obtain s p1 w1 where s: "run_state (set_condition E ss (new_condition t st reason msg)) (p, w) = (s, (p1, w1))" by (rule run_obtain)
  from run_set_condition_sets [OF s] assms(2) obtain d where d: "condition_of t (conds s) = Some d" "c_Message d = msg"
    by (auto simp: good_def same_condition_def new_condition_def)
  have w1: "trace w1 = trace w" using s by (auto simp: set_condition_def run_simps split: prod.splits)
  obtain u e where u: "Status_Update E s (env_state w1) = (u, e)" by fastforce
  have "trace w' = trace w @ [StatusUpdate s (is_ok u)]"
    using assms(1) s w1 u by (auto simp: updateStatusConditions_def update_status_def run_simps split: sum.splits)
  with d show ?thesis by blast
qed

text \<open>
  C34: A long error is not reported. When the fetch of an object that has its conditions fails with an error
  whose text has more than 32768 characters, Reconcile returns that error, but the status that it sends to
  report it does not satisfy the schema of the CRD.
\<close>

theorem long_error_invalid_status:
  assumes "Client_GetSecretSync E req (env_state w) = (Inr ss, e1)" "2 \<le> length (conds ss)" "good E ss"
    and "validateLabelsAnnotations (sp_SecretObject (ss_Spec ss)) = None"
    and "Client_GetSecretProviderClass E (spc_key req ss) e1 = (Inr spc, e2)"
    and "run_state (fetchSecretsFromProvider E spc ss) (p, w\<lparr>env_state := e2,
        trace := trace w @ [GetSecretSync req, GetSecretProviderClass (spc_key req ss)]\<rparr>) = (Ret (Inl (reason, err)), (p1, w1))"
    and "32768 < rune_count (Error err)" "run_state (Reconcile E req) (p, w) = (r, (p', w'))"
  shows "r = Ret (Some err) \<and> (\<exists>s ok. trace w' = trace w1 @ [StatusUpdate s ok] \<and> \<not> SecretSync_valid s)"
proof -
  let ?msg = "''fetching secrets from the provider failed: '' @ Error err"
  obtain s1 p2 w2 where u: "run_state (updateStatusConditions E ss (condition_type ss) ConditionFalse reason ?msg True) (p1, w1) = (s1, (p2, w2))"
    by (rule run_obtain)
  have r: "r = Ret (Some err)" "w' = w2" using assms u by (simp_all add: Reconcile_def run_simps Let_def reconcile_synced_def spc_key_def)
  have "is_ascii ''fetching secrets from the provider failed: ''" by code_simp
  from rune_count_ascii [OF this, of "Error err"] have "32768 < rune_count ?msg" by (simp only: assms(7) trans_less_add2)
  moreover obtain s ok c where "trace w2 = trace w1 @ [StatusUpdate s ok]" "condition_of (condition_type ss) (conds s) = Some c" "c_Message c = ?msg"
    using run_report_message [OF u assms(3)] by blast
  ultimately have "trace w' = trace w1 @ [StatusUpdate s ok] \<and> \<not> SecretSync_valid s" using long_message_invalid [of _ s c] r(2) by (simp only: simp_thms)
  with r(1) show ?thesis by blast
qed

text \<open>A provider that answers with a text of 40000 characters.\<close>

definition talkative_env :: "nat controller_env" where
  "talkative_env = (demo_env demo_synced (Some fmempty) None)\<lparr>providerEnv := demo_provider\<lparr>client_Mount :=
     (\<lambda>client req w. (Inl (ErrorString (replicate 40000 (CHR ''x''))), w))\<rparr>\<rparr>"

lemma talkative_fetch:
  "fst (run_state (fetchSecretsFromProvider talkative_env (demo_spc\<lparr>spc_Parameters := Some fmempty\<rparr>) (demo_ss demo_synced)) (demo_rc', w))
     = Ret (Inl (ConditionReasonFailedProviderError, ErrorString (replicate 40000 (CHR ''x''))))"
  by (simp add: fetchSecretsFromProvider_def run_simps talkative_env_def demo_env_def demo_spc_def demo_rc_def demo_rc'_def Get_def put_client_def
      prepareCSIProviderParams_def SecretProviderServiceAccountTokenAttrs_def provider_parameters_def map_assign_def MountContent_def Let_def demo_ss_def)

theorem long_error_invalid_status_witness:
  "\<exists>w' s ok pre. run_state (Reconcile talkative_env demo_req) (demo_rc', demo_w0) = (Ret (Some (ErrorString (replicate 40000 (CHR ''x'')))), w')
     \<and> trace (snd w') = pre @ [StatusUpdate s ok] \<and> \<not> SecretSync_valid s"
proof -
  let ?spc = "demo_spc\<lparr>spc_Parameters := Some fmempty\<rparr>" and ?ss = "demo_ss demo_synced"
  obtain p1 w1 where f: "run_state (fetchSecretsFromProvider talkative_env ?spc ?ss) (demo_rc', demo_w0\<lparr>env_state := 0,
      trace := trace demo_w0 @ [GetSecretSync demo_req, GetSecretProviderClass (spc_key demo_req ?ss)]\<rparr>)
     = (Ret (Inl (ConditionReasonFailedProviderError, ErrorString (replicate 40000 (CHR ''x'')))), (p1, w1))"
    using talkative_fetch by (metis prod.collapse)
  obtain r p' w' where run: "run_state (Reconcile talkative_env demo_req) (demo_rc', demo_w0) = (r, (p', w'))" by (rule run_obtain)
  have reads: "Client_GetSecretSync talkative_env demo_req (env_state demo_w0) = (Inr ?ss, 0)"
    "Client_GetSecretProviderClass talkative_env (spc_key demo_req ?ss) 0 = (Inr ?spc, 0)" by (simp_all add: talkative_env_def demo_env_def)
  have two: "2 \<le> length (conds ?ss)" using demo_synced_conds(1) by simp
  have good: "good talkative_env ?ss" using demo_good [of demo_synced demo_synced "Some fmempty" None] demo_unique
    by (simp add: good_def talkative_env_def sets_condition_def demo_synced_def)
  have "is_ascii (replicate n (CHR ''x''))" for n by (simp add: is_ascii_def list_all_iff)
  from rune_count_ascii [OF this, of 40000 "[]"] have "32768 < rune_count (Error (ErrorString (replicate 40000 (CHR ''x''))))" by simp
  from long_error_invalid_status [OF reads(1) two good demo_valid reads(2) f this run] run show ?thesis by auto
qed

end
