(* ===== verification/ApiServer.thy ===== *)
theory ApiServer
  imports Admission
begin

text \<open>
  What the API server does with the calls of the controller. The view of the outside state has the stored
  SecretSyncs, all their versions and the last configuration that was applied to each Secret. A read may
  return an old version, as the client reads from a cache; optimistic locking refuses an update that was
  made from one; and at any moment, also between two calls of one Reconcile, others may change the
  cluster. The locale \<open>api_server\<close> states this as laws, under which every part of Reconcile is tracked
  by the effects of its calls.
\<close>

section \<open>The cluster\<close>

record cluster =
  cl_syncs :: "NamespacedName \<Rightarrow> SecretSync option"
  cl_versions :: "NamespacedName \<Rightarrow> string \<Rightarrow> SecretSync option"
  cl_applied :: "NamespacedName \<Rightarrow> string option"

definition key_of :: "SecretSync \<Rightarrow> NamespacedName" where
  "key_of ss = \<lparr>nn_Namespace = om_Namespace (ss_Meta ss), nn_Name = om_Name (ss_Meta ss)\<rparr>"

definition rv_of :: "SecretSync \<Rightarrow> string" where
  "rv_of ss = om_ResourceVersion (ss_Meta ss)"

text \<open>A version of an object that is or was stored.\<close>

definition known :: "cluster \<Rightarrow> SecretSync \<Rightarrow> bool" where
  "known v s \<longleftrightarrow> cl_versions v (key_of s) (rv_of s) = Some s"

definition store :: "SecretSync \<Rightarrow> cluster \<Rightarrow> cluster" where
  "store s v = v\<lparr>cl_syncs := (cl_syncs v)(key_of s \<mapsto> s),
     cl_versions := (cl_versions v)(key_of s := (cl_versions v (key_of s))(rv_of s \<mapsto> s))\<rparr>"

text \<open>
  A status update is accepted only if the object that is sent has the resource version of the one that
  is stored. It stores the object as it was sent, under a resource version that the object never had.
\<close>

definition accepts :: "cluster \<Rightarrow> SecretSync \<Rightarrow> SecretSync \<Rightarrow> bool" where
  "accepts v s s' \<longleftrightarrow> stored_as s s' \<and> map_option rv_of (cl_syncs v (key_of s)) = Some (rv_of s)
     \<and> cl_versions v (key_of s) (rv_of s') = None"

text \<open>\<open>older s0 s\<close>: an earlier version of the object, with the same spec if it has the same generation.\<close>

definition older :: "SecretSync \<Rightarrow> SecretSync \<Rightarrow> bool" where
  "older s0 s \<longleftrightarrow> key_of s0 = key_of s \<and> om_UID (ss_Meta s0) = om_UID (ss_Meta s) \<and> ss_TypeMeta s0 = ss_TypeMeta s
     \<and> sint (om_Generation (ss_Meta s0)) \<le> sint (om_Generation (ss_Meta s))
     \<and> (om_Generation (ss_Meta s0) = om_Generation (ss_Meta s) \<longrightarrow> ss_Spec s0 = ss_Spec s)"

lemma older_refl: "older s s"
  by (simp add: older_def)

lemma older_trans:
  assumes "older s0 s" "older s s'"
  shows "older s0 s'"
proof -
  have "om_Generation (ss_Meta s0) = om_Generation (ss_Meta s)" if "om_Generation (ss_Meta s0) = om_Generation (ss_Meta s')"
  proof -
    have "sint (om_Generation (ss_Meta s0)) = sint (om_Generation (ss_Meta s))" using assms that by (simp add: older_def)
    then show ?thesis by (auto intro: signed_word_eqI)
  qed
  with assms show ?thesis by (auto simp: older_def)
qed

text \<open>
  What the API server guarantees of a stored object: its UID is one, and the keys of its secret are
  text, as every string in a JSON document and as every key that passes the validation.
\<close>

definition admitted :: "SecretSync \<Rightarrow> bool" where
  "admitted ss \<longleftrightarrow> uid_ok (om_UID (ss_Meta ss)) \<and> list_all (\<lambda>d. valid_utf8 (target d)) (so_Data (sp_SecretObject (ss_Spec ss)))"

lemma valid_admitted:
  assumes "SecretObject_valid (sp_SecretObject (ss_Spec ss))" "uid_ok (om_UID (ss_Meta ss))"
  shows "admitted ss"
proof -
  have "valid_utf8 (target d)" if "d \<in> set (so_Data (sp_SecretObject (ss_Spec ss)))" for d
  proof -
    from that assms(1) have "re_match pathPattern (sod_TargetKey d)"
      by (auto simp: SecretObject_valid_def list_all_iff SecretObjectData_valid_def)
    with path_trim [of "sod_TargetKey d"] path_graph [of "sod_TargetKey d"] have "list_all graph (target d)" by (simp add: target_def)
    then show ?thesis by (intro is_ascii_valid) (auto simp: is_ascii_def list_all_iff graph_def in_range_def)
  qed
  with assms(2) show ?thesis by (simp add: admitted_def list_all_iff)
qed

text \<open>A resource version names one version of an object, and what is stored is one of them.\<close>

definition history_ok :: "cluster \<Rightarrow> bool" where
  "history_ok v \<longleftrightarrow> (\<forall>k rv s. cl_versions v k rv = Some s \<longrightarrow> key_of s = k \<and> rv_of s = rv \<and> admitted s)
     \<and> (\<forall>k s. cl_syncs v k = Some s \<longrightarrow> key_of s = k \<and> known v s)"


section \<open>What others do\<close>

text \<open>
  Others create objects without a sync hash, edit specs (which gives a new generation), change classes
  and providers, delete. Each write gives a new version. Nobody else writes a sync hash, or the Secret of
  an object that stays.
\<close>

definition outside_change :: "cluster \<Rightarrow> cluster \<Rightarrow> bool" where
  "outside_change v v' \<longleftrightarrow> history_ok v' \<and> (\<forall>k. cl_versions v k \<subseteq>\<^sub>m cl_versions v' k)
     \<and> (\<forall>k s'. cl_syncs v' k = Some s' \<longrightarrow> cl_syncs v k = Some s' \<or> cl_versions v k (rv_of s') = None)
     \<and> (\<forall>k s'. cl_syncs v' k = Some s' \<longrightarrow> st_SyncHash (ss_Status s') = []
          \<or> (\<exists>s. cl_syncs v k = Some s \<and> older s s' \<and> st_SyncHash (ss_Status s') = st_SyncHash (ss_Status s)))
     \<and> (\<forall>k s s'. cl_syncs v k = Some s \<longrightarrow> cl_syncs v' k = Some s' \<longrightarrow> older s s' \<longrightarrow> cl_applied v' k = cl_applied v k)"

abbreviation changes :: "cluster \<Rightarrow> cluster \<Rightarrow> bool" where
  "changes \<equiv> rtranclp outside_change"

lemma history_okD:
  assumes "history_ok v"
  shows "known v s \<Longrightarrow> admitted s" "cl_versions v k rv = Some s \<Longrightarrow> key_of s = k \<and> known v s"
    "cl_syncs v k = Some s \<Longrightarrow> key_of s = k" "cl_syncs v k = Some s \<Longrightarrow> known v s"
    "cl_versions v k rv = Some s \<Longrightarrow> key_of s = k \<and> rv_of s = rv \<and> admitted s"
  using assms unfolding history_ok_def known_def by blast+

text \<open>What optimistic locking is for: a version with the resource version of the stored object is that object.\<close>

lemma current_version:
  assumes "history_ok v" "known v s" "accepts v s1 s'" "key_of s1 = key_of s" "rv_of s1 = rv_of s"
  shows "cl_syncs v (key_of s) = Some s"
proof -
  from assms(3-5) obtain cur where cur: "cl_syncs v (key_of s) = Some cur" "rv_of cur = rv_of s" by (auto simp: accepts_def)
  have "key_of cur = key_of s" "known v cur" using history_okD(3,4) [OF assms(1) cur(1)] .
  then have "cl_versions v (key_of s) (rv_of s) = Some cur" unfolding known_def cur(2) by (simp only:)
  moreover have "cl_versions v (key_of s) (rv_of s) = Some s" using assms(2) unfolding known_def .
  ultimately show ?thesis using cur(1) by simp
qed

lemma outside_changeD:
  assumes "outside_change v v'"
  shows "history_ok v'" "cl_versions v k \<subseteq>\<^sub>m cl_versions v' k"
    "cl_syncs v' k = Some s' \<Longrightarrow> cl_syncs v k = Some s' \<or> cl_versions v k (rv_of s') = None"
    "cl_syncs v' k = Some s' \<Longrightarrow> st_SyncHash (ss_Status s') = []
       \<or> (\<exists>s. cl_syncs v k = Some s \<and> older s s' \<and> st_SyncHash (ss_Status s') = st_SyncHash (ss_Status s))"
    "cl_syncs v k = Some s \<Longrightarrow> cl_syncs v' k = Some s' \<Longrightarrow> older s s' \<Longrightarrow> cl_applied v' k = cl_applied v k"
  using assms unfolding outside_change_def by (blast, blast, metis+)

lemma changes_history: "changes v v' \<Longrightarrow> history_ok v \<Longrightarrow> history_ok v'"
  by (induction rule: rtranclp_induct) (simp_all add: outside_change_def)

lemma changes_known: "changes v v' \<Longrightarrow> known v s \<Longrightarrow> known v' s"
  by (induction rule: rtranclp_induct) (auto simp: outside_change_def known_def map_le_def dom_def)

text \<open>
  A version that is known and still stored after some changes was stored all the time, and nobody
  touched its Secret.
\<close>

lemma changes_current:
  assumes "changes v v'" "known v s" "cl_syncs v' (key_of s) = Some s"
  shows "cl_syncs v (key_of s) = Some s \<and> cl_applied v' (key_of s) = cl_applied v (key_of s)"
  using assms
proof (induction rule: rtranclp_induct)
  case (step y z)
  have "known y s" by (rule changes_known [OF step.hyps(1) step.prems(1)])
  with outside_changeD(3) [OF step.hyps(2) step.prems(2)] have y: "cl_syncs y (key_of s) = Some s" by (auto simp: known_def)
  have "cl_applied z (key_of s) = cl_applied y (key_of s)"
    by (rule outside_changeD(5) [OF step.hyps(2) y step.prems(2) older_refl])
  with step.IH [OF step.prems(1) y] show ?case by simp
qed simp

text \<open>A version that is not the stored one will not be again.\<close>

lemma stays_outdated:
  assumes "changes v v'" "history_ok v" "known v s" "map_option rv_of (cl_syncs v (key_of s)) \<noteq> Some (rv_of s)"
  shows "map_option rv_of (cl_syncs v' (key_of s)) \<noteq> Some (rv_of s)"
proof
  assume "map_option rv_of (cl_syncs v' (key_of s)) = Some (rv_of s)"
  then obtain x where x: "cl_syncs v' (key_of s) = Some x" "rv_of x = rv_of s" by auto
  have hist: "history_ok v'" by (rule changes_history [OF assms(1,2)])
  have "cl_versions v' (key_of s) (rv_of s) = Some x"
    using history_okD(3,4) [OF hist x(1)] unfolding known_def x(2) by (simp only:)
  with changes_known [OF assms(1,3)] x(1) have "cl_syncs v' (key_of s) = Some s" by (simp add: known_def)
  with changes_current [OF assms(1,3)] assms(4) show False by simp
qed

section \<open>Calls and their effects\<close>

text \<open>What a call does to the cluster; calls that were refused and reads do nothing.\<close>

definition effect :: "call \<Rightarrow> cluster \<Rightarrow> cluster \<Rightarrow> bool" where
  "effect c v v' \<longleftrightarrow> (case c of
      PatchSecret namespace name fieldManager data ok \<Rightarrow> v' = (if ok
        then v\<lparr>cl_applied := (cl_applied v)(\<lparr>nn_Namespace = namespace, nn_Name = name\<rparr> \<mapsto> data)\<rparr> else v)
    | StatusUpdate s ok \<Rightarrow> (if ok
        then \<exists>s'. accepts v s s' \<and> v' = store s' v else v' = v)
    | _ \<Rightarrow> v' = v)"

text \<open>The same with what others do meanwhile.\<close>

definition call_step :: "call \<Rightarrow> cluster \<Rightarrow> cluster \<Rightarrow> bool" where
  "call_step c v v' \<longleftrightarrow> (\<exists>u u'. changes v u \<and> effect c u u' \<and> changes u' v')"

fun effects :: "call list \<Rightarrow> cluster \<Rightarrow> cluster \<Rightarrow> bool" where
  "effects [] v v' \<longleftrightarrow> changes v v'"
| "effects (c # cs) v v' \<longleftrightarrow> (\<exists>u. call_step c v u \<and> effects cs u v')"

lemma step_changes:
  "changes v u \<Longrightarrow> call_step c u v' \<Longrightarrow> call_step c v v'" "call_step c v u \<Longrightarrow> changes u v' \<Longrightarrow> call_step c v v'"
  unfolding call_step_def by (meson rtranclp_trans)+

lemma effects_changes:
  "changes v u \<Longrightarrow> effects cs u v' \<Longrightarrow> effects cs v v'" "effects cs v u \<Longrightarrow> changes u v' \<Longrightarrow> effects cs v v'"
proof -
  show "changes v u \<Longrightarrow> effects cs u v' \<Longrightarrow> effects cs v v'"
    by (cases cs) (auto intro: step_changes(1))
  show "effects cs v u \<Longrightarrow> changes u v' \<Longrightarrow> effects cs v v'"
    by (induction cs arbitrary: v) auto
qed

lemma effects_append: "effects (cs @ ds) v v' \<longleftrightarrow> (\<exists>u. effects cs v u \<and> effects ds u v')"
proof (induction cs arbitrary: v)
  case Nil
  show ?case using effects_changes(1) by auto
qed auto

lemma effect_quiet [simp]: "\<not> is_write c \<Longrightarrow> effect c v v' \<longleftrightarrow> v' = v"
  by (simp add: effect_def is_write_def split: call.splits)

lemma step_quiet [simp]: "\<not> is_write c \<Longrightarrow> call_step c v v' \<longleftrightarrow> changes v v'"
  unfolding call_step_def by (auto intro: rtranclp_trans)

lemma effects_quiet [simp]: "list_all (\<lambda>c. \<not> is_write c) cs \<Longrightarrow> effects cs v v' \<longleftrightarrow> changes v v'"
  by (induction cs arbitrary: v) (auto intro: rtranclp_trans)

lemma effect_status [simp]:
  "effect (StatusUpdate s False) v v' \<longleftrightarrow> v' = v"
  "effect (StatusUpdate s True) v v' \<longleftrightarrow> (\<exists>s'. accepts v s s' \<and> v' = store s' v)"
  by (simp_all add: effect_def)

lemma effect_patch [simp]:
  "effect (patch_call ss data ok) v v' \<longleftrightarrow> v' = (if ok then v\<lparr>cl_applied := (cl_applied v)(key_of ss \<mapsto> data)\<rparr> else v)"
  by (simp add: effect_def patch_call_def key_of_def)

lemma step_refused [simp]:
  "call_step (StatusUpdate s False) v v' \<longleftrightarrow> changes v v'" "call_step (patch_call ss data False) v v' \<longleftrightarrow> changes v v'"
  unfolding call_step_def by (auto intro: rtranclp_trans)

lemma step_status:
  "call_step (StatusUpdate s True) v v' \<longleftrightarrow> (\<exists>u s'. changes v u \<and> accepts u s s' \<and> changes (store s' u) v')"
  unfolding call_step_def by auto

lemma step_patch:
  "call_step (patch_call ss data True) v v'
   \<longleftrightarrow> (\<exists>u. changes v u \<and> changes (u\<lparr>cl_applied := (cl_applied u)(key_of ss \<mapsto> data)\<rparr>) v')"
  unfolding call_step_def by auto

section \<open>The API server\<close>

text \<open>
  The laws: a read returns a version that is or was stored (the cache behind the client may lag); an
  accepted patch becomes the configuration applied by the controller; a status update is accepted only
  for the current version and returns the object it has stored; during any call others may change the
  cluster, and apart from that nothing else the controller calls changes the view.
\<close>

locale api_server =
  fixes E :: "'w controller_env"
    and view :: "'w \<Rightarrow> cluster"
  assumes get_sync: "Client_GetSecretSync E k w = (r, w') \<Longrightarrow> changes (view w) (view w')
      \<and> (case r of Inl _ \<Rightarrow> True | Inr ss \<Rightarrow> cl_versions (view w') k (rv_of ss) = Some ss)"
    and get_class: "changes (view w) (view (snd (Client_GetSecretProviderClass E k w)))"
    and patch: "Secrets_Patch E namespace name data fieldManager w = (err, w')
      \<Longrightarrow> call_step (PatchSecret namespace name fieldManager data (err = None)) (view w) (view w')"
    and status: "Status_Update E s w = (u, w') \<Longrightarrow> (case u of Inl _ \<Rightarrow> changes (view w) (view w')
      | Inr s' \<Rightarrow> \<exists>v. changes (view w) v \<and> accepts v s s' \<and> changes (store s' v) (view w'))"
    and set_condition_law: "changes (view w) (view (snd (SetStatusCondition E cs c w)))"
    and tokens: "changes (view w) (view (snd (Now (tokenEnv E) w)))" "changes (view w) (view (snd (Float64 (tokenEnv E) w)))"
      "changes (view w) (view (snd (ServerResourcesForGroupVersion (tokenEnv E) gv w)))"
      "changes (view w) (view (snd (ServiceAccounts_CreateToken (tokenEnv E) namespace name tr w)))"
    and provider: "changes (view w) (view (snd (os_Stat (providerEnv E) path w)))"
      "changes (view w) (view (snd (os_Lstat (providerEnv E) path w)))"
      "changes (view w) (view (snd (grpc_NewClient (providerEnv E) path opts w)))"
      "changes (view w) (view (snd (client_Mount (providerEnv E) client mreq w)))"
begin

definition tracked :: "('w, call) world \<Rightarrow> ('w, call) world \<Rightarrow> bool" where
  "tracked w w' \<longleftrightarrow> (\<exists>calls. trace w' = trace w @ calls \<and> effects calls (view (env_state w)) (view (env_state w')))"

end

sublocale api_server \<subseteq> tracking: effect_relation tracked
proof
  fix w
  show "tracked w w" by (simp add: tracked_def)
next
  fix u v w
  assume "tracked u v" "tracked v w"
  then obtain cs ds where "trace v = trace u @ cs" "effects cs (view (env_state u)) (view (env_state v))"
    "trace w = trace v @ ds" "effects ds (view (env_state v)) (view (env_state w))"
    by (auto simp: tracked_def)
  then show "tracked u w" unfolding tracked_def by (intro exI [of _ "cs @ ds"]) (auto simp: effects_append)
qed

context api_server
begin

lemmas tracks_intros = tracking.holds_intros

lemma tracks_ext: "(\<And>w. changes (view w) (view (snd (f w)))) \<Longrightarrow> tracking.holds (ext f)"
  by (rule tracking.holds_ext) (simp add: tracked_def)

lemma tracks_ext_call:
  "(\<And>w. call_step (c (fst (f w))) (view w) (view (snd (f w)))) \<Longrightarrow> tracking.holds (ext_call c f)"
  by (rule tracking.holds_ext_call) (auto simp: tracked_def)

lemma tracks_update_status: "tracking.holds (update_status E s)"
  unfolding update_status_def
proof (intro tracks_intros tracks_ext_call)
  fix w
  show "call_step (StatusUpdate s (is_ok (fst (Status_Update E s w)))) (view w) (view (snd (Status_Update E s w)))"
    using status [of s w] by (cases "Status_Update E s w") (auto simp: is_ok_def step_status split: sum.splits)
qed

lemma tracks_set_condition: "tracking.holds (set_condition E s c)"
  unfolding set_condition_def by (intro tracks_intros tracks_ext set_condition_law)

lemma tracks_updateStatusConditions: "tracking.holds (updateStatusConditions E s t st reason msg b)"
  unfolding updateStatusConditions_def by (intro tracks_intros tracks_set_condition tracks_update_status)

lemma tracks_initConditions: "tracking.holds (initConditions E s)"
  unfolding initConditions_def by (intro tracks_intros tracks_set_condition tracks_update_status)

lemma tracks_patch: "tracking.holds (serverSidePatchSecret E s datamap)"
  unfolding serverSidePatchSecret_def Let_def
  by (intro tracks_intros tracks_ext_call patch) simp

lemma tracks_mark_synced: "tracking.holds (mark_synced E s ct changed)"
  unfolding mark_synced_def by (intro tracks_intros tracks_updateStatusConditions)

lemma tracks_write_back: "tracking.holds (write_back E s ct h datamap)"
  unfolding write_back_def Let_def
  by (intro tracks_intros tracks_ext tracks_mark_synced tracks_patch tracks_updateStatusConditions tracks_update_status tokens)

text \<open>A call that is no write.\<close>

lemma tracks_quiet:
  "(\<And>w. changes (view w) (view (snd (f w)))) \<Longrightarrow> (\<And>a. \<not> is_write (c a)) \<Longrightarrow> tracking.holds (ext_call c f)"
  by (rule tracks_ext_call) simp

lemmas quiet_calls = tracks_quiet [OF tokens(3)] tracks_quiet [OF tokens(4)] tracks_quiet [OF provider(1)]
  tracks_quiet [OF provider(2)] tracks_quiet [OF provider(3)] tracks_quiet [OF provider(4)]

lemma tracks_GetServiceAccountToken: "tracking.holds (GetServiceAccountToken (tokenEnv E) namespace name tr)"
  unfolding GetServiceAccountToken_def getToken_def tokenRequestsSupported_def Manager_get_def Manager_set_def
    requiresRefresh_def expired_def Let_def
  by (intro tracks_intros tracks_ext tokens quiet_calls) (simp_all add: is_write_def)

lemma tracks_attrs_loop: "tracking.holds (attrs_loop (tokenEnv E) namespace sa auds outputs)"
  by (induction auds arbitrary: outputs) (simp_all add: tracks_intros tracks_GetServiceAccountToken)

lemma tracks_prepare: "tracking.holds (prepareCSIProviderParams E spc namespace sa)"
  unfolding prepareCSIProviderParams_def SecretProviderServiceAccountTokenAttrs_def
  by (intro tracks_intros tracks_attrs_loop)

lemma tracks_find_socket: "tracking.holds (find_socket (providerEnv E) provider dirs)"
  by (induction dirs) (simp_all add: Let_def tracks_intros quiet_calls is_write_def)

lemma tracks_Get: "tracking.holds (Get (providerEnv E) provider)"
  unfolding Get_def store_client_def
  by (intro tracks_intros tracks_find_socket quiet_calls) (simp add: is_write_def)

lemma tracks_MountContent: "tracking.holds (MountContent (providerEnv E) client attributes secrets ov)"
  unfolding MountContent_def Let_def
  by (intro tracks_intros quiet_calls tracks_quiet) (simp_all add: is_write_def)

lemma tracks_fetch: "tracking.holds (fetchSecretsFromProvider E spc ss)"
  unfolding fetchSecretsFromProvider_def
  by (intro tracks_intros tracks_Get tracks_prepare tracks_MountContent)

lemma get_sync_changes: "changes (view w) (view (snd (Client_GetSecretSync E k w)))"
  using get_sync [of k w "fst (Client_GetSecretSync E k w)" "snd (Client_GetSecretSync E k w)"] by simp

lemma tracks_get_class: "tracking.holds (ext_call (\<lambda>_. GetSecretProviderClass k) (Client_GetSecretProviderClass E k))"
  by (rule tracks_quiet [OF get_class]) simp

lemma tracks_get_sync: "tracking.holds (ext_call (\<lambda>_. GetSecretSync k) (Client_GetSecretSync E k))"
  by (rule tracks_quiet [OF get_sync_changes]) simp

lemma tracks_reconcile_synced: "tracking.holds (reconcile_synced E req ss ct)"
  unfolding reconcile_synced_def Let_def
  by (intro tracks_intros tracks_updateStatusConditions tracks_get_class tracks_fetch tracks_write_back)

lemma tracks_Reconcile: "tracking.holds (Reconcile E req)"
  unfolding Reconcile_def Let_def
  by (intro tracks_intros tracks_get_sync tracks_initConditions tracks_reconcile_synced)

lemma run_tracked:
  assumes "tracking.holds m" "run_state m (p, w) = (a, (p', w'))"
  obtains calls where "trace w' = trace w @ calls" "effects calls (view (env_state w)) (view (env_state w'))"
  using tracking.holdsD [OF assms] by (auto simp: tracked_def)

lemma fetch_changes:
  assumes "run_state (fetchSecretsFromProvider E spc ss) (p, w) = (a, (p', w'))"
  shows "changes (view (env_state w)) (view (env_state w'))"
proof -
  obtain calls where c: "trace w' = trace w @ calls" "effects calls (view (env_state w)) (view (env_state w'))"
    by (rule run_tracked [OF tracks_fetch assms])
  moreover have "list_all (\<lambda>c. \<not> is_write c) calls" using emitsD [OF quiet_fetchSecretsFromProvider assms] c(1) by auto
  ultimately show ?thesis by simp
qed

lemma set_condition_changes: "run_state (set_condition E s c) (p, w) = (s', (p', w'))
   \<Longrightarrow> \<exists>cs. s' = set_conditions cs s \<and> p' = p \<and> trace w' = trace w \<and> changes (view (env_state w)) (view (env_state w'))"
  using set_condition_law by (auto simp: set_condition_def run_simps split_beta)

text \<open>The initial conditions: stored and returned, or nothing has changed.\<close>

lemma init_effect:
  assumes "run_state (initConditions E ss) (p, w) = ((ss', err), (p', w'))"
  shows "p' = p \<and> (\<exists>cs. trace w' = trace w @ [StatusUpdate (set_conditions cs ss) (err = None)]
     \<and> (if err = None then \<exists>v. changes (view (env_state w)) v \<and> accepts v (set_conditions cs ss) ss' \<and> changes (store ss' v) (view (env_state w'))
         else \<exists>u e. changes (view (env_state w)) (view u) \<and> Status_Update E (set_conditions cs ss) u = (Inl e, env_state w')))"
proof -
  let ?c1 = "new_condition ConditionTypeCreate ConditionUnknown ConditionReasonSyncStarting []"
  let ?c2 = "new_condition ConditionTypeUpdate ConditionUnknown ConditionReasonNoUpdateAttemptedYet []"
  obtain s1 p1 w1 where 1: "run_state (set_condition E ss ?c1) (p, w) = (s1, (p1, w1))" by (rule run_obtain)
  obtain s2 p2 w2 where 2: "run_state (set_condition E s1 ?c2) (p1, w1) = (s2, (p2, w2))" by (rule run_obtain)
  have ch: "changes (view (env_state w)) (view (env_state w2))"
    using set_condition_changes [OF 1] set_condition_changes [OF 2] rtranclp_trans by metis
  from set_condition_changes [OF 1] set_condition_changes [OF 2] ch obtain cs where cs: "s2 = set_conditions cs ss" "p2 = p"
    "trace w2 = trace w" "changes (view (env_state w)) (view (env_state w2))" by auto
  obtain u e where u: "Status_Update E s2 (env_state w2) = (u, e)" by fastforce
  have run: "err = None \<longleftrightarrow> is_ok u" "p' = p" "trace w' = trace w @ [StatusUpdate (set_conditions cs ss) (is_ok u)]"
    "env_state w' = e" "\<And>s. u = Inr s \<Longrightarrow> ss' = s"
    using assms 1 2 u cs by (auto simp: initConditions_def update_status_def run_simps is_ok_def split: sum.splits)
  show ?thesis
  proof (cases u)
    case (Inl x)
    with u cs run(4) have "Status_Update E (set_conditions cs ss) (env_state w2) = (Inl x, env_state w')" by simp
    with Inl run cs(4) show ?thesis by (auto simp: is_ok_def)
  next
    case (Inr s)
    with status [OF u] cs obtain v where "changes (view (env_state w2)) v" "accepts v (set_conditions cs ss) s" "changes (store s v) (view e)" by auto
    with cs(4) Inr run show ?thesis by (auto simp: is_ok_def intro: rtranclp_trans)
  qed
qed

end

end
