(* ===== verification/Cluster.thy ===== *)
theory Cluster
  imports ApiServer
begin

text \<open>
  Reconcile against the state of the cluster, under the laws of \<open>api_server\<close>. On them stands the purpose of
  the controller: the sync hash in a stored status vouches for the Secret in the cluster, so a Reconcile
  that succeeds, also one that writes nothing, leaves the Secret that was just fetched, as long as PBKDF2 has
  derived different keys from the different inputs that were hashed.
\<close>

section \<open>What a stored hash vouches for\<close>

text \<open>
  The hash of the object is the hash of a secret built from an earlier version of it, and that secret
  is what was last applied. \<open>H\<close> is the set of the inputs that were hashed so far; the input of this hash is one of them.
\<close>

definition vouched :: "'w controller_env \<Rightarrow> (string \<times> string) set \<Rightarrow> cluster \<Rightarrow> SecretSync \<Rightarrow> bool" where
  "vouched E H v s \<longleftrightarrow> st_SyncHash (ss_Status s) = [] \<or> (\<exists>s0 datamap spc patch. older s0 s \<and> hash_input datamap spc s0 \<in> H
     \<and> uid_ok (om_UID (spc_Meta spc)) \<and> fm_all (\<lambda>k _. valid_utf8 k) datamap
     \<and> computeCurrentStateHash (pbkdf2_Key E) datamap spc s0 = Inr (st_SyncHash (ss_Status s))
     \<and> Marshal_Secret E (secretPatchData s0 datamap) = Inr patch \<and> cl_applied v (key_of s) = Some patch)"

text \<open>The invariant, for the objects of a set: those whose last patch was followed by its status write.\<close>

definition cluster_ok_on :: "'w controller_env \<Rightarrow> (string \<times> string) set \<Rightarrow> NamespacedName set \<Rightarrow> cluster \<Rightarrow> bool" where
  "cluster_ok_on E H K v \<longleftrightarrow> history_ok v \<and> (\<forall>k\<in>K. \<forall>s. cl_syncs v k = Some s \<longrightarrow> vouched E H v s)"

lemma same_object_simps [simp]:
  "key_of (set_conditions cs s) = key_of s" "key_of (set_sync h t s) = key_of s"
  "older s0 (set_conditions cs s) = older s0 s" "older s0 (set_sync h t s) = older s0 s"
  "vouched E H v (set_conditions cs s) = vouched E H v s" "admitted (set_conditions cs s) = admitted s"
  "admitted (set_sync h t s) = admitted s" "st_SyncHash (ss_Status (set_sync h t s)) = h"
  "rv_of (set_conditions cs s) = rv_of s" "rv_of (set_sync h t s) = rv_of s"
  by (simp_all add: key_of_def older_def vouched_def admitted_def set_sync_def set_conditions_def rv_of_def)

lemma accepts_applied [simp]: "accepts (v\<lparr>cl_applied := a\<rparr>) = accepts v"
  by (intro ext) (simp add: accepts_def)

lemma history_applied [simp]: "known (v\<lparr>cl_applied := a\<rparr>) = known v" "history_ok (v\<lparr>cl_applied := a\<rparr>) = history_ok v"
proof -
  show k: "known (v\<lparr>cl_applied := a\<rparr>) = known v" by (intro ext) (simp add: known_def)
  show "history_ok (v\<lparr>cl_applied := a\<rparr>) = history_ok v" unfolding history_ok_def k by simp
qed

lemma store_simps [simp]:
  "cl_applied (store s v) = cl_applied v" "cl_syncs (store s v) = (cl_syncs v)(key_of s \<mapsto> s)" "known (store s v) s"
  by (simp_all add: store_def known_def)

lemma stored_as_simps:
  assumes "stored_as s s'"
  shows "key_of s' = key_of s" "older s0 s' = older s0 s" "vouched E H v s' = vouched E H v s" "admitted s' = admitted s"
    "ss_Status s' = ss_Status s" "ss_Spec s' = ss_Spec s" "secretPatchData s' d = secretPatchData s d"
    "fetchSecretsFromProvider (F :: ('a, 'b) controller_env_scheme) spc s' = fetchSecretsFromProvider F spc s"
    "build_data (F :: ('a, 'b) controller_env_scheme) s' files = build_data F s files"
    "spc_key req s' = spc_key req s"
    "computeCurrentStateHash kdf d spc s' = computeCurrentStateHash kdf d spc s"
proof -
  obtain rv where s': "s' = s\<lparr>ss_Meta := (ss_Meta s)\<lparr>om_ResourceVersion := rv\<rparr>\<rparr>" using assms by (auto simp: stored_as_def)
  show key: "key_of s' = key_of s" by (simp add: s' key_of_def)
  show old: "older s0 s' = older s0 s" for s0 by (simp add: s' older_def key_of_def)
  show st: "ss_Status s' = ss_Status s" by (simp add: s')
  show "vouched E H v s' = vouched E H v s" by (simp add: vouched_def key old st)
  show "admitted s' = admitted s" "ss_Spec s' = ss_Spec s" "spc_key req s' = spc_key req s"
    by (simp_all add: s' admitted_def spc_key_def)
  show "secretPatchData s' d = secretPatchData s d" by (simp add: s' secretPatchData_def)
  show build: "build_data F s' files = build_data F s files" for F :: "('a, 'b) controller_env_scheme" and files
    by (simp add: s' build_data_def)
  show "fetchSecretsFromProvider F spc s' = fetchSecretsFromProvider F spc s" for F :: "('a, 'b) controller_env_scheme"
  proof -
    have "om_Namespace (ss_Meta s') = om_Namespace (ss_Meta s)" "ss_Spec s' = ss_Spec s" by (simp_all add: s')
    then show ?thesis unfolding fetchSecretsFromProvider_def build by simp
  qed
  show "computeCurrentStateHash kdf d spc s' = computeCurrentStateHash kdf d spc s"
    by (simp add: s' computeCurrentStateHash_def toHash_def)
qed

text \<open>The two ways in which an accepted status update keeps the invariant.\<close>

lemma vouched_cong: "cl_applied v' (key_of s) = cl_applied v (key_of s) \<Longrightarrow> vouched E H v' s = vouched E H v s"
  by (simp add: vouched_def)

lemma cluster_okD:
  assumes "cluster_ok_on E H K v"
  shows "history_ok v" "k \<in> K \<Longrightarrow> cl_syncs v k = Some s \<Longrightarrow> vouched E H v s"
  using assms by (auto simp: cluster_ok_on_def)

lemmas cluster_ok_history = cluster_okD(1)

lemma cluster_ok_admitted: "cluster_ok_on E H K v \<Longrightarrow> known v s \<Longrightarrow> admitted s"
  using history_okD(1) cluster_ok_history by blast

text \<open>Others keep it, key by key.\<close>

lemma outside_keeps:
  assumes "cluster_ok_on E H K v" "outside_change v v'"
  shows "cluster_ok_on E H K v'"
proof -
  note hist = outside_changeD(1) [OF assms(2)]
  have "vouched E H v' s'" if k: "k \<in> K" and s': "cl_syncs v' k = Some s'" for k s'
    using outside_changeD(4) [OF assms(2) s']
  proof (elim disjE conjE exE)
    fix s
    assume s: "cl_syncs v k = Some s" "older s s'" "st_SyncHash (ss_Status s') = st_SyncHash (ss_Status s)"
    have "key_of s' = k" "key_of s = k" using history_okD(3) [OF hist s'] s(2) by (simp_all add: older_def)
    with cluster_okD(2) [OF assms(1) k s(1)] outside_changeD(5) [OF assms(2) s(1) s' s(2)] s(3) older_trans [OF _ s(2)]
    show ?thesis unfolding vouched_def by metis
  qed (simp add: vouched_def)
  with hist show ?thesis by (simp add: cluster_ok_on_def)
qed

lemma changes_keeps: "changes v v' \<Longrightarrow> cluster_ok_on E H K v \<Longrightarrow> cluster_ok_on E H K v'"
  by (induction rule: rtranclp_induct) (auto intro: outside_keeps)

text \<open>The effects of the controller's writes.\<close>

lemma history_store:
  assumes "history_ok v" "accepts v s s'" "admitted s"
  shows "history_ok (store s' v)"
proof -
  have s': "key_of s' = key_of s" "admitted s'" "cl_versions v (key_of s) (rv_of s') = None"
    using assms(2,3) stored_as_simps(1,4) [of s s'] by (simp_all add: accepts_def)
  have "key_of x = k \<and> rv_of x = rv \<and> admitted x" if "cl_versions (store s' v) k rv = Some x" for k rv x
    using that history_okD(5) [OF assms(1), of k rv x] s' by (auto simp: store_def split: if_splits)
  moreover have "key_of x = k \<and> known (store s' v) x" if x: "cl_syncs (store s' v) k = Some x" for k x
  proof (cases "k = key_of s'")
    case True
    with x show ?thesis by simp
  next
    case False
    with x have y: "cl_syncs v k = Some x" by simp
    from history_okD(3,4) [OF assms(1) y] False show ?thesis by (auto simp: known_def store_def)
  qed
  ultimately show ?thesis unfolding history_ok_def by blast
qed

lemma cluster_ok_store:
  assumes "cluster_ok_on E H (K - {key_of s}) v" "accepts v s s'" "admitted s" "key_of s \<in> K \<Longrightarrow> vouched E H v s"
  shows "cluster_ok_on E H K (store s' v)"
proof -
  note hist = cluster_ok_history [OF assms(1)]
  have s': "key_of s' = key_of s" "vouched E H (store s' v) s' = vouched E H (store s' v) s"
    using assms(2) stored_as_simps(1,3) [of s s'] by (simp_all add: accepts_def)
  have "vouched E H (store s' v) x" if k: "k \<in> K" and x: "cl_syncs (store s' v) k = Some x" for k x
  proof (cases "k = key_of s")
    case True
    with k x s' assms(4) vouched_cong [of "store s' v" s v E H] show ?thesis by simp
  next
    case False
    with x s' have y: "cl_syncs v k = Some x" by simp
    with False k vouched_cong [of "store s' v" x v E H] cluster_okD(2) [OF assms(1) _ y] show ?thesis by simp
  qed
  with history_store [OF hist assms(2,3)] show ?thesis by (simp add: cluster_ok_on_def)
qed

lemma cluster_ok_mono: "cluster_ok_on E H K v \<Longrightarrow> L \<subseteq> K \<Longrightarrow> cluster_ok_on E H L v"
  by (auto simp: cluster_ok_on_def)

lemma vouched_more: "vouched E H v s \<Longrightarrow> H \<subseteq> G \<Longrightarrow> vouched E G v s"
  unfolding vouched_def by blast

lemma cluster_ok_more: "cluster_ok_on E H K v \<Longrightarrow> H \<subseteq> G \<Longrightarrow> cluster_ok_on E G K v"
  unfolding cluster_ok_on_def by (blast intro: vouched_more)

text \<open>A patch leaves the hash of its own object without a Secret, until the status follows.\<close>

lemma patched_ok:
  assumes "cluster_ok_on E H K v"
  shows "cluster_ok_on E H (K - {key_of ss}) (v\<lparr>cl_applied := (cl_applied v)(key_of ss \<mapsto> data)\<rparr>)" (is "cluster_ok_on E H _ ?v")
  unfolding cluster_ok_on_def
proof (intro conjI ballI allI impI)
  show "history_ok ?v" using cluster_ok_history [OF assms] by simp
  fix k x
  assume k: "k \<in> K - {key_of ss}" and "cl_syncs ?v k = Some x"
  then have x: "cl_syncs v k = Some x" by simp
  have "key_of x = k" by (rule history_okD(3) [OF cluster_ok_history [OF assms] x])
  with k cluster_okD(2) [OF assms _ x] vouched_cong [of ?v x v E H] show "vouched E H ?v x" by simp
qed

text \<open>
  A patch and then an accepted status update of the same version: at the moment of the update the
  version is still the stored one, the Secret is what was patched, and nothing else has suffered.
\<close>

lemma patched_effects:
  assumes "effects [patch_call ss data True, StatusUpdate s True] v v'" "cluster_ok_on E H K v" "known v ss"
    and "key_of s = key_of ss" "rv_of s = rv_of ss"
  obtains b s' where "accepts b s s'" "changes (store s' b) v'" "effects [patch_call ss data True, StatusUpdate s True] v (store s' b)"
    "cl_applied b (key_of ss) = Some data" "cl_syncs b (key_of ss) = Some ss" "cluster_ok_on E H (K - {key_of ss}) b"
proof -
  let ?patched = "\<lambda>a. a\<lparr>cl_applied := (cl_applied a)(key_of ss \<mapsto> data)\<rparr>"
  from assms(1) obtain b0 b1 where steps: "call_step (patch_call ss data True) v b0" "call_step (StatusUpdate s True) b0 b1" "changes b1 v'" by auto
  from steps(1) obtain a where a: "changes v a" "changes (?patched a) b0" by (auto simp: step_patch)
  from steps(2) obtain b s' where b: "changes b0 b" "accepts b s s'" "changes (store s' b) b1" by (auto simp: step_status)
  have v': "changes (store s' b) v'" by (rule rtranclp_trans [OF b(3) steps(3)])
  have ab: "changes (?patched a) b" by (rule rtranclp_trans [OF a(2) b(1)])
  have kn: "known (?patched a) ss" using changes_known [OF a(1) assms(3)] by simp
  have okb: "cluster_ok_on E H (K - {key_of ss}) b"
    by (rule changes_keeps [OF ab patched_ok [OF changes_keeps [OF a(1) assms(2)]]])
  have cur: "cl_syncs b (key_of ss) = Some ss"
    by (rule current_version [OF cluster_ok_history [OF okb] changes_known [OF ab kn] b(2) assms(4,5)])
  have "cl_applied b (key_of ss) = Some data" using changes_current [OF ab kn cur] by simp
  moreover have "call_step (StatusUpdate s True) b0 (store s' b)" using b by (auto simp: step_status)
  with steps(1) have "effects [patch_call ss data True, StatusUpdate s True] v (store s' b)" by auto
  ultimately show ?thesis using that b(2) v' cur okb by blast
qed

section \<open>Reconcile keeps it\<close>

lemma find_SomeD: "find P xs = Some x \<Longrightarrow> P x \<and> x \<in> set xs"
  by (induction xs) (auto split: if_splits)

lemma build_data_utf8:
  assumes "admitted ss" "build_data E ss files = Ret (Inr datamap)"
  shows "fm_all (\<lambda>k _. valid_utf8 k) datamap"
  unfolding fm_all_iff
proof (rule fmpredI)
  fix k c
  assume k: "fmlookup datamap k = Some c"
  let ?o = "sp_SecretObject (ss_Spec ss)"
  have "BuildKubeSecretData (cryptoLib E) (so_Data ?o) (so_Type ?o) files = Ret (datamap, None)"
    using assms(2) by (auto simp: build_data_def Let_def split: go.splits option.splits)
  from build_loop_success [OF this [unfolded BuildKubeSecretData_def], of k] k obtain d where "entry_for k (so_Data ?o) = Some d"
    by (auto split: option.splits)
  then have "d \<in> set (so_Data ?o)" "target d = k" by (auto simp: entry_for_def dest: find_SomeD)
  with assms(1) show "valid_utf8 k" by (auto simp: admitted_def list_all_iff)
qed

text \<open>
  How the objects whose hash vouches change with the calls of a Reconcile: an object leaves them when its Secret
  was patched and the status that vouches for it refused, and comes back when both have worked.
\<close>

definition patched_status :: "bool \<Rightarrow> call list \<Rightarrow> bool" where
  "patched_status ok calls \<longleftrightarrow> (\<exists>pre ss data s. calls = pre @ [patch_call ss data True, StatusUpdate s ok])"

definition settled :: "NamespacedName \<Rightarrow> call list \<Rightarrow> NamespacedName set \<Rightarrow> NamespacedName set" where
  "settled k calls K = (if patched_status False calls then K - {k} else if patched_status True calls then insert k K else K)"

definition is_applied :: "call \<Rightarrow> bool" where
  "is_applied c = (case c of PatchSecret _ _ _ _ ok \<Rightarrow> ok | _ \<Rightarrow> False)"

lemma is_applied_simps [simp]: "is_applied (patch_call ss data ok) = ok" "\<not> is_write c \<Longrightarrow> \<not> is_applied c" "\<not> is_applied (StatusUpdate s b)"
  "\<not> is_applied (GetSecretSync k)" "\<not> is_applied (GetSecretProviderClass k)"
  by (auto simp: is_applied_def patch_call_def is_write_def split: call.splits)

lemma patched_status_prefix:
  assumes "\<not> list_ex is_applied pre"
  shows "patched_status ok (pre @ ws) = patched_status ok ws"
proof
  assume "patched_status ok ws"
  then show "patched_status ok (pre @ ws)" unfolding patched_status_def by (metis append.assoc)
next
  assume "patched_status ok (pre @ ws)"
  then obtain q ss data s where q: "pre @ ws = q @ [patch_call ss data True, StatusUpdate s ok]" by (auto simp: patched_status_def)
  show "patched_status ok ws"
  proof (cases ws rule: rev_cases)
    case Nil
    with q assms show ?thesis by (simp add: list_ex_iff)
  next
    case (snoc ws' c)
    with q have c: "c = StatusUpdate s ok" "pre @ ws' = q @ [patch_call ss data True]" by simp_all
    from c(2) assms obtain ws'' where "ws' = ws'' @ [patch_call ss data True]"
      by (cases ws' rule: rev_cases) (auto simp: list_ex_iff)
    with snoc c show ?thesis by (auto simp: patched_status_def)
  qed
qed

lemma settled_prefix: "\<not> list_ex is_applied pre \<Longrightarrow> settled k (pre @ ws) K = settled k ws K"
  by (simp add: settled_def patched_status_prefix)

lemma settled_short [simp]: "settled k [] K = K" "settled k [c] K = K"
  by (simp_all add: settled_def patched_status_def)

lemma settled_patched:
  "settled k [patch_call ss data True, StatusUpdate s ok] K = (if ok then insert k K else K - {k})"
  by (cases ok) (auto simp: settled_def patched_status_def)

lemma no_applied: "list_all (\<lambda>c. \<not> is_write c) cs \<Longrightarrow> \<not> list_ex is_applied cs"
  by (auto simp: list_all_iff list_ex_iff)

lemma failed_write_ok:
  assumes "cluster_ok_on E H K v" "known v ss" "call_step (StatusUpdate (set_conditions cs ss) ok) v v'"
  shows "cluster_ok_on E H K v'"
proof (cases ok)
  case True
  with assms(3) obtain u s' where u: "changes v u" and s': "accepts u (set_conditions cs ss) s'" and v': "changes (store s' u) v'"
    by (auto simp: step_status)
  note ok = changes_keeps [OF u assms(1)] and kn = changes_known [OF u assms(2)]
  have "vouched E H u ss" if "key_of ss \<in> K"
    using cluster_okD(2) [OF ok that current_version [OF cluster_ok_history [OF ok] kn s']] by simp
  then have "cluster_ok_on E H K (store s' u)"
    using cluster_ok_admitted [OF ok kn] by (intro cluster_ok_store [OF cluster_ok_mono [OF ok] s']) auto
  then show ?thesis by (rule changes_keeps [OF v'])
next
  case False
  with assms changes_keeps show ?thesis by auto
qed

lemma failed_effects_ok:
  assumes "cluster_ok_on E H K v" "known v ss" "changes v u" "effects [StatusUpdate (set_conditions cs ss) ok] u v'"
  shows "cluster_ok_on E H K v'"
proof -
  from assms(4) obtain u' where u': "call_step (StatusUpdate (set_conditions cs ss) ok) u u'" "changes u' v'" by auto
  from failed_write_ok [OF changes_keeps [OF assms(3,1)] changes_known [OF assms(3,2)] u'(1)]
  show ?thesis by (rule changes_keeps [OF u'(2)])
qed

lemma vouched_new:
  assumes "computeCurrentStateHash (pbkdf2_Key E) datamap spc ss = Inr h" "uid_ok (om_UID (spc_Meta spc))"
    and "fm_all (\<lambda>k _. valid_utf8 k) datamap" "Marshal_Secret E (secretPatchData ss datamap) = Inr patch"
    and "hash_input datamap spc ss \<in> H" "cl_applied v (key_of ss) = Some patch"
  shows "vouched E H v (set_sync h t (set_conditions cs ss))"
  using assms unfolding vouched_def
  by (intro disjI2 exI [of _ ss] exI [of _ datamap] exI [of _ spc] exI [of _ patch]) (simp add: older_refl)

lemma wrote_back_ok:
  assumes "wrote_back E ss ct h datamap err ws" "effects ws v v'"
    and "cluster_ok_on E H K v" "known v ss" "build_data E ss files = Ret (Inr datamap)"
    and "computeCurrentStateHash (pbkdf2_Key E) datamap spc ss = Inr h" "uid_ok (om_UID (spc_Meta spc))"
    and "list_ex is_applied ws \<Longrightarrow> hash_input datamap spc ss \<in> H"
  shows "cluster_ok_on E H (settled (key_of ss) ws K) v'"
  using assms(1)
proof (cases rule: wrote_back_cases)
  case none
  with assms(2,3) changes_keeps show ?thesis by auto
next
  case (patched cs1 data now ok)
  let ?s = "set_sync h (Some now) (set_conditions cs1 ss)"
  show ?thesis
  proof (cases ok)
    case True
    note adm = cluster_ok_admitted [OF assms(3,4)]
    have "fm_all (\<lambda>k _. valid_utf8 k) datamap" by (rule build_data_utf8 [OF adm assms(5)])
    note new = vouched_new [OF assms(6,7) this patched(3) assms(8)]
    from assms(2) patched(5) True have "effects [patch_call ss data True, StatusUpdate ?s True] v v'" by simp
    then obtain b s' where b: "accepts b ?s s'" "changes (store s' b) v'" "cl_applied b (key_of ss) = Some data"
      "cluster_ok_on E H (K - {key_of ss}) b" by (rule patched_effects [OF _ assms(3,4)]) (simp, simp, rule that)
    have "cluster_ok_on E H (insert (key_of ss) K) (store s' b)"
      by (rule cluster_ok_store [OF _ b(1)]) (simp_all add: adm new patched(5) b(3,4))
    from changes_keeps [OF b(2) this] show ?thesis using patched(5) True by (simp add: settled_patched)
  next
    case False
    with assms(2) patched(5) obtain u where u: "call_step (patch_call ss data True) v u" "changes u v'"
      by (auto intro: rtranclp_trans)
    from u(1) obtain a where a: "changes v a" "changes (a\<lparr>cl_applied := (cl_applied a)(key_of ss \<mapsto> data)\<rparr>) u" by (auto simp: step_patch)
    from changes_keeps [OF rtranclp_trans [OF a(2) u(2)] patched_ok [OF changes_keeps [OF a(1) assms(3)]]]
    show ?thesis using patched(5) False by (simp add: settled_patched)
  qed
next
  case (failed cs1 cs2 e pre ok)
  with assms(2) obtain u where u: "effects pre v u" "effects [StatusUpdate (set_conditions cs2 ss) ok] u v'"
    by (auto simp only: effects_append)
  have "changes v u" using u(1) failed(6) by (auto intro: rtranclp_trans)
  moreover have "\<not> list_ex is_applied pre" using failed(6) by auto
  then have "settled (key_of ss) ws K = K" using failed(5) settled_prefix [of pre] by simp
  ultimately show ?thesis using failed_effects_ok [OF assms(3,4) _ u(2)] by simp
qed

lemma sync_spec_ok:
  assumes "sync_spec E req ss ct r calls" "effects calls v v'" "cluster_ok_on E H K v" "known v ss"
    and "\<And>k w spc. fst (Client_GetSecretProviderClass E k w) = Inr spc \<Longrightarrow> uid_ok (om_UID (spc_Meta spc))"
    and "\<not> list_ex is_applied calls"
  shows "cluster_ok_on E H (settled (key_of ss) calls K) v'"
proof -
  have report: "cluster_ok_on E H (settled (key_of ss) calls K) v'"
    if "failed_write E ss ct reason s" "calls = qs @ [StatusUpdate s ok]" "list_all (\<lambda>c. \<not> is_write c) qs" for reason s ok qs
  proof -
    from that(1) obtain cs where "s = set_conditions cs ss" by (auto simp: failed_write_def)
    moreover from that assms(2) obtain u where "changes v u" "effects [StatusUpdate s ok] u v'" by (auto simp only: effects_append effects_quiet)
    moreover have "settled (key_of ss) calls K = K" using that(2) settled_prefix [OF no_applied [OF that(3)]] by simp
    ultimately show ?thesis using failed_effects_ok [OF assms(3,4)] by auto
  qed
  show ?thesis
    using assms(1)
  proof cases
    case (invalid reason err s ok)
    then show ?thesis by (intro report [of reason s "[]"]) simp_all
  next
    case (no_spc s err ok)
    then show ?thesis by (intro report [of _ s "[GetSecretProviderClass (spc_key req ss)]"]) simp_all
  next
    case (crash qs m)
    then have q: "list_all (\<lambda>c. \<not> is_write c) calls" by simp
    then have "changes v v'" using assms(2) by (simp only: effects_quiet)
    then show ?thesis using settled_prefix [OF no_applied [OF q], of _ "[]"] assms(3) by (auto intro: changes_keeps)
  next
    case (no_data qs reason s err ok)
    then show ?thesis by (intro report [of reason s "GetSecretProviderClass (spc_key req ss) # qs"]) simp_all
  next
    case (written qs files datamap spc h err ws u)
    let ?qs = "GetSecretProviderClass (spc_key req ss) # qs"
    have q: "list_all (\<lambda>c. \<not> is_write c) ?qs" using written(4) by simp
    from assms(2) written(2) obtain u where "effects ?qs v u" and ws: "effects ws u v'"
      by (auto simp only: effects_append append_Cons [symmetric])
    with q have u: "changes v u" by (simp only: effects_quiet)
    have "uid_ok (om_UID (spc_Meta spc))" using assms(5) written(8) by blast
    from wrote_back_ok [OF written(7) ws changes_keeps [OF u assms(3)] changes_known [OF u assms(4)] written(5,6) this] assms(6)
    show ?thesis using settled_prefix [OF no_applied [OF q], of _ ws] written(2) by simp
  qed
qed

text \<open>What a Reconcile adds to the inputs that were hashed.\<close>

definition input_of :: "(bytes gomap \<times> SecretProviderClass \<times> SecretSync) option \<Rightarrow> (string \<times> string) set" where
  "input_of x = (case x of None \<Rightarrow> {} | Some (datamap, spc, ss) \<Rightarrow> {hash_input datamap spc ss})"

definition hashes :: "'w controller_env \<Rightarrow> NamespacedName \<Rightarrow> SecretSyncReconciler \<times> ('w, call) world \<Rightarrow> (string \<times> string) set" where
  "hashes E req t = input_of (fst (run_state (hashed_state E req) t))"

lemma input_of_simps [simp]: "input_of None = {}" "input_of (Some (datamap, spc, ss)) = {hash_input datamap spc ss}"
  by (simp_all add: input_of_def)

section \<open>A hash that has not changed\<close>

text \<open>The Secret that was last applied is the one of the given data.\<close>

definition applied_data :: "'w controller_env \<Rightarrow> cluster \<Rightarrow> SecretSync \<Rightarrow> bytes gomap \<Rightarrow> bool" where
  "applied_data E v ss datamap \<longleftrightarrow> (\<exists>patch. Marshal_Secret E (secretPatchData ss datamap) = Inr patch
     \<and> cl_applied v (key_of ss) = Some patch)"

lemma older_patch:
  assumes "older s0 s" "om_Generation (ss_Meta s0) = om_Generation (ss_Meta s)"
  shows "secretPatchData s0 d = secretPatchData s d"
  using assms by (simp add: older_def secretPatchData_def key_of_def)

text \<open>PBKDF2 has not derived one key from two of the inputs that were hashed: then an unchanged hash means an unchanged state.\<close>

lemma vouched_same_hash:
  assumes "vouched E H v s" "admitted s" "computeCurrentStateHash (pbkdf2_Key E) datamap spc s = Inr (st_SyncHash (ss_Status s))"
    and "uid_ok (om_UID (spc_Meta spc))" "fm_all (\<lambda>k _. valid_utf8 k) datamap"
    and "inj_on (derived_key (pbkdf2_Key E)) H" "hash_input datamap spc s \<in> H"
  shows "applied_data E v s datamap"
proof -
  from computeCurrentStateHash_nonempty [OF assms(3)] assms(1) obtain s0 d0 spc0 patch where s0: "older s0 s"
    "uid_ok (om_UID (spc_Meta spc0))" "fm_all (\<lambda>k _. valid_utf8 k) d0" "hash_input d0 spc0 s0 \<in> H"
    "computeCurrentStateHash (pbkdf2_Key E) d0 spc0 s0 = Inr (st_SyncHash (ss_Status s))"
    "Marshal_Secret E (secretPatchData s0 d0) = Inr patch" "cl_applied v (key_of s) = Some patch"
    unfolding vouched_def by blast
  have uids: "uid_ok (om_UID (ss_Meta s0))" "uid_ok (om_UID (ss_Meta s))" using assms(2) s0(1) by (simp_all add: admitted_def older_def)
  have "derived_key (pbkdf2_Key E) (hash_input d0 spc0 s0) = derived_key (pbkdf2_Key E) (hash_input datamap spc s)"
    using s0(5) assms(3) by (simp add: equal_hashes [symmetric])
  then have "hash_input d0 spc0 s0 = hash_input datamap spc s" by (rule inj_onD [OF assms(6) _ s0(4) assms(7)])
  then have "d0 = datamap" "om_Generation (ss_Meta s0) = om_Generation (ss_Meta s)"
    using equal_inputs [OF s0(2) assms(4) uids s0(3) assms(5)] by simp_all
  with older_patch [OF s0(1)] s0(6,7) show ?thesis by (auto simp: applied_data_def)
qed

text \<open>
  The write protocol succeeds: at a moment of it, or at the given moment when nothing is written, a version of
  the object was stored whose Secret was applied.
\<close>

lemma wrote_back_applies:
  assumes "wrote_back E ss ct h datamap None ws" "effects ws v v'" "cluster_ok_on E H K v" "known v ss"
    and "computeCurrentStateHash (pbkdf2_Key E) datamap spc ss = Inr h" "uid_ok (om_UID (spc_Meta spc))"
    and "fm_all (\<lambda>k _. valid_utf8 k) datamap"
    and "ws = [] \<Longrightarrow> changes u0 v \<and> vouched E H u0 ss \<and> known u0 ss \<and> cl_syncs u0 (key_of ss) = Some ss"
    and "inj_on (derived_key (pbkdf2_Key E)) H" "hash_input datamap spc ss \<in> H"
  shows "\<exists>u s. (ws = [] \<and> u = u0 \<or> effects ws v u) \<and> changes u v' \<and> cl_syncs u (key_of ss) = Some s
     \<and> known u s \<and> key_of s = key_of ss \<and> secretPatchData s = secretPatchData ss \<and> applied_data E u s datamap"
  using assms(1)
proof (cases rule: wrote_back_cases)
  case none
  note u0 = assms(8) [OF none(3)]
  have adm: "admitted ss" by (rule cluster_ok_admitted [OF assms(3,4)])
  have "applied_data E u0 ss datamap"
    using vouched_same_hash [OF _ adm _ assms(6,7,9,10)] u0 none(2) assms(5) by simp
  moreover have "changes u0 v'" using u0 assms(2) none(3) by (auto intro: rtranclp_trans)
  ultimately show ?thesis using none(3) u0 by blast
next
  case (patched cs1 data now ok)
  let ?s = "set_sync h (Some now) (set_conditions cs1 ss)"
  from assms(2) patched have e: "effects [patch_call ss data True, StatusUpdate ?s True] v v'" by simp
  then obtain b s' where b: "accepts b ?s s'" "changes (store s' b) v'"
    "effects [patch_call ss data True, StatusUpdate ?s True] v (store s' b)" "cl_applied b (key_of ss) = Some data"
    by (rule patched_effects [OF _ assms(3,4)]) (simp, simp, rule that)
  have "stored_as ?s s'" using b(1) by (simp add: accepts_def)
  note s' = stored_as_simps(1,7) [OF this]
  have "secretPatchData s' = secretPatchData ss" using s'(2) by (intro ext) simp
  moreover from this have "applied_data E (store s' b) s' datamap" using patched(3) b(4) s'(1) by (simp add: applied_data_def)
  moreover have "cl_syncs (store s' b) (key_of ss) = Some s'" using s'(1) by simp
  moreover have "key_of s' = key_of ss" "known (store s' b) s'" using s'(1) by simp_all
  moreover have "effects ws v (store s' b)" using b(3) patched by (simp only: simp_thms)
  ultimately show ?thesis using b(2) by blast
qed simp

text \<open>A server whose classes have UIDs, too.\<close>

locale identifying_server = api_server +
  assumes class_uid: "fst (Client_GetSecretProviderClass E k w) = Inr spc \<Longrightarrow> uid_ok (om_UID (spc_Meta spc))"
begin

lemma fetched_changes:
  assumes "Client_GetSecretProviderClass E key (env_state w) = (Inr spc, e)"
    and "run_state (fetchSecretsFromProvider E spc ss) (p, w\<lparr>env_state := e, trace := tr\<rparr>) = (f, (q, t))"
  shows "changes (view (env_state w)) (view (env_state t))"
proof -
  have "changes (view (env_state w)) (view e)" using get_class [of "env_state w" key] assms(1) by simp
  also have "changes (view e) (view (env_state t))" using fetch_changes [OF assms(2)] by simp
  finally show ?thesis .
qed

lemma reconcile_synced_keeps:
  assumes run: "run_state (reconcile_synced E req ss ct) (p, w) = (r, (p', w'))" and c: "trace w' = trace w @ calls"
    and ok: "cluster_ok_on E H K (view (env_state w))" "known (view (env_state w)) ss"
  shows "cluster_ok_on E (H \<union> input_of (fst (run_state (hashed_class E req ss) (p, w)))) (settled (key_of ss) calls K) (view (env_state w'))"
  using run
proof (cases rule: synced_cases)
  case (stopped cs)
  show ?thesis
  proof (rule run_tracked [OF tracks_reconcile_synced run])
    fix cs'
    assume "trace w' = trace w @ cs'" "effects cs' (view (env_state w)) (view (env_state w'))"
    then have e: "cs' = calls" "effects calls (view (env_state w)) (view (env_state w'))" using c by simp_all
    have "\<not> list_ex is_applied calls" using stopped(3,4) c by (auto simp: list_ex_iff list_all_iff is_applied_def is_patch_def split: call.splits)
    with run_reconcile_synced [OF run] c e ok class_uid stopped(1) show ?thesis by (auto intro: sync_spec_ok)
  qed
next
  case (written datamap spc e q t h err qs files)
  have t: "changes (view (env_state w)) (view (env_state t))" by (rule fetched_changes [OF written(2,3)])
  have uid: "uid_ok (om_UID (spc_Meta spc))" using class_uid [of "spc_key req ss" "env_state w" spc] written(2) by simp
  obtain ws where ws: "trace w' = trace t @ ws" "effects ws (view (env_state t)) (view (env_state w'))"
    by (rule run_tracked [OF tracks_write_back written(8)])
  have wb: "wrote_back E ss ct h datamap err ws" using run_write_back [OF written(8)] ws(1) by auto
  let ?H = "H \<union> {hash_input datamap spc ss}"
  have "cluster_ok_on E ?H K (view (env_state t))" by (rule cluster_ok_more [OF changes_keeps [OF t ok(1)]]) blast
  from wrote_back_ok [OF wb ws(2) this changes_known [OF t ok(2)] written(6,7) uid]
  have "cluster_ok_on E ?H (settled (key_of ss) ws K) (view (env_state w'))" by simp
  moreover have "calls = qs @ ws" using c ws(1) written(10) by simp
  ultimately show ?thesis using settled_prefix [OF no_applied [OF written(11)], of _ ws] written(5) by simp
qed

lemma reconcile_synced_applies:
  assumes run: "run_state (reconcile_synced E req ss ct) (p, w) = (Ret None, (p', w'))" and c: "trace w' = trace w @ calls"
    and ss: "cluster_ok_on E H K (view (env_state w))" "known (view (env_state w)) ss"
    and cur: "list_all (\<lambda>c. \<not> is_write c) calls
      \<Longrightarrow> changes u0 (view (env_state w)) \<and> vouched E H u0 ss \<and> known u0 ss \<and> cl_syncs u0 (key_of ss) = Some ss"
    and inj: "inj_on (derived_key (pbkdf2_Key E)) (H \<union> input_of (fst (run_state (hashed_class E req ss) (p, w))))"
  shows "\<exists>u s datamap spc. (list_all (\<lambda>c. \<not> is_write c) calls \<and> u = u0 \<or> effects calls (view (env_state w)) u)
     \<and> changes u (view (env_state w')) \<and> cl_syncs u (key_of ss) = Some s \<and> known u s \<and> key_of s = key_of ss \<and> secretPatchData s = secretPatchData ss
     \<and> fst (run_state (class_data E req ss) (p, w)) = Some (datamap, spc, ss)
     \<and> fst (run_state (hashed_class E req ss) (p, w)) = Some (datamap, spc, ss) \<and> applied_data E u s datamap"
  using run
proof (cases rule: synced_cases)
  case (written datamap spc e q t h err qs files)
  let ?H = "H \<union> {hash_input datamap spc ss}" and ?v = "view (env_state w)"
  have t: "changes ?v (view (env_state t))" by (rule fetched_changes [OF written(2,3)])
  have uid: "uid_ok (om_UID (spc_Meta spc))" using class_uid [of "spc_key req ss" "env_state w" spc] written(2) by simp
  have utf8: "fm_all (\<lambda>k _. valid_utf8 k) datamap" by (rule build_data_utf8 [OF cluster_ok_admitted [OF ss] written(6)])
  obtain ws where ws: "trace w' = trace t @ ws" "effects ws (view (env_state t)) (view (env_state w'))"
    by (rule run_tracked [OF tracks_write_back written(8)])
  have calls: "calls = qs @ ws" using c ws(1) written(10) by simp
  have "changes u0 (view (env_state t)) \<and> vouched E ?H u0 ss \<and> known u0 ss \<and> cl_syncs u0 (key_of ss) = Some ss" if "ws = []"
    using that cur calls written(11) rtranclp_trans [OF _ t] vouched_more [of E H u0 ss ?H, OF _ Un_upper1] by simp
  moreover have "wrote_back E ss ct h datamap None ws" using run_write_back [OF written(8)] ws(1) written(9) by auto
  moreover have "cluster_ok_on E ?H K (view (env_state t))" by (rule cluster_ok_more [OF changes_keeps [OF t ss(1)]]) blast
  moreover have "inj_on (derived_key (pbkdf2_Key E)) ?H" using inj written(5) by simp
  ultimately obtain u s where u: "ws = [] \<and> u = u0 \<or> effects ws (view (env_state t)) u" "changes u (view (env_state w'))"
    and s: "cl_syncs u (key_of ss) = Some s" "known u s" "key_of s = key_of ss" "secretPatchData s = secretPatchData ss" "applied_data E u s datamap"
    using wrote_back_applies [OF _ ws(2) _ changes_known [OF t ss(2)] written(7) uid utf8] by blast
  have "effects qs ?v (view (env_state t))" using t written(11) by (simp only: effects_quiet)
  with u(1) written(11) have "list_all (\<lambda>c. \<not> is_write c) calls \<and> u = u0 \<or> effects calls ?v u"
    unfolding calls effects_append by auto
  then show ?thesis using u(2) s written(4,5) by blast
qed simp

text \<open>
  Up to the sync proper, a Reconcile reads and, for an object without conditions, stores the initial
  ones: it stops there with a refusal, or goes on with a version it has just read or stored.
\<close>

lemma Reconcile_phases [consumes 2, case_names stopped ready inited]:
  assumes run: "run_state (Reconcile E req) (p, w) = (r, (p', w'))" and ok: "cluster_ok_on E H K (view (env_state w))"
  obtains "r \<noteq> Ret None" "changes (view (env_state w)) (view (env_state w'))" "fst (run_state (hashed_state E req) (p, w)) = None"
      "\<And>ss. fst (Client_GetSecretSync E req (env_state w)) = Inr ss
         \<Longrightarrow> \<exists>cs u e. known (view u) ss \<and> key_of ss = req \<and> cluster_ok_on E H K (view u)
               \<and> trace w' = trace w @ [GetSecretSync req, StatusUpdate (set_conditions cs ss) False]
               \<and> Status_Update E (set_conditions cs ss) u = (Inl e, env_state w')"
  | ss w1 where "Client_GetSecretSync E req (env_state w) = (Inr ss, env_state w1)" "key_of ss = req" "known (view (env_state w1)) ss"
      "trace w1 = trace w @ [GetSecretSync req]" "changes (view (env_state w)) (view (env_state w1))" "cluster_ok_on E H K (view (env_state w1))"
      "run_state (reconcile_synced E req ss (condition_type ss)) (p, w1) = (r, (p', w'))"
      "fst (run_state (fetched_data E req) (p, w)) = fst (run_state (class_data E req ss) (p, w1))"
      "fst (run_state (hashed_state E req) (p, w)) = fst (run_state (hashed_class E req ss) (p, w1))"
  | ss cs ss' v w1 where "fst (Client_GetSecretSync E req (env_state w)) = Inr ss"
      "changes (view (env_state w)) v" "accepts v (set_conditions cs ss) ss'" "key_of ss' = req" "cluster_ok_on E H K (store ss' v)"
      "trace w1 = trace w @ [GetSecretSync req, StatusUpdate (set_conditions cs ss) True]" "changes (store ss' v) (view (env_state w1))"
      "run_state (reconcile_synced E req ss' (condition_type ss)) (p, w1) = (r, (p', w'))"
      "fst (run_state (fetched_data E req) (p, w)) = fst (run_state (class_data E req ss') (p, w1))"
      "fst (run_state (hashed_state E req) (p, w)) = fst (run_state (hashed_class E req ss') (p, w1))"
proof -
  obtain g e where g: "Client_GetSecretSync E req (env_state w) = (g, e)" by fastforce
  let ?w = "w\<lparr>env_state := e, trace := trace w @ [GetSecretSync req]\<rparr>"
  note defs = Reconcile_def fetched_data_def hashed_state_def run_simps Let_def g
  have e: "changes (view (env_state w)) (view e)" using get_sync [OF g] by simp
  have oke: "cluster_ok_on E H K (view e)" by (rule changes_keeps [OF e ok])
  show ?thesis
  proof (cases g)
    case (Inl err)
    with run e g that(1) show ?thesis by (auto simp: defs)
  next
    case (Inr ss)
    have ss: "key_of ss = req" "known (view e) ss"
      using get_sync [OF g] Inr history_okD(2) [OF cluster_ok_history [OF oke]] by auto
    show ?thesis
    proof (cases "length (conds ss) < 2")
      case False
      with run Inr g ss e oke that(2) [of ss ?w] show ?thesis by (simp add: defs)
    next
      case True
      obtain ss' err p1 w1 where i: "run_state (initConditions E ss) (p, ?w) = ((ss', err), (p1, w1))" by (metis run_obtain surj_pair)
      from init_effect [OF i] obtain cs where cs: "p1 = p" "trace w1 = trace ?w @ [StatusUpdate (set_conditions cs ss) (err = None)]"
        and st: "if err = None then \<exists>v. changes (view (env_state ?w)) v \<and> accepts v (set_conditions cs ss) ss' \<and> changes (store ss' v) (view (env_state w1))
          else \<exists>u x. changes (view (env_state ?w)) (view u) \<and> Status_Update E (set_conditions cs ss) u = (Inl x, env_state w1)" by blast
      show ?thesis
      proof (cases err)
        case (Some y)
        with st obtain u x where u: "changes (view e) (view u)" "Status_Update E (set_conditions cs ss) u = (Inl x, env_state w1)" by auto
        have "r \<noteq> Ret None" "w' = w1" "fst (run_state (hashed_state E req) (p, w)) = None"
          using run True Inr i Some by (auto simp: defs)
        moreover have "changes (view (env_state w)) (view (env_state w1))"
          using status [OF u(2)] u(1) e by (auto intro: rtranclp_trans)
        moreover have "known (view u) ss" "cluster_ok_on E H K (view u)" by (rule changes_known [OF u(1) ss(2)], rule changes_keeps [OF u(1) oke])
        ultimately show ?thesis using Inr g u(2) ss(1) cs(2) Some by (intro that(1)) auto
      next
        case None
        with st obtain v where v: "changes (view e) v" "accepts v (set_conditions cs ss) ss'" "changes (store ss' v) (view (env_state w1))" by auto
        have "call_step (StatusUpdate (set_conditions cs ss) True) v (store ss' v)" using v(2) by (auto simp: step_status)
        note ok1 = failed_write_ok [OF changes_keeps [OF v(1) oke] changes_known [OF v(1) ss(2)] this]
        have "key_of ss' = req" using v(2) ss(1) stored_as_simps(1) [of "set_conditions cs ss" ss'] by (simp add: accepts_def)
        moreover have "changes (view (env_state w)) v" by (rule rtranclp_trans [OF e v(1)])
        ultimately show ?thesis using that(3) [of ss v cs ss' w1] v(2,3) ok1 cs None True Inr i run by (simp add: defs)
      qed
    qed
  qed
qed

lemma Reconcile_keeps:
  assumes run: "run_state (Reconcile E req) (p, w) = (r, (p', w'))" and ok: "cluster_ok_on E H K (view (env_state w))"
    and c: "trace w' = trace w @ calls"
  shows "cluster_ok_on E (H \<union> hashes E req (p, w)) (settled req calls K) (view (env_state w'))"
  using run ok
proof (cases rule: Reconcile_phases)
  case stopped
  have "reconcile_spec E req (fst (Client_GetSecretSync E req (env_state w))) r calls" using run_Reconcile [OF run] c by auto
  then have "settled req calls K = K"
  proof (cases "fst (Client_GetSecretSync E req (env_state w))")
    case (Inr ss)
    from stopped(4) [OF Inr] c settled_prefix [of "[GetSecretSync req]"] show ?thesis by auto
  qed (auto elim: reconcile_spec.cases)
  with changes_keeps [OF stopped(2) ok] stopped(3) show ?thesis by (simp add: hashes_def)
next
  case (ready ss w1)
  from run_reconcile_synced [OF ready(7)] obtain cs where cs: "trace w' = trace w1 @ cs" by blast
  with c ready(4) settled_prefix [of "[GetSecretSync req]" req cs K] reconcile_synced_keeps [OF ready(7) cs ready(6,3)] ready(2,9)
  show ?thesis by (simp add: hashes_def)
next
  case (inited ss cs ss' v w1)
  let ?init = "[GetSecretSync req, StatusUpdate (set_conditions cs ss) True]"
  from run_reconcile_synced [OF inited(8)] obtain cs' where cs': "trace w' = trace w1 @ cs'" by blast
  from reconcile_synced_keeps [OF inited(8) cs' changes_keeps [OF inited(7,5)] changes_known [OF inited(7)]]
  show ?thesis using c cs' inited(4,6,10) settled_prefix [of ?init req cs' K] by (simp add: hashes_def)
qed

lemma success_not_lost:
  assumes run: "run_state (Reconcile E req) (p, w) = (Ret None, (p', w'))" and c: "trace w' = trace w @ calls"
  shows "\<not> patched_status False calls"
proof
  assume "patched_status False calls"
  then obtain q s where q: "calls = q @ [StatusUpdate s False]" by (auto simp: patched_status_def)
  have "reconcile_spec E req (fst (Client_GetSecretSync E req (env_state w))) (Ret None) calls" using run_Reconcile [OF run] c by auto
  then show False
  proof cases
    case (inited ss cs u ss' calls')
    with q show False by (cases calls' rule: rev_cases) (auto simp: append_eq_Cons_conv dest!: sync_spec_success)
  next
    case (ready ss calls')
    with q show False by (cases calls' rule: rev_cases) (auto simp: append_eq_Cons_conv dest!: sync_spec_success)
  qed
qed

text \<open>The whole Reconcile, which has patched, or whose object is settled and was read in its current version or written.\<close>

lemma Reconcile_applies:
  assumes run: "run_state (Reconcile E req) (p, w) = (Ret None, (p', w'))" and ok: "cluster_ok_on E H K (view (env_state w))"
    and c: "trace w' = trace w @ calls" and read: "Client_GetSecretSync E req (env_state w) = (Inr s0, e)"
    and cur: "list_ex is_applied calls \<or> req \<in> K \<and> (list_ex is_write calls \<or> cl_syncs (view e) req = Some s0)"
    and inj: "inj_on (derived_key (pbkdf2_Key E)) (H \<union> hashes E req (p, w))"
  shows "\<exists>u s datamap spc s1. effects calls (view (env_state w)) u \<and> changes u (view (env_state w'))
     \<and> cl_syncs u req = Some s \<and> known u s \<and> key_of s = req \<and> secretPatchData s = secretPatchData s0
     \<and> fst (run_state (fetched_data E req) (p, w)) = Some (datamap, spc, s1)
     \<and> fst (run_state (hashed_state E req) (p, w)) = Some (datamap, spc, s1) \<and> applied_data E u s datamap"
  using run ok
proof (cases rule: Reconcile_phases)
  case (ready ss w1)
  from run_reconcile_synced [OF ready(7)] obtain cs where cs: "trace w' = trace w1 @ cs" by blast
  have calls: "calls = GetSecretSync req # cs" using cs c ready(4) by simp
  have ss: "s0 = ss" "env_state w1 = e" using read ready(1) by simp_all
  have "cl_syncs (view e) (key_of ss) = Some ss \<and> vouched E H (view e) ss" if q: "list_all (\<lambda>c. \<not> is_write c) cs"
  proof -
    have "list_all (\<lambda>c. \<not> is_write c) calls" using q calls by simp
    with cur no_applied [OF this] have "req \<in> K" "cl_syncs (view e) req = Some s0" by (auto simp: list_all_iff list_ex_iff)
    with cluster_okD(2) [OF ready(6), of req ss] ss ready(2) show ?thesis by simp
  qed
  moreover have "inj_on (derived_key (pbkdf2_Key E)) (H \<union> input_of (fst (run_state (hashed_class E req ss) (p, w1))))"
    using inj ready(9) by (simp add: hashes_def)
  ultimately obtain u s datamap spc where u: "list_all (\<lambda>c. \<not> is_write c) cs \<and> u = view e \<or> effects cs (view e) u"
    "changes u (view (env_state w'))" "cl_syncs u (key_of ss) = Some s" "known u s" "key_of s = key_of ss" "secretPatchData s = secretPatchData ss"
    "fst (run_state (class_data E req ss) (p, w1)) = Some (datamap, spc, ss)"
    "fst (run_state (hashed_class E req ss) (p, w1)) = Some (datamap, spc, ss)" "applied_data E u s datamap"
    using reconcile_synced_applies [OF ready(7) cs ready(6,3), of "view e"] ss ready(3) by auto
  have "effects calls (view (env_state w)) u" using u(1) ready(5) ss calls effects_changes(1) [of _ "view e" cs u] by auto
  with u(2-9) ss ready(2,8,9) show ?thesis by auto
next
  case (inited ss cs ss' v w1)
  let ?u0 = "store ss' v"
  from run_reconcile_synced [OF inited(8)] obtain cs' where cs': "trace w' = trace w1 @ cs'" by blast
  have calls: "calls = [GetSecretSync req, StatusUpdate (set_conditions cs ss) True] @ cs'" using cs' c inited(6) by simp
  have ss: "s0 = ss" using read inited(1) by simp
  have "stored_as (set_conditions cs ss) ss'" using inited(3) by (simp add: accepts_def)
  then have sp: "secretPatchData ss' = secretPatchData ss" using stored_as_simps(7) [of _ ss'] by (intro ext) simp
  have "changes ?u0 (view (env_state w1)) \<and> vouched E H ?u0 ss' \<and> known ?u0 ss' \<and> cl_syncs ?u0 (key_of ss') = Some ss'"
    if q: "list_all (\<lambda>c. \<not> is_write c) cs'"
  proof -
    have "req \<in> K" using cur no_applied [OF q] calls by auto
    with cluster_okD(2) [OF inited(5), of req ss'] inited(4,7) show ?thesis by simp
  qed
  moreover have "inj_on (derived_key (pbkdf2_Key E)) (H \<union> input_of (fst (run_state (hashed_class E req ss') (p, w1))))"
    using inj inited(10) by (simp add: hashes_def)
  ultimately obtain u s datamap spc where u: "list_all (\<lambda>c. \<not> is_write c) cs' \<and> u = ?u0 \<or> effects cs' (view (env_state w1)) u"
    "changes u (view (env_state w'))" "cl_syncs u (key_of ss') = Some s" "known u s" "key_of s = key_of ss'" "secretPatchData s = secretPatchData ss'"
    "fst (run_state (class_data E req ss') (p, w1)) = Some (datamap, spc, ss')"
    "fst (run_state (hashed_class E req ss') (p, w1)) = Some (datamap, spc, ss')" "applied_data E u s datamap"
    using reconcile_synced_applies [OF inited(8) cs' changes_keeps [OF inited(7,5)] changes_known [OF inited(7)], of ?u0] by auto
  have "effects cs' ?u0 u" using u(1) effects_changes(1) [OF inited(7)] by auto
  moreover have "effects [GetSecretSync req, StatusUpdate (set_conditions cs ss) True] (view (env_state w)) ?u0"
    using inited(2,3) by (auto simp: step_status)
  ultimately have "effects calls (view (env_state w)) u" unfolding calls effects_append by blast
  with u(2-9) ss sp inited(4,9,10) show ?thesis by auto
qed simp

end

section \<open>The controller and the rest of the cluster\<close>

text \<open>
  The controller takes objects one after another, and others change the cluster. Beside the state are the
  inputs that were hashed so far, at first none, and the set of the objects that are settled, at first all of them.
\<close>

type_synonym 'w cluster_state = "(string \<times> string) set \<times> NamespacedName set \<times> SecretSyncReconciler \<times> ('w, call) world"

inductive cluster_step :: "'w controller_env \<Rightarrow> ('w \<Rightarrow> cluster) \<Rightarrow> 'w cluster_state \<Rightarrow> 'w cluster_state \<Rightarrow> bool" for E view where
  reconcile: "run_state (Reconcile E req) (p, w) = (r, (p', w')) \<Longrightarrow> trace w' = trace w @ calls
    \<Longrightarrow> cluster_step E view (H, K, p, w) (H \<union> hashes E req (p, w), settled req calls K, p', w')"
| outside: "outside_change (view (env_state w)) (view e) \<Longrightarrow> cluster_step E view (H, K, p, w) (H, K, p, w\<lparr>env_state := e\<rparr>)"

definition cluster_init :: "('w \<Rightarrow> cluster) \<Rightarrow> 'w cluster_state \<Rightarrow> bool" where
  "cluster_init view S \<longleftrightarrow> (case S of (H, K, p, w) \<Rightarrow> H = {} \<and> K = UNIV \<and> history_ok (view (env_state w))
     \<and> (\<forall>k s. cl_syncs (view (env_state w)) k = Some s \<longrightarrow> st_SyncHash (ss_Status s) = []))"

definition state_ok :: "'w controller_env \<Rightarrow> ('w \<Rightarrow> cluster) \<Rightarrow> 'w cluster_state \<Rightarrow> bool" where
  "state_ok E view S \<longleftrightarrow> (case S of (H, K, p, w) \<Rightarrow> cluster_ok_on E H K (view (env_state w)))"

sublocale identifying_server \<subseteq> runs: invariant_system "cluster_init view" "cluster_step E view" "state_ok E view"
proof
  fix S :: "'a cluster_state"
  assume "cluster_init view S"
  then show "state_ok E view S" by (auto simp: cluster_init_def state_ok_def cluster_ok_on_def vouched_def)
next
  fix S T
  assume ok: "state_ok E view S" and "cluster_step E view S T"
  from this(2) show "state_ok E view T"
  proof cases
    case (reconcile req p w r p' w' calls H K)
    with ok Reconcile_keeps show ?thesis by (auto simp: state_ok_def)
  next
    case (outside w e H K p)
    with ok outside_keeps show ?thesis by (auto simp: state_ok_def)
  qed
qed

context identifying_server
begin

lemma inv_reach: "reach (cluster_init view) (cluster_step E view) (H, K, p, w) \<Longrightarrow> cluster_ok_on E H K (view (env_state w))"
  using runs.reach_inv [of "(H, K, p, w)"] by (simp add: state_ok_def)

end

text \<open>
  C6: The stored hash vouches for the Secret. In every state that a cluster reaches by Reconciles and
  changes by others, before, between and during them, each stored SecretSync with a sync hash has its
  Secret, unless the status write after its last patch was refused: what was last applied to it is the
  marshalled Secret of a data map and an earlier version of the object that have exactly this hash, the
  result of hashing that a Reconcile has done. The Reconciles may have read outdated versions from the cache.
\<close>

theorem status_vouches:
  assumes "identifying_server E view" "reach (cluster_init view) (cluster_step E view) (H, K, p, w)"
    and "k \<in> K" "cl_syncs (view (env_state w)) k = Some s"
  shows "vouched E H (view (env_state w)) s"
  by (rule cluster_okD(2) [OF identifying_server.inv_reach [OF assms(1,2)] assms(3,4)])

text \<open>
  C1: Success means in sync. Take a Reconcile in such a state that returns without error, and that has
  patched, or that wrote something or read the current version of its object, which had not lost the
  status write after its last patch; and let PBKDF2 have derived different keys from the different
  inputs that were hashed so far and now. Then there was a moment of the run, after which only others have
  changed the cluster, when a version of the object was stored and the configuration applied to its Secret
  was the very Secret of that version and of the data that this Reconcile fetched from the provider,
  whether it patched or found the hash unchanged; and if nobody has replaced that version by the end of the
  run, the Secret is still the same then.
\<close>

theorem Reconcile_in_sync:
  assumes "identifying_server E view" "reach (cluster_init view) (cluster_step E view) (H, K, p, w)"
    and "run_state (Reconcile E req) (p, w) = (Ret None, (p', w'))" "trace w' = trace w @ calls"
    and "Client_GetSecretSync E req (env_state w) = (Inr s0, e)"
    and "list_ex is_applied calls \<or> req \<in> K \<and> (list_ex is_write calls \<or> cl_syncs (view e) req = Some s0)"
    and "inj_on (derived_key (pbkdf2_Key E)) (H \<union> hashes E req (p, w))"
  shows "\<exists>u s datamap spc s1. effects calls (view (env_state w)) u \<and> changes u (view (env_state w'))
     \<and> cl_syncs u req = Some s \<and> fst (run_state (hashed_state E req) (p, w)) = Some (datamap, spc, s1)
     \<and> applied_data E u s datamap \<and> (cl_syncs (view (env_state w')) req = Some s \<longrightarrow> applied_data E (view (env_state w')) s datamap)"
proof -
  from identifying_server.Reconcile_applies [OF assms(1,3) identifying_server.inv_reach [OF assms(1,2)] assms(4-7)]
  obtain u s datamap spc s1 where u: "effects calls (view (env_state w)) u" "changes u (view (env_state w'))" "cl_syncs u req = Some s"
    "known u s" "key_of s = req" "fst (run_state (hashed_state E req) (p, w)) = Some (datamap, spc, s1)" "applied_data E u s datamap" by blast
  have "applied_data E (view (env_state w')) s datamap" if "cl_syncs (view (env_state w')) req = Some s"
    using changes_current [OF u(2,4)] that u(5,7) by (simp add: applied_data_def)
  with u show ?thesis by blast
qed

section \<open>A concrete site\<close>

text \<open>
  A cluster with one provider that delivers one file, of changing content, an API server that keeps a log
  of all versions, the newest first, and locks optimistically, and a cache that may hold on to an old version.
\<close>

record site =
  site_log :: "SecretSync list"
  site_applied :: "NamespacedName \<Rightarrow> string option"
  site_classes :: "NamespacedName \<Rightarrow> SecretProviderClass option"
  site_content :: string
  site_cached :: "SecretSync option"

definition site_cluster :: "site \<Rightarrow> cluster" where
  "site_cluster w = \<lparr>cl_syncs = (\<lambda>k. find (\<lambda>s. key_of s = k) (site_log w)),
     cl_versions = (\<lambda>k rv. find (\<lambda>s. key_of s = k \<and> rv_of s = rv) (site_log w)), cl_applied = site_applied w\<rparr>"

definition site_version :: "nat \<Rightarrow> string" where
  "site_version n = replicate n (CHR ''x'')"

primrec longest_version :: "SecretSync list \<Rightarrow> nat" where
  "longest_version [] = 0"
| "longest_version (s # ss) = max (length (rv_of s)) (longest_version ss)"

definition site_read :: "NamespacedName \<Rightarrow> site \<Rightarrow> error + SecretSync" where
  "site_read k w = (case (case site_cached w of None \<Rightarrow> cl_syncs (site_cluster w) k | s \<Rightarrow> s) of
     None \<Rightarrow> Inl (ExtError ''not found'' True 2)
   | Some s \<Rightarrow> if cl_versions (site_cluster w) k (rv_of s) = Some s then Inr s else Inl (ExtError ''not found'' True 2))"

definition site_update :: "SecretSync \<Rightarrow> site \<Rightarrow> (error + SecretSync) \<times> site" where
  "site_update s w = (if map_option rv_of (cl_syncs (site_cluster w) (key_of s)) = Some (rv_of s)
     then let s' = s\<lparr>ss_Meta := (ss_Meta s)\<lparr>om_ResourceVersion := site_version (Suc (longest_version (site_log w)))\<rparr>\<rparr>
       in (Inr s', w\<lparr>site_log := s' # site_log w\<rparr>)
     else (Inl (ExtError ''conflict'' False 2), w))"

definition site_provider :: "site provider_env" where
  "site_provider = \<lparr>
     os_Stat = (\<lambda>path w. (None, w)), os_Lstat = (\<lambda>path w. (None, w)), IsRuntimeWindows = False,
     grpc_NewClient = (\<lambda>target opts w. (Inr (ClientConn 0), w)), ClientConn_Close = (\<lambda>conn w. (None, w)),
     client_Mount = (\<lambda>client req w. (Inr (Some \<lparr>mr_Error = None, mr_ObjectVersion = Some [],
       mr_Files = [\<lparr>f_Path = ''db'', f_Contents = Some (site_content w)\<rparr>]\<rparr>), w)),
     client_Version = (\<lambda>client v w. (Inr \<lparr>vr_RuntimeVersion = ''1''\<rparr>, w)), provider_isPrint = (\<lambda>r. False)\<rparr>"

definition site_env :: "site controller_env" where
  "site_env = \<lparr>
     SetStatusCondition = (\<lambda>cs c w. (demo_set cs c, w)),
     Status_Update = site_update,
     Client_GetSecretSync = (\<lambda>k w. (site_read k w, w)),
     Client_GetSecretProviderClass = (\<lambda>k w. (case site_classes w k of
       None \<Rightarrow> Inl (ExtError ''not found'' True 2)
     | Some spc \<Rightarrow> if uid_ok (om_UID (spc_Meta spc)) then Inr spc else Inl (ExtError ''uid'' False 2), w)),
     Secrets_Patch = (\<lambda>namespace name data fm w. (None, w\<lparr>site_applied :=
       (site_applied w)(\<lparr>nn_Namespace = namespace, nn_Name = name\<rparr> \<mapsto> data)\<rparr>)),
     Marshal_Secret = (\<lambda>secret. Inr (json_map json_bytes (sec_Data secret))),
     Getenv = (\<lambda>name. name),
     pbkdf2_Key = demo_kdf,
     tokenEnv = demo_tokens,
     providerEnv = site_provider,
     cryptoLib = demo_rsa\<rparr>"

lemma site_version_new: "longest_version xs < n \<Longrightarrow> find (\<lambda>s. key_of s = k \<and> rv_of s = site_version n) xs = None"
  by (induction xs) (auto simp: site_version_def)

lemma site_cluster_simps [simp]:
  "cl_applied (site_cluster w) = site_applied w"
  "site_cluster (w\<lparr>site_log := s # site_log w\<rparr>) = store s (site_cluster w)"
  "site_cluster (w\<lparr>site_applied := a\<rparr>) = (site_cluster w)\<lparr>cl_applied := a\<rparr>"
  by (auto simp: site_cluster_def store_def fun_eq_iff)

lemma site_update_law:
  assumes "site_update s w = (u, w')"
  shows "case u of Inl _ \<Rightarrow> site_cluster w' = site_cluster w
    | Inr s' \<Rightarrow> accepts (site_cluster w) s s' \<and> site_cluster w' = store s' (site_cluster w)"
proof (cases "map_option rv_of (cl_syncs (site_cluster w) (key_of s)) = Some (rv_of s)")
  case True
  let ?s' = "s\<lparr>ss_Meta := (ss_Meta s)\<lparr>om_ResourceVersion := site_version (Suc (longest_version (site_log w)))\<rparr>\<rparr>"
  have "cl_versions (site_cluster w) (key_of s) (rv_of ?s') = None"
    using site_version_new [of "site_log w"] by (simp add: site_cluster_def rv_of_def)
  with True have "accepts (site_cluster w) s ?s'" by (auto simp: accepts_def stored_as_def)
  with True assms show ?thesis by (auto simp: site_update_def Let_def)
next
  case False
  then have "site_update s w = (Inl (ExtError ''conflict'' False 2), w)" unfolding site_update_def by (rule if_not_P)
  with assms show ?thesis by auto
qed

lemma site_read_law: "site_read k w = Inr s \<Longrightarrow> cl_versions (site_cluster w) k (rv_of s) = Some s"
  by (auto simp: site_read_def split: option.splits if_splits)

interpretation site: identifying_server site_env site_cluster
proof
  show "case u of Inl _ \<Rightarrow> changes (site_cluster w) (site_cluster w')
    | Inr s' \<Rightarrow> \<exists>v. changes (site_cluster w) v \<and> accepts v s s' \<and> changes (store s' v) (site_cluster w')"
    if "Status_Update site_env s w = (u, w')" for s w u w'
  proof -
    have "site_update s w = (u, w')" using that by (simp add: site_env_def)
    from site_update_law [OF this] show ?thesis by (cases u) auto
  qed
  show "call_step (PatchSecret namespace name fieldManager data (err = None)) (site_cluster w) (site_cluster w')"
    if "Secrets_Patch site_env namespace name data fieldManager w = (err, w')" for namespace name data fieldManager w err w'
    unfolding call_step_def
  proof (intro exI conjI rtranclp.rtrancl_refl)
    show "effect (PatchSecret namespace name fieldManager data (err = None)) (site_cluster w) (site_cluster w')"
      using that by (auto simp: site_env_def effect_def)
  qed simp_all
qed (auto simp: site_env_def demo_tokens_def site_provider_def dest: site_read_law split: sum.splits option.splits if_splits)

text \<open>The one object, in a given version and status.\<close>

definition site_ss :: "nat \<Rightarrow> SecretSyncStatus \<Rightarrow> SecretSync" where
  "site_ss n st = (demo_ss st)\<lparr>ss_Meta := (ss_Meta (demo_ss st))\<lparr>om_ResourceVersion := site_version n\<rparr>,
     ss_Spec := (ss_Spec (demo_ss st))\<lparr>sp_SecretObject :=
     (sp_SecretObject (ss_Spec (demo_ss st)))\<lparr>so_Data := [demo_entry ''db'' ''user'']\<rparr>\<rparr>\<rparr>"

definition site_data :: "string \<Rightarrow> bytes gomap" where
  "site_data c = fmupd ''user'' (Some c) fmempty"

definition site_hash :: "string \<Rightarrow> string" where
  "site_hash c = ''v1:'' @ hex_EncodeToString (demo_kdf (secret_part (site_data c) @ toHash demo_spc (site_ss 0 demo_status0)) ''u2'' 100000 32)"

lemma site_trim: "TrimSpace ''db'' = ''db''" "TrimSpace ''user'' = ''user''"
  by (rule TrimSpace_graph; code_simp)+

lemma site_fetch:
  "\<exists>params. run_state (fetchSecretsFromProvider site_env demo_spc (site_ss n st)) (demo_rc', w)
   = (Ret (Inr (site_data (site_content (env_state w)))), (demo_rc', w\<lparr>trace := trace w
       @ [Mount (NewCSIDriverProviderClient (ClientConn 0)) (mount_request params (json_map json_string fmempty) [])]\<rparr>))"
  by (rule exI)
    (simp add: fetchSecretsFromProvider_def run_simps site_env_def site_provider_def demo_spc_def demo_rc_def demo_rc'_def Get_def put_client_def
      prepareCSIProviderParams_def SecretProviderServiceAccountTokenAttrs_def provider_parameters_def map_assign_def
      MountContent_def Let_def build_data_def BuildKubeSecretData_def site_ss_def demo_ss_def demo_entry_def site_trim
      version_map_def file_map_def site_data_def SecretTypeTLS_def)

text \<open>
  The site with the one object, whose statuses are given, the newest first, with a given Secret applied
  and a given version in the cache, if any; the Reconcile of an object with its conditions is the fetch
  and then \<^const>\<open>write_back\<close>.
\<close>

primrec site_objects :: "SecretSyncStatus list \<Rightarrow> SecretSync list" where
  "site_objects [] = []"
| "site_objects (st # hist) = site_ss (Suc (length hist)) st # site_objects hist"

definition site_state :: "string \<Rightarrow> SecretSync option \<Rightarrow> SecretSyncStatus list \<Rightarrow> string option \<Rightarrow> site" where
  "site_state c cached hist applied = \<lparr>site_log = site_objects hist, site_applied = (\<lambda>_. None)(demo_req := applied),
     site_classes = [\<lparr>nn_Namespace = ''ns'', nn_Name = ''spc''\<rparr> \<mapsto> demo_spc], site_content = c, site_cached = cached\<rparr>"

definition site_world :: "string \<Rightarrow> SecretSync option \<Rightarrow> SecretSyncStatus list \<Rightarrow> string option \<Rightarrow> call list \<Rightarrow> (site, call) world" where
  "site_world c cached hist applied tr = \<lparr>env_state = site_state c cached hist applied, trace = tr\<rparr>"

definition site_synced :: "string \<Rightarrow> SecretSyncStatus" where
  "site_synced c = \<lparr>st_SyncHash = site_hash c, st_LastSuccessfulSyncTime = Some 0,
     st_Conditions = demo_conds ConditionTrue ConditionReasonCreateSuccessful ConditionMessageCreateSuccessful
       ConditionTrue ConditionReasonSecretUpToDate ConditionMessageUpdateSuccessful\<rparr>"

definition site_patch :: "string \<Rightarrow> string" where
  "site_patch c = json_map json_bytes (site_data c)"

lemma site_ss_simps [simp]:
  "set_conditions cs (site_ss n st) = site_ss n (st\<lparr>st_Conditions := cs\<rparr>)"
  "set_sync h t (site_ss n st) = site_ss n (st\<lparr>st_SyncHash := h, st_LastSuccessfulSyncTime := t\<rparr>)"
  "ss_Status (site_ss n st) = st" "key_of (site_ss n st) = demo_req" "om_Name (ss_Meta (site_ss n st)) = ''s''"
  "om_Namespace (ss_Meta (site_ss n st)) = ''ns''" "spc_key demo_req (site_ss n st) = \<lparr>nn_Namespace = ''ns'', nn_Name = ''spc''\<rparr>"
  "condition_type (site_ss n st) = (if st_SyncHash st = [] then ConditionTypeCreate else ConditionTypeUpdate)"
  "validateLabelsAnnotations (sp_SecretObject (ss_Spec (site_ss n st))) = None"
  "Marshal_Secret site_env (secretPatchData (site_ss n st) (site_data c)) = Inr (site_patch c)"
  "om_Namespace (sec_Meta (secretPatchData (site_ss n st) d)) = ''ns''" "om_Name (sec_Meta (secretPatchData (site_ss n st) d)) = ''s''"
  "rv_of (site_ss n st) = site_version n"
  "(site_ss n st)\<lparr>ss_Meta := (ss_Meta (site_ss n st))\<lparr>om_ResourceVersion := site_version m\<rparr>\<rparr> = site_ss m st"
  by (simp_all add: site_ss_def set_conditions_def set_sync_def demo_ss_def condition_type_def key_of_def demo_req_def spc_key_def
      validateLabelsAnnotations_def nil_lookup_def demo_meta_def site_env_def secretPatchData_def site_patch_def rv_of_def)

lemma site_version_inj [simp]: "site_version n = site_version m \<longleftrightarrow> n = m"
  by (auto simp: site_version_def replicate_eq_replicate)

lemma site_next_version [simp]: "longest_version (site_objects hist) = length hist"
  by (induction hist) (auto simp: site_version_def)

lemma site_hash_eq: "computeCurrentStateHash demo_kdf (site_data c) demo_spc (site_ss n st) = Inr (site_hash c)"
  by (simp add: computeCurrentStateHash_def site_hash_def site_ss_def demo_ss_def toHash_def demo_meta_def)

lemma site_hash_nonempty [simp]: "site_hash c \<noteq> []"
  by (simp add: site_hash_def)

text \<open>What the site answers: a read from the cache or the store, and a status update with its version check.\<close>

lemma site_reads:
  "n = length (st # old) \<Longrightarrow> site_read demo_req (site_state c None (st # old) applied) = Inr (site_ss n st)"
  "n = length (st # old) \<Longrightarrow> site_read demo_req (site_state c (Some (site_ss n st)) (st' # st # old) applied) = Inr (site_ss n st)"
  by (simp_all add: site_read_def site_state_def site_cluster_def)

lemma site_updates:
  "site_update (site_ss n st) (site_state c cached (st0 # hist) applied) = (if n = Suc (length hist)
     then (Inr (site_ss (Suc n) st), site_state c cached (st # st0 # hist) applied)
     else (Inl (ExtError ''conflict'' False 2), site_state c cached (st0 # hist) applied))"
  by (auto simp: site_update_def site_state_def site_cluster_def Let_def) (simp_all add: site_version_def)

lemma site_env_simps:
  "SetStatusCondition site_env cs cond e = (demo_set cs cond, e)" "tokenEnv site_env = demo_tokens" "Status_Update site_env = site_update"
  "Client_GetSecretSync site_env k e = (site_read k e, e)" "pbkdf2_Key site_env = demo_kdf"
  "Client_GetSecretProviderClass site_env \<lparr>nn_Namespace = ''ns'', nn_Name = ''spc''\<rparr> (site_state c cached hist applied)
     = (Inr demo_spc, site_state c cached hist applied)"
  "Secrets_Patch site_env ''ns'' ''s'' data fm (site_state c cached hist applied) = (None, site_state c cached hist (Some data))"
  by (simp_all add: site_env_def site_state_def demo_req_def uid_ok_def demo_spc_def demo_meta_def)

lemma site_Reconcile:
  assumes "length (st_Conditions st) = 2" "site_read demo_req (site_state c cached hist applied) = Inr (site_ss n st)"
  shows "\<exists>tr'. run_state (Reconcile site_env demo_req) (demo_rc', site_world c cached hist applied tr)
     = (case run_state (write_back site_env (site_ss n st) (condition_type (site_ss n st)) (site_hash c) (site_data c))
          (demo_rc', site_world c cached hist applied tr') of (err, t) \<Rightarrow> (Ret err, t))"
proof -
  let ?s = "site_state c cached hist applied"
  let ?w = "site_world c cached hist applied (tr @ [GetSecretSync demo_req, GetSecretProviderClass (spc_key demo_req (site_ss n st))])"
  have content: "site_content (env_state ?w) = c" by (simp add: site_world_def site_state_def)
  from site_fetch [of n st ?w] obtain tr' where f: "run_state (fetchSecretsFromProvider site_env demo_spc (site_ss n st)) (demo_rc', ?w)
     = (Ret (Inr (site_data c)), (demo_rc', site_world c cached hist applied tr'))"
    unfolding content by (auto simp: site_world_def)
  have env: "Client_GetSecretSync site_env demo_req (env_state (site_world c cached hist applied tr)) = (Inr (site_ss n st), ?s)"
    "Client_GetSecretProviderClass site_env (spc_key demo_req (site_ss n st)) ?s = (Inr demo_spc, ?s)"
    by (simp_all add: site_env_simps site_world_def assms(2))
  have "computeCurrentStateHash (pbkdf2_Key site_env) (site_data c) demo_spc (site_ss n st) = Inr (site_hash c)"
    by (simp add: site_hash_eq site_env_simps)
  then show ?thesis using run_up_to_write [OF env(1) _ site_ss_simps(9) env(2)] f assms(1)
    by (intro exI [of _ tr']) (simp add: site_world_def)
qed

lemmas site_write_defs = write_back_def Let_def mark_synced_def updateStatusConditions_def set_condition_def run_simps
  demo_set_conds serverSidePatchSecret_def update_status_def demo_tokens_def site_world_def is_ok_def site_env_simps site_updates

text \<open>The first sync of the object, from the version it was created with: accepted if that is current, refused if not.\<close>

lemma site_create_type: "condition_type (site_ss n demo_inited) = ConditionTypeCreate"
  by (simp add: demo_inited_def demo_status0_def)

lemma site_create:
  assumes "hist = st0 # old" "n = length hist"
  shows "\<exists>tr'. run_state (write_back site_env (site_ss n demo_inited) (condition_type (site_ss n demo_inited)) (site_hash c) (site_data c))
      (p, site_world c cached hist applied tr) = (None, (p, site_world c cached (site_synced c # hist) (Some (site_patch c)) tr'))"
  using assms unfolding site_create_type
  by (intro exI) (simp add: site_write_defs demo_inited_def demo_status0_def site_synced_def)

lemma site_refuse:
  assumes "hist = st0 # old" "n \<noteq> length hist"
  shows "\<exists>tr'. run_state (write_back site_env (site_ss n demo_inited) (condition_type (site_ss n demo_inited)) (site_hash c) (site_data c))
      (p, site_world c cached hist applied tr)
    = (Some (ExtError ''conflict'' False 2), (p, site_world c cached hist (Some (site_patch c)) tr'))"
  using assms unfolding site_create_type
  by (intro exI) (simp add: site_write_defs demo_inited_def demo_status0_def)

lemma site_no_retry: "failedCondition (site_ss n (site_synced c)) = None"
  by (simp add: failedCondition_def site_synced_def demo_conds_def new_condition_def FailedConditionsTriggeringRetry_def reason_defs)

lemma site_idle:
  "\<exists>tr'. run_state (write_back site_env (site_ss n (site_synced c)) ct (site_hash c) (site_data c)) (p, site_world c cached hist applied tr)
   = (None, (p, site_world c cached hist applied tr'))"
  using site_no_retry [of n c] by (intro exI [of _ tr]) (simp add: write_back_def site_synced_def)

lemma site_conds: "length (st_Conditions demo_inited) = 2" "length (st_Conditions (site_synced c)) = 2"
  by (simp_all add: demo_inited_def site_synced_def demo_conds_def)

lemma site_writes:
  assumes "length (st_Conditions st) = 2" "site_read demo_req (site_state c cached hist applied) = Inr (site_ss n st)"
    and "\<And>tr. \<exists>tr'. run_state (write_back site_env (site_ss n st) (condition_type (site_ss n st)) (site_hash c) (site_data c))
        (demo_rc', site_world c cached hist applied tr) = (err, (demo_rc', site_world c cached hist' applied' tr'))"
  shows "\<exists>tr'. run_state (Reconcile site_env demo_req) (demo_rc', site_world c cached hist applied tr)
     = (Ret err, (demo_rc', site_world c cached hist' applied' tr'))"
proof -
  from site_Reconcile [OF assms(1,2)] obtain t where r: "run_state (Reconcile site_env demo_req) (demo_rc', site_world c cached hist applied tr)
     = (case run_state (write_back site_env (site_ss n st) (condition_type (site_ss n st)) (site_hash c) (site_data c))
          (demo_rc', site_world c cached hist applied t) of (err, t) \<Rightarrow> (Ret err, t))" by blast
  from assms(3) [of t] show ?thesis by (auto simp: r)
qed

lemma site_first_sync:
  "\<exists>tr'. run_state (Reconcile site_env demo_req) (demo_rc', site_world c None [demo_inited] applied tr)
   = (Ret None, (demo_rc', site_world c None [site_synced c, demo_inited] (Some (site_patch c)) tr'))"
  by (rule site_writes [OF site_conds(1) site_reads(1) site_create]) simp_all

lemma site_stale_read:
  "\<exists>tr'. run_state (Reconcile site_env demo_req) (demo_rc', site_world c (Some (site_ss 1 demo_inited)) [st, demo_inited] applied tr)
   = (Ret (Some (ExtError ''conflict'' False 2)),
      (demo_rc', site_world c (Some (site_ss 1 demo_inited)) [st, demo_inited] (Some (site_patch c)) tr'))"
  by (rule site_writes [OF site_conds(1) site_reads(2) site_refuse]) simp_all

lemma site_up_to_date:
  "\<exists>tr'. run_state (Reconcile site_env demo_req) (demo_rc', site_world c None (site_synced c # old) applied tr)
   = (Ret None, (demo_rc', site_world c None (site_synced c # old) applied tr'))"
  by (rule site_writes [OF site_conds(2) site_reads(1) site_idle]) simp_all

lemma site_data_ok: "fm_all (\<lambda>k _. valid_utf8 k) (site_data c)"
proof -
  have "valid_utf8 ''user''" by (rule is_ascii_valid) (simp add: is_ascii_def)
  then show ?thesis by (auto simp: site_data_def fm_all_iff fmpred_upd)
qed

lemma site_data_inj: "site_data c = site_data d \<longleftrightarrow> c = d"
proof
  assume "site_data c = site_data d"
  then have "fmlookup (site_data c) ''user'' = fmlookup (site_data d) ''user''" by simp
  then show "c = d" by (simp add: site_data_def)
qed simp

lemma site_patch_inj: "site_patch c = site_patch d \<longleftrightarrow> c = d"
  using json_b.object.split [of "site_data c" "site_data d" "[]" "[]"] site_data_ok
  by (auto simp: site_patch_def site_data_inj)

text \<open>
  C31: A refused status write can leave a stale Secret for good. A concrete site: the controller syncs
  content one; the content becomes two, and the next Reconcile reads the object from a cache that does not
  have the new status yet: the Secret is patched, and the write of the status is refused (a conflict); then
  the content is one again and the cache is up to date. The next Reconcile finds the old hash, reports
  success and writes nothing, while the Secret in the cluster still has content two.
\<close>

theorem stale_after_refused_status:
  "\<exists>t1 t2 t3.
     run_state (Reconcile site_env demo_req) (demo_rc', site_world ''one'' None [demo_inited] None [])
       = (Ret None, (demo_rc', site_world ''one'' None [site_synced ''one'', demo_inited] (Some (site_patch ''one'')) t1))
   \<and> run_state (Reconcile site_env demo_req)
         (demo_rc', site_world ''two'' (Some (site_ss 1 demo_inited)) [site_synced ''one'', demo_inited] (Some (site_patch ''one'')) t1)
       = (Ret (Some (ExtError ''conflict'' False 2)),
          (demo_rc', site_world ''two'' (Some (site_ss 1 demo_inited)) [site_synced ''one'', demo_inited] (Some (site_patch ''two'')) t2))
   \<and> run_state (Reconcile site_env demo_req) (demo_rc', site_world ''one'' None [site_synced ''one'', demo_inited] (Some (site_patch ''two'')) t2)
       = (Ret None, (demo_rc', site_world ''one'' None [site_synced ''one'', demo_inited] (Some (site_patch ''two'')) t3))
   \<and> site_patch ''two'' \<noteq> site_patch ''one''"
proof -
  let ?hist = "[site_synced ''one'', demo_inited]" and ?old = "Some (site_ss 1 demo_inited)"
  obtain t1 where 1: "run_state (Reconcile site_env demo_req) (demo_rc', site_world ''one'' None [demo_inited] None [])
     = (Ret None, (demo_rc', site_world ''one'' None ?hist (Some (site_patch ''one'')) t1))"
    using site_first_sync by blast
  obtain t2 where 2: "run_state (Reconcile site_env demo_req) (demo_rc', site_world ''two'' ?old ?hist (Some (site_patch ''one'')) t1)
     = (Ret (Some (ExtError ''conflict'' False 2)), (demo_rc', site_world ''two'' ?old ?hist (Some (site_patch ''two'')) t2))"
    using site_stale_read by blast
  obtain t3 where 3: "run_state (Reconcile site_env demo_req) (demo_rc', site_world ''one'' None ?hist (Some (site_patch ''two'')) t2)
     = (Ret None, (demo_rc', site_world ''one'' None ?hist (Some (site_patch ''two'')) t3))"
    using site_up_to_date by blast
  show ?thesis using 1 2 3 by (simp add: site_patch_inj) blast
qed

lemma site_admitted: "admitted (site_ss n st)"
proof -
  have "uid_ok ''u2''" "valid_utf8 ''user''" by (simp add: uid_ok_def) (rule is_ascii_valid, simp add: is_ascii_def)
  then show ?thesis by (simp add: admitted_def site_ss_def demo_ss_def demo_meta_def demo_entry_def target_def site_trim)
qed

lemma site_settled: "\<not> patched_status False tr \<Longrightarrow> settled k tr UNIV = UNIV"
  by (auto simp: settled_def)

text \<open>What a Reconcile of the object fetches and hashes.\<close>

lemma site_data_runs:
  assumes "length (st_Conditions st) = 2" "site_read demo_req (site_state c cached hist applied) = Inr (site_ss n st)"
  shows "fst (run_state (fetched_data site_env demo_req) (demo_rc', site_world c cached hist applied tr)) = Some (site_data c, demo_spc, site_ss n st)"
    "fst (run_state (hashed_state site_env demo_req) (demo_rc', site_world c cached hist applied tr)) = Some (site_data c, demo_spc, site_ss n st)"
proof -
  let ?w = "site_world c cached hist applied (tr @ [GetSecretSync demo_req, GetSecretProviderClass (spc_key demo_req (site_ss n st))])"
  have content: "site_content (env_state ?w) = c" by (simp add: site_world_def site_state_def)
  from site_fetch [of n st ?w] obtain t where f: "run_state (fetchSecretsFromProvider site_env demo_spc (site_ss n st)) (demo_rc', ?w)
     = (Ret (Inr (site_data c)), t)" unfolding content by blast
  note defs = fetched_data_def hashed_state_def hashed_class_def class_data_def run_simps site_world_def site_env_simps
  show "fst (run_state (fetched_data site_env demo_req) (demo_rc', site_world c cached hist applied tr)) = Some (site_data c, demo_spc, site_ss n st)"
    "fst (run_state (hashed_state site_env demo_req) (demo_rc', site_world c cached hist applied tr)) = Some (site_data c, demo_spc, site_ss n st)"
    using f assms by (simp_all add: defs)
qed

definition site_input :: "string \<Rightarrow> string \<times> string" where
  "site_input c = hash_input (site_data c) demo_spc (site_ss 0 demo_status0)"

lemma site_hash_input: "hash_input (site_data c) demo_spc (site_ss n st) = site_input c"
  by (simp add: site_input_def site_ss_def demo_ss_def hash_input_def toHash_def)

lemma site_hashes:
  assumes "length (st_Conditions st) = 2" "site_read demo_req (site_state c cached hist applied) = Inr (site_ss n st)"
  shows "hashes site_env demo_req (demo_rc', site_world c cached hist applied tr) = {site_input c}"
  using site_data_runs(2) [OF assms] by (simp add: hashes_def site_hash_input)

lemma site_reached:
  "\<exists>tr. reach (cluster_init site_cluster) (cluster_step site_env site_cluster)
     ({site_input ''one''}, UNIV, demo_rc', site_world ''one'' None [site_synced ''one'', demo_inited] (Some (site_patch ''one'')) tr)"
proof -
  let ?w = "site_world ''one'' None [demo_inited] None []"
  obtain tr where r: "run_state (Reconcile site_env demo_req) (demo_rc', ?w)
     = (Ret None, (demo_rc', site_world ''one'' None [site_synced ''one'', demo_inited] (Some (site_patch ''one'')) tr))"
    using site_first_sync by blast
  have "history_ok (site_cluster (env_state ?w))"
    using site_admitted [of 1 demo_inited] by (auto simp: history_ok_def site_world_def site_state_def known_def site_cluster_def)
  then have "cluster_init site_cluster ({}, UNIV, demo_rc', ?w)"
    by (auto simp: cluster_init_def site_world_def site_state_def site_cluster_def demo_inited_def demo_status0_def split: if_splits)
  moreover have "settled demo_req tr UNIV = UNIV" using site.success_not_lost [OF r] by (intro site_settled) (simp add: site_world_def)
  with cluster_step.reconcile [OF r, of tr site_cluster "{}" UNIV] site_hashes [OF site_conds(1) site_reads(1), of _ "[]" "''one''" None "[]"]
  have "cluster_step site_env site_cluster ({}, UNIV, demo_rc', ?w)
      ({site_input ''one''}, UNIV, demo_rc', site_world ''one'' None [site_synced ''one'', demo_inited] (Some (site_patch ''one'')) tr)"
    by (simp add: site_world_def)
  ultimately show ?thesis by (intro exI [of _ tr]) (rule reach_step [OF reach_init])
qed

theorem status_vouches_witness:
  "vouched site_env {site_input ''one''} (site_cluster (site_state ''one'' None [site_synced ''one'', demo_inited] (Some (site_patch ''one''))))
     (site_ss 2 (site_synced ''one''))"
proof -
  from site_reached obtain tr where r: "reach (cluster_init site_cluster) (cluster_step site_env site_cluster)
     ({site_input ''one''}, UNIV, demo_rc', site_world ''one'' None [site_synced ''one'', demo_inited] (Some (site_patch ''one'')) tr)" by blast
  from status_vouches [OF site.identifying_server_axioms r UNIV_I, of demo_req "site_ss 2 (site_synced ''one'')"] show ?thesis
    by (simp add: site_world_def site_state_def site_cluster_def numeral_2_eq_2)
qed

text \<open>The next Reconcile finds the hash, of a key of 32 bytes, unchanged and the Secret as fetched.\<close>

theorem Reconcile_in_sync_witness:
  "\<exists>p w p' w' u s datamap spc s1. run_state (Reconcile site_env demo_req) (p, w) = (Ret None, (p', w'))
     \<and> changes u (site_cluster (env_state w')) \<and> cl_syncs u demo_req = Some s
     \<and> fst (run_state (hashed_state site_env demo_req) (p, w)) = Some (datamap, spc, s1) \<and> applied_data site_env u s datamap
     \<and> length (derived_key (pbkdf2_Key site_env) (hash_input datamap spc s1)) = 32"
proof -
  let ?w = "site_world ''one'' None [site_synced ''one'', demo_inited] (Some (site_patch ''one''))"
  from site_reached obtain tr where r: "reach (cluster_init site_cluster) (cluster_step site_env site_cluster)
    ({site_input ''one''}, UNIV, demo_rc', ?w tr)" by blast
  obtain tr' where run: "run_state (Reconcile site_env demo_req) (demo_rc', ?w tr) = (Ret None, (demo_rc', ?w tr'))"
    using site_up_to_date by blast
  obtain calls where c: "trace (?w tr') = trace (?w tr) @ calls" using run_Reconcile [OF run] by blast
  let ?s = "site_ss 2 (site_synced ''one'')"
  have read: "Client_GetSecretSync site_env demo_req (env_state (?w tr)) = (Inr ?s, env_state (?w tr))"
    by (simp add: site_env_simps site_world_def site_reads(1) numeral_2_eq_2)
  have cur: "cl_syncs (site_cluster (env_state (?w tr))) demo_req = Some ?s"
    by (simp add: site_world_def site_state_def site_cluster_def numeral_2_eq_2)
  have inj: "inj_on (derived_key (pbkdf2_Key site_env)) ({site_input ''one''} \<union> hashes site_env demo_req (demo_rc', ?w tr))"
    using site_hashes [OF site_conds(2) site_reads(1) [of 2 _ "[demo_inited]"]] by simp
  have len: "length (derived_key (pbkdf2_Key site_env) x) = 32" for x by (simp add: site_env_simps derived_key_def demo_kdf_length split_beta)
  from Reconcile_in_sync [OF site.identifying_server_axioms r run c read _ inj] cur run len show ?thesis by blast
qed

end
