(* ===== verification/Progress.thy ===== *)
theory Progress
  imports Cluster
begin

text \<open>
  That the controller gets somewhere. \<open>Cluster\<close> shows what a Reconcile that succeeds has achieved; here
  it is shown to succeed when nothing is in its way: the API server has no faults of its own (locale
  \<open>available_server\<close>), the metadata of the object is allowed, and the provider delivers. Then the only thing
  that can stop a Reconcile is somebody else who has written the object meanwhile.
\<close>

section \<open>An API server without faults\<close>

text \<open>It accepts every patch of a Secret, and refuses a status update only when another version is stored.\<close>

locale available_server = identifying_server +
  assumes patch_available: "fst (Secrets_Patch E namespace name data fieldManager w) = None"
    and status_available: "Status_Update E s w = (Inl e, w')
      \<Longrightarrow> \<exists>v. changes (view w) v \<and> changes v (view w') \<and> map_option rv_of (cl_syncs v (key_of s)) \<noteq> Some (rv_of s)"

text \<open>A run was overtaken: it ends with a refused status update of a version that is not the stored one any more.\<close>

definition overtaken :: "('w \<Rightarrow> cluster) \<Rightarrow> NamespacedName \<Rightarrow> call list \<Rightarrow> 'w \<Rightarrow> bool" where
  "overtaken view req calls w \<longleftrightarrow> (\<exists>pre s. calls = pre @ [StatusUpdate s False] \<and> key_of s = req
     \<and> map_option rv_of (cl_syncs (view w) req) \<noteq> Some (rv_of s))"

lemma overtaken_suffix: "overtaken view req calls w \<Longrightarrow> overtaken view req (pre @ calls) w"
  unfolding overtaken_def by (metis append.assoc)

lemma patch_history:
  assumes "call_step (patch_call ss data ok) v v'" "history_ok v" "known v s"
  shows "history_ok v' \<and> known v' s"
proof (cases ok)
  case True
  with assms(1) obtain u where u: "changes v u" "changes (u\<lparr>cl_applied := (cl_applied u)(key_of ss \<mapsto> data)\<rparr>) v'" by (auto simp: step_patch)
  have "history_ok u" "known u s" by (rule changes_history [OF u(1) assms(2)], rule changes_known [OF u(1) assms(3)])
  with changes_history [OF u(2)] changes_known [OF u(2)] show ?thesis by simp
next
  case False
  with assms changes_history changes_known show ?thesis by auto
qed

context available_server
begin

lemma refused_overtaken:
  assumes "Status_Update E s w = (Inl e, w')" "history_ok (view w)" "known (view w) s0" "key_of s = key_of s0" "rv_of s = rv_of s0"
  shows "overtaken view (key_of s0) [StatusUpdate s False] w'"
proof -
  from status_available [OF assms(1)] obtain v where v: "changes (view w) v" "changes v (view w')"
    "map_option rv_of (cl_syncs v (key_of s0)) \<noteq> Some (rv_of s0)" using assms(4,5) by auto
  from stays_outdated [OF v(2) changes_history [OF v(1) assms(2)] changes_known [OF v(1) assms(3)] v(3)] assms(4,5)
  show ?thesis by (auto simp: overtaken_def)
qed

lemma mark_synced_changes:
  assumes "run_state (mark_synced E ss ct changed) (p, w) = (ss1, (p1, w1))"
  shows "changes (view (env_state w)) (view (env_state w1))"
proof (rule run_tracked [OF tracks_mark_synced assms])
  fix calls
  assume "trace w1 = trace w @ calls" "effects calls (view (env_state w)) (view (env_state w1))"
  with run_mark_synced [OF assms] show ?thesis by simp
qed

lemma patch_succeeds:
  assumes run: "run_state (serverSidePatchSecret E ss datamap) (p, w) = (err, (p', w'))"
    and "Marshal_Secret E (secretPatchData ss datamap) = Inr patch"
    and "history_ok (view (env_state w))" "known (view (env_state w)) s"
  shows "err = None \<and> history_ok (view (env_state w')) \<and> known (view (env_state w')) s"
proof (rule run_tracked [OF tracks_patch run])
  fix calls
  assume c: "trace w' = trace w @ calls" "effects calls (view (env_state w)) (view (env_state w'))"
  have "err = None" using run assms(2) patch_available by (auto simp: serverSidePatchSecret_def Let_def run_simps)
  moreover from this have "calls = [patch_call ss patch True]" using run_serverSidePatchSecret [OF run] assms(2) c(1) by simp
  with c(2) obtain u where u: "call_step (patch_call ss patch True) (view (env_state w)) u" "changes u (view (env_state w'))" by auto
  from patch_history [OF u(1) assms(3,4)] changes_history [OF u(2)] changes_known [OF u(2)]
  have "history_ok (view (env_state w')) \<and> known (view (env_state w')) s" by blast
  ultimately show ?thesis by blast
qed

lemma write_back_succeeds:
  assumes run: "run_state (write_back E ss ct h datamap) (p, w) = (err, (p', w'))" and c: "trace w' = trace w @ calls"
    and data: "Marshal_Secret E (secretPatchData ss datamap) = Inr patch"
    and ss: "history_ok (view (env_state w))" "known (view (env_state w)) ss"
  shows "err = None \<or> overtaken view (key_of ss) calls (env_state w')"
proof (cases "failedCondition ss = None \<and> h = st_SyncHash (ss_Status ss)")
  case True
  with run show ?thesis by (simp add: write_back_def)
next
  case False
  obtain ss1 p1 w1 where 1: "run_state (mark_synced E ss ct (h \<noteq> st_SyncHash (ss_Status ss))) (p, w) = (ss1, (p1, w1))"
    by (rule run_obtain)
  from run_mark_synced [OF 1] obtain cs where cs: "ss1 = set_conditions cs ss" "trace w1 = trace w" by blast
  obtain now e1 where now: "Now (tokenEnv E) (env_state w1) = (now, e1)" by fastforce
  let ?w1 = "w1\<lparr>env_state := e1\<rparr>" and ?ss2 = "set_sync h (Some now) ss1"
  obtain perr p2 w2 where 2: "run_state (serverSidePatchSecret E ?ss2 datamap) (p1, ?w1) = (perr, (p2, w2))"
    by (rule run_obtain)
  have "changes (view (env_state w)) (view e1)"
    using rtranclp_trans [OF mark_synced_changes [OF 1] tokens(1)] now by (metis snd_conv)
  note ss1 = changes_history [OF this ss(1)] changes_known [OF this ss(2)]
  have "Marshal_Secret E (secretPatchData ?ss2 datamap) = Inr patch" using data cs by simp
  from patch_succeeds [OF 2 this] ss1 have 3: "perr = None" "history_ok (view (env_state w2))" "known (view (env_state w2)) ss" by simp_all
  obtain u e where u: "Status_Update E ?ss2 (env_state w2) = (u, e)" by fastforce
  show ?thesis
  proof (cases u)
    case (Inl x)
    have "err = Some x" "env_state w' = e" "trace w' = trace w2 @ [StatusUpdate ?ss2 False]"
      using run False 1 2 3(1) now u Inl by (auto simp: write_back_def Let_def run_simps update_status_def)
    moreover obtain qs where "trace w2 = trace w @ qs" using run_serverSidePatchSecret [OF 2] cs(2) by (auto split: sum.splits)
    moreover have "overtaken view (key_of ss) [StatusUpdate ?ss2 False] e"
      by (rule refused_overtaken [OF u [unfolded Inl] 3(2,3)]) (simp_all add: cs)
    ultimately show ?thesis using c by (auto intro: overtaken_suffix)
  next
    case (Inr s)
    with run False 1 2 3(1) now u show ?thesis by (auto simp: write_back_def Let_def run_simps update_status_def)
  qed
qed

lemma reconcile_synced_succeeds:
  assumes run: "run_state (reconcile_synced E req ss ct) (p, w) = (r, (p', w'))" and c: "trace w' = trace w @ calls"
    and valid: "validateLabelsAnnotations (sp_SecretObject (ss_Spec ss)) = None"
    and data: "fst (run_state (class_data E req ss) (p, w)) = Some (datamap, spc, s1)"
    and patch: "Marshal_Secret E (secretPatchData ss datamap) = Inr patch"
    and ss: "history_ok (view (env_state w))" "known (view (env_state w)) ss"
  shows "r = Ret None \<or> overtaken view (key_of ss) calls (env_state w')"
  using run
proof (cases rule: synced_cases)
  case (stopped cs)
  with valid data show ?thesis by (simp add: hashed_class_def)
next
  case (written d c e q t h err qs files)
  have d: "d = datamap" using written(4) data by simp
  have v: "changes (view (env_state w)) (view (env_state t))" by (rule fetched_changes [OF written(2,3)])
  obtain ws where ws: "trace w' = trace t @ ws" using run_write_back [OF written(8)] by blast
  have "calls = qs @ ws" using c ws written(10) \<open>trace w' = trace w @ calls\<close> by simp
  with write_back_succeeds [OF written(8) ws _ changes_history [OF v ss(1)] changes_known [OF v ss(2)]] patch d written(9)
  show ?thesis by (auto intro: overtaken_suffix)
qed

lemma Reconcile_succeeds:
  assumes run: "run_state (Reconcile E req) (p, w) = (r, (p', w'))" and ok: "cluster_ok_on E H K (view (env_state w))"
    and c: "trace w' = trace w @ calls" and read: "fst (Client_GetSecretSync E req (env_state w)) = Inr ss"
    and valid: "validateLabelsAnnotations (sp_SecretObject (ss_Spec ss)) = None"
    and data: "fst (run_state (fetched_data E req) (p, w)) = Some (datamap, spc, s1)"
    and patch: "Marshal_Secret E (secretPatchData ss datamap) = Inr patch"
  shows "r = Ret None \<or> overtaken view req calls (env_state w')"
  using run ok
proof (cases rule: Reconcile_phases)
  case stopped
  from stopped(4) [OF read] obtain cs u e where u: "known (view u) ss" "key_of ss = req" "cluster_ok_on E H K (view u)"
    "trace w' = trace w @ [GetSecretSync req, StatusUpdate (set_conditions cs ss) False]"
    "Status_Update E (set_conditions cs ss) u = (Inl e, env_state w')" by blast
  have "overtaken view (key_of ss) [StatusUpdate (set_conditions cs ss) False] (env_state w')"
    by (rule refused_overtaken [OF u(5) cluster_ok_history [OF u(3)] u(1)]) simp_all
  from overtaken_suffix [OF this, of "[GetSecretSync req]"] c u(2,4) show ?thesis by simp
next
  case (ready s w1)
  from run_reconcile_synced [OF ready(7)] obtain cs where cs: "trace w' = trace w1 @ cs" by blast
  have s: "s = ss" using read ready(1) by simp
  have "calls = [GetSecretSync req] @ cs" using c cs ready(4) by simp
  moreover have "r = Ret None \<or> overtaken view (key_of s) cs (env_state w')"
    using valid data patch ready(8) s by (intro reconcile_synced_succeeds [OF ready(7) cs _ _ _ cluster_ok_history [OF ready(6)] ready(3)]) simp_all
  ultimately show ?thesis using ready(2) by (blast intro: overtaken_suffix)
next
  case (inited s cs ss' v w1)
  from run_reconcile_synced [OF inited(8)] obtain cs' where cs': "trace w' = trace w1 @ cs'" by blast
  have "stored_as (set_conditions cs ss) ss'" using inited(1,3) read by (simp add: accepts_def)
  note ss' = stored_as_simps(6,7) [OF this]
  have "calls = [GetSecretSync req, StatusUpdate (set_conditions cs s) True] @ cs'" using c cs' inited(6) by simp
  moreover have "r = Ret None \<or> overtaken view (key_of ss') cs' (env_state w')"
  proof (rule reconcile_synced_succeeds [OF inited(8) cs'])
    show "history_ok (view (env_state w1))" by (rule changes_history [OF inited(7) cluster_ok_history [OF inited(5)]])
    show "known (view (env_state w1)) ss'" by (rule changes_known [OF inited(7)]) simp
    show "fst (run_state (class_data E req ss') (p, w1)) = Some (datamap, spc, s1)" using inited(9) data by simp
  qed (use ss' valid patch in simp_all)
  ultimately show ?thesis using inited(4) by (blast intro: overtaken_suffix)
qed

end

text \<open>
  C2: A Reconcile gets there, or somebody else was faster. In every state that a cluster reaches, let the
  API server have no faults, the version of the object that is read be the current one, which has not lost the
  status write after its last patch (\<open>req \<in> K\<close>), its labels and annotations be allowed, what the provider
  delivers give Secret data that can be marshalled, and PBKDF2 have derived different keys from the different
  inputs that were hashed so far and now. Then Reconcile, of a new object or a known one, returns without error,
  and at a moment of the run the Secret in the cluster was the one of the data that was fetched; or its last
  call is a refused status update of a version that somebody else has replaced.
\<close>

theorem Reconcile_syncs:
  assumes "available_server E view" "reach (cluster_init view) (cluster_step E view) (H, K, p, w)"
    and "Client_GetSecretSync E req (env_state w) = (Inr ss, e)" "cl_syncs (view e) req = Some ss" "req \<in> K"
    and "validateLabelsAnnotations (sp_SecretObject (ss_Spec ss)) = None"
    and "fst (run_state (fetched_data E req) (p, w)) = Some (datamap, spc, s1)"
    and "Marshal_Secret E (secretPatchData ss datamap) = Inr patch"
    and "inj_on (derived_key (pbkdf2_Key E)) (H \<union> hashes E req (p, w))"
    and "run_state (Reconcile E req) (p, w) = (r, (p', w'))" "trace w' = trace w @ calls"
  shows "r = Ret None \<and> (\<exists>u. effects calls (view (env_state w)) u \<and> changes u (view (env_state w')) \<and> cl_applied u req = Some patch)
     \<or> overtaken view req calls (env_state w')"
proof (cases "overtaken view req calls (env_state w')")
  case False
  note server = available_server.axioms(1) [OF assms(1)]
  note ok = identifying_server.inv_reach [OF server assms(2)]
  have r: "r = Ret None"
    using available_server.Reconcile_succeeds [OF assms(1,10) ok assms(11) _ assms(6-8)] assms(3) False by simp
  from identifying_server.Reconcile_applies [OF server assms(10) [unfolded r] ok assms(11,3) _ assms(9)] assms(4,5,7)
  obtain u s where u: "effects calls (view (env_state w)) u" "changes u (view (env_state w'))" "key_of s = req"
    "secretPatchData s = secretPatchData ss" "applied_data E u s datamap" by auto
  with u assms(8) r show ?thesis by (auto simp: applied_data_def)
qed simp

section \<open>The concrete site has no faults\<close>

interpretation site: available_server site_env site_cluster
proof
  show "\<exists>v. changes (site_cluster w) v \<and> changes v (site_cluster w') \<and> map_option rv_of (cl_syncs v (key_of s)) \<noteq> Some (rv_of s)"
    if "Status_Update site_env s w = (Inl e, w')" for s w e w'
  proof -
    have u: "site_update s w = (Inl e, w')" using that by (simp add: site_env_simps)
    have "map_option rv_of (cl_syncs (site_cluster w) (key_of s)) \<noteq> Some (rv_of s)"
    proof
      assume "map_option rv_of (cl_syncs (site_cluster w) (key_of s)) = Some (rv_of s)"
      with u show False unfolding site_update_def by (simp only: if_True Let_def) simp
    qed
    moreover have "site_cluster w' = site_cluster w" using u by (auto simp: site_update_def Let_def split: if_splits)
    ultimately show ?thesis by auto
  qed
qed (simp add: site_env_def)

lemma site_other_content:
  assumes "cluster_ok_on E H K (site_cluster (site_state c None hist applied))"
  shows "outside_change (site_cluster (site_state c None hist applied)) (site_cluster (site_state d None hist applied))"
proof -
  have v: "site_cluster (site_state d None hist applied) = site_cluster (site_state c None hist applied)"
    by (simp add: site_cluster_def site_state_def)
  show ?thesis using cluster_ok_history [OF assms] older_refl unfolding v outside_change_def by (auto simp: map_le_def)
qed

text \<open>The keys of 32 bytes that are derived for the two contents differ.\<close>

lemma site_parts:
  "secret_part (site_data ''one'') = ''15:{'' @ [dq] @ ''user'' @ [dq, CHR '':'', dq] @ ''b25l'' @ [dq] @ ''}''"
  "secret_part (site_data ''two'') = ''15:{'' @ [dq] @ ''user'' @ [dq, CHR '':'', dq] @ ''dHdv'' @ [dq] @ ''}''"
  by code_simp+

lemma site_keys: "inj_on (derived_key demo_kdf) {site_input ''one'', site_input ''two''}"
  by (simp add: inj_on_def derived_key_def site_input_def hash_input_def site_parts demo_kdf_def)

text \<open>The content has changed from one to two: the Secret follows.\<close>

theorem Reconcile_syncs_witness:
  "\<exists>p w r p' w' calls. run_state (Reconcile site_env demo_req) (p, w) = (r, (p', w')) \<and> trace w' = trace w @ calls
     \<and> cl_applied (site_cluster (env_state w)) demo_req = Some (site_patch ''one'')
     \<and> (r = Ret None \<and> (\<exists>u. effects calls (site_cluster (env_state w)) u \<and> changes u (site_cluster (env_state w'))
            \<and> cl_applied u demo_req = Some (site_patch ''two''))
        \<or> overtaken site_cluster demo_req calls (env_state w'))"
proof -
  let ?hist = "[site_synced ''one'', demo_inited]" and ?ss = "site_ss 2 (site_synced ''one'')" and ?H = "{site_input ''one''}"
  let ?w = "\<lambda>c. site_world c None ?hist (Some (site_patch ''one''))"
  from site_reached obtain tr where 1: "reach (cluster_init site_cluster) (cluster_step site_env site_cluster) (?H, UNIV, demo_rc', ?w ''one'' tr)" by blast
  have "cluster_ok_on site_env ?H UNIV (site_cluster (site_state ''one'' None ?hist (Some (site_patch ''one''))))"
    using site.inv_reach [OF 1] by (simp add: site_world_def)
  from site_other_content [OF this, of "''two''"]
  have "cluster_step site_env site_cluster (?H, UNIV, demo_rc', ?w ''one'' tr) (?H, UNIV, demo_rc', ?w ''two'' tr)"
    using cluster_step.outside [of site_cluster "?w ''one'' tr" _ site_env ?H UNIV demo_rc'] by (simp add: site_world_def)
  with 1 have r: "reach (cluster_init site_cluster) (cluster_step site_env site_cluster) (?H, UNIV, demo_rc', ?w ''two'' tr)" by (rule reach_step)
  have sread: "site_read demo_req (site_state ''two'' None ?hist (Some (site_patch ''one''))) = Inr ?ss" by (simp add: site_reads(1) numeral_2_eq_2)
  have read: "Client_GetSecretSync site_env demo_req (env_state (?w ''two'' tr)) = (Inr ?ss, env_state (?w ''two'' tr))"
    by (simp add: site_env_simps site_world_def sread)
  have cur: "cl_syncs (site_cluster (env_state (?w ''two'' tr))) demo_req = Some ?ss"
    by (simp add: site_world_def site_state_def site_cluster_def numeral_2_eq_2)
  obtain a p' w' where run: "run_state (Reconcile site_env demo_req) (demo_rc', ?w ''two'' tr) = (a, (p', w'))" by (rule run_obtain)
  obtain calls where c: "trace w' = trace (?w ''two'' tr) @ calls" using run_Reconcile [OF run] by blast
  have inj: "inj_on (derived_key (pbkdf2_Key site_env)) (?H \<union> hashes site_env demo_req (demo_rc', ?w ''two'' tr))"
    using site_keys by (simp add: site_hashes [OF site_conds(2) sread] site_env_simps insert_commute)
  have "cl_applied (site_cluster (env_state (?w ''two'' tr))) demo_req = Some (site_patch ''one'')"
    by (simp add: site_world_def site_state_def)
  with Reconcile_syncs [OF site.available_server_axioms r read cur UNIV_I site_ss_simps(9) site_data_runs(1) [OF site_conds(2) sread] site_ss_simps(10) inj run c] run c
  show ?thesis by blast
qed

end
