(* ===== verification/Wire.thy ===== *)
theory Wire
  imports SyncProtocol
begin

text \<open>
  What a provider reads out of a Mount request. The controller writes the parameters as a JSON object,
  one of whose values is a JSON object of tokens written as a string. A reader for such objects (locale
  \<open>decoder\<close>) gets back what the controller has put in, on both levels.
\<close>

section \<open>Reading JSON objects\<close>

definition parse_string :: "string \<Rightarrow> (string \<times> string) option" where
  "parse_string s = (case s of [] \<Rightarrow> None | c # t \<Rightarrow> if c = dq then unquote t else None)"

text \<open>The members up to the closing brace, and what follows it. A reader of values that consumes nothing is stopped.\<close>

function parse_members :: "(string \<Rightarrow> ('v \<times> string) option) \<Rightarrow> string \<Rightarrow> ((string \<times> 'v) list \<times> string) option" where
  "parse_members val s = (case parse_string s of
      Some (k, CHR '':'' # t) \<Rightarrow> (case val t of
          Some (v, c # u) \<Rightarrow>
            if c = CHR 0x7D then Some ([(k, v)], u)
            else if c = CHR '','' \<and> length u < length s
              then map_option (\<lambda>(kvs, r). ((k, v) # kvs, r)) (parse_members val u)
            else None
        | _ \<Rightarrow> None)
    | _ \<Rightarrow> None)"
  by pat_completeness auto
termination
  by (relation "measure (\<lambda>(val, s). length s)") auto

declare parse_members.simps [simp del]

definition parse_object :: "(string \<Rightarrow> ('v \<times> string) option) \<Rightarrow> string \<Rightarrow> ((string \<times> 'v) list \<times> string) option" where
  "parse_object val s = (case s of
      c # d # t \<Rightarrow> if c = CHR 0x7B then (if d = CHR 0x7D then Some ([], t) else parse_members val (d # t)) else None
    | _ \<Rightarrow> None)"

text \<open>A reader of values: it finds what \<open>proj\<close> keeps of an encoded value, whatever follows.\<close>

locale decoder =
  fixes enc :: "'a \<Rightarrow> string"
    and dec :: "string \<Rightarrow> ('v \<times> string) option"
    and proj :: "'a \<Rightarrow> 'v"
    and ok :: "'a \<Rightarrow> bool"
  assumes dec_enc: "ok v \<Longrightarrow> dec (enc v @ r) = Some (proj v, r)"

lemma parse_json_string: "valid_utf8 s \<Longrightarrow> parse_string (json_string s @ r) = Some (s, r)"
  using unquote_json_string [of s r] by (simp add: parse_string_def json_string_def)

interpretation strings: decoder json_string parse_string "\<lambda>s. s" valid_utf8
  by unfold_locales (rule parse_json_string)

context decoder
begin

lemma parse_member:
  assumes "valid_utf8 k" "ok v"
  shows "parse_members dec (json_entry enc (k, v) @ c # u) =
     (if c = CHR 0x7D then Some ([(k, proj v)], u)
      else if c = CHR '','' then map_option (\<lambda>(kvs, r). ((k, proj v) # kvs, r)) (parse_members dec u) else None)"
proof -
  have "length u < length (json_entry enc (k, v) @ c # u)" by simp
  then show ?thesis
    using assms by (subst parse_members.simps) (simp add: json_entry_def parse_json_string dec_enc)
qed

lemma parse_members_Join:
  "kvs \<noteq> [] \<Longrightarrow> list_all (\<lambda>(k, v). valid_utf8 k \<and> ok v) kvs
   \<Longrightarrow> parse_members dec (Join '','' (map (json_entry enc) kvs) @ CHR 0x7D # r) = Some (map (apsnd proj) kvs, r)"
proof (induction kvs rule: induct_list012)
  case (2 kv)
  then show ?case by (cases kv) (simp add: parse_member)
next
  case (3 kv kv' kvs)
  then show ?case by (cases kv) (simp add: parse_member)
qed simp

lemma parse_json_map:
  assumes "fm_all (\<lambda>k v. valid_utf8 k \<and> ok v) m"
  shows "parse_object dec (json_map enc m @ r) = Some (map (apsnd proj) (sorted_list_of_fmap m), r)"
proof (cases "sorted_list_of_fmap m")
  case Nil
  then show ?thesis by (simp add: json_map_def parse_object_def)
next
  case (Cons kv kvs)
  then obtain t where t: "Join '','' (map (json_entry enc) (sorted_list_of_fmap m)) = dq # t"
    by (cases kvs) (auto simp: json_entry_def json_string_def)
  have "parse_members dec (dq # t @ CHR 0x7D # r) = Some (map (apsnd proj) (sorted_list_of_fmap m), r)"
    using parse_members_Join [of "sorted_list_of_fmap m" r] Cons assms t by (simp add: fm_all_def)
  then show ?thesis by (simp add: json_map_def parse_object_def t)
qed

end

section \<open>Marshalled strings are text\<close>

lemma rune_len_prefix:
  "rune_len [a] = 1 \<Longrightarrow> rune_len (a # u) = 1"
  "rune_len [a, b] = 2 \<Longrightarrow> rune_len (a # b # u) = 2"
  "rune_len [a, b, c] = 3 \<Longrightarrow> rune_len (a # b # c # u) = 3"
  "rune_len [a, b, c, d] = 4 \<Longrightarrow> rune_len (a # b # c # d # u) = 4"
  by (simp_all add: rune_len.simps(2) split del: if_split split: if_split_asm)

lemma rune_len_append:
  assumes "rune_len (c # s) \<noteq> 0"
  shows "rune_len (c # s @ t) = rune_len (c # s)"
  using assms
proof (cases rule: rune_len_cases)
  case ascii
  with rune_len_prefix(1) [of c "s @ t"] show ?thesis by simp
next
  case (two b u)
  with rune_len_prefix(2) [of c b "u @ t"] show ?thesis by simp
next
  case (three b d u)
  with rune_len_prefix(3) [of c b d "u @ t"] show ?thesis by simp
next
  case (four b d e u)
  with rune_len_prefix(4) [of c b d e "u @ t"] show ?thesis by simp
qed

lemma rune_len_le: "rune_len (c # s) - 1 \<le> length s"
proof (cases "rune_len (c # s) = 0")
  case False
  then show ?thesis by (rule rune_len_cases) simp_all
qed simp

lemma valid_utf8_append: "valid_utf8 s \<Longrightarrow> valid_utf8 t \<Longrightarrow> valid_utf8 (s @ t)"
proof (induction s rule: valid_utf8.induct)
  case (2 c s)
  then show ?case using rune_len_le [of c s] by (simp add: valid_utf8.simps rune_len_append)
qed simp

lemma valid_rune_utf8: "valid_rune p \<Longrightarrow> valid_utf8 p"
  by (cases p) (simp_all add: valid_rune_def valid_utf8.simps)

lemma json_rune_utf8:
  assumes "valid_rune p"
  shows "valid_utf8 (json_rune p)"
proof -
  have "list_all (\<lambda>n. of_char (hex_digit n) < (0x80 :: nat)) [0..<16]" by code_simp
  then have "of_char (hex_digit n) < (0x80 :: nat)" if "n < 16" for n using that by (auto simp: list_all_iff)
  then have hex: "is_ascii (hex4 r)" for r by (simp add: is_ascii_def hex4_def)
  have p: "valid_utf8 p" by (rule valid_rune_utf8 [OF assms])
  have "valid_utf8 [bsl]" by (rule is_ascii_valid) (simp add: is_ascii_def)
  then have "valid_utf8 (bsl # p)" using valid_utf8_append [of "[bsl]" p] p by simp
  then show ?thesis
    using p hex by (auto simp: json_rune_def Let_def is_ascii_def intro!: is_ascii_valid)
qed

lemma esc_body_utf8:
  assumes "\<And>p. valid_rune p \<Longrightarrow> valid_utf8 (f p)" "\<And>c. valid_utf8 (g c)"
  shows "valid_utf8 (esc_body f g s)"
  using assms
proof (induction f g s rule: esc_body.induct)
  case (2 f g c s)
  then show ?case
    using rune_len_take [of c s] by (cases "rune_len (c # s) = 0") (simp_all add: esc_body.simps valid_utf8_append)
qed simp

lemma json_string_utf8: "valid_utf8 (json_string s)"
proof -
  have q: "valid_utf8 [dq]" "valid_utf8 (json_bad c)" for c by (rule is_ascii_valid; simp add: is_ascii_def json_bad_def)+
  have "valid_utf8 (esc_body json_rune json_bad s)" by (rule esc_body_utf8 [OF json_rune_utf8 q(2)])
  from valid_utf8_append [OF q(1) valid_utf8_append [OF this q(1)]] show ?thesis by (simp add: json_string_def)
qed

lemma Join_utf8: "valid_utf8 sep \<Longrightarrow> list_all valid_utf8 xs \<Longrightarrow> valid_utf8 (Join sep xs)"
  by (induction sep xs rule: Join.induct) (simp_all add: valid_utf8_append)

lemma json_map_utf8:
  assumes "fm_all (\<lambda>k v. valid_utf8 (enc v)) m"
  shows "valid_utf8 (json_map enc m)"
proof -
  have a: "valid_utf8 [CHR 0x7B]" "valid_utf8 [CHR 0x7D]" "valid_utf8 '',''" "valid_utf8 '':''"
    by (rule is_ascii_valid; simp add: is_ascii_def)+
  have "valid_utf8 (json_entry enc (k, v))" if "valid_utf8 (enc v)" for k v
    using valid_utf8_append [OF json_string_utf8 [of k] valid_utf8_append [OF a(4) that]] by (simp add: json_entry_def)
  then have "list_all valid_utf8 (map (json_entry enc) (sorted_list_of_fmap m))"
    using assms by (auto simp: fm_all_def list_all_iff)
  from valid_utf8_append [OF a(1) valid_utf8_append [OF Join_utf8 [OF a(3) this] a(2)]] show ?thesis by (simp add: json_map_def)
qed

section \<open>Reading tokens\<close>

definition strip_prefix :: "string \<Rightarrow> string \<Rightarrow> string option" where
  "strip_prefix p s = (if take (length p) s = p then Some (drop (length p) s) else None)"

lemma strip_append [simp]: "strip_prefix p (p @ s) = Some s"
  by (simp add: strip_prefix_def)

text \<open>The token of a marshalled TokenRequestStatus; the time after it is skipped.\<close>

definition token_head :: string where
  "token_head = CHR 0x7B # json_string ''token'' @ '':''"

definition time_head :: string where
  "time_head = '','' @ json_string ''expirationTimestamp'' @ '':''"

definition parse_status :: "string \<Rightarrow> (string \<times> string) option" where
  "parse_status s = do {
     t \<leftarrow> strip_prefix token_head s;
     (token, u) \<leftarrow> parse_string t;
     v \<leftarrow> strip_prefix time_head u;
     (case dropWhile (\<lambda>c. c \<noteq> CHR 0x7D) v of [] \<Rightarrow> None | _ # r \<Rightarrow> Some (token, r))
   }"

text \<open>What the code relies on of marshalled times: text without a closing brace (a quoted RFC 3339 time, or null).\<close>

definition times_are_text :: "'w token_env \<Rightarrow> bool" where
  "times_are_text E \<longleftrightarrow> (\<forall>t s. Time_MarshalJSON E t = Inr s \<longrightarrow> valid_utf8 s \<and> CHR 0x7D \<notin> set s)"

lemma json_status_eq:
  "json_status E st = token_head @ json_string (tst_Token st) @ time_head @ json_time E (tst_ExpirationTimestamp st) @ [CHR 0x7D]"
  by (simp add: json_status_def token_head_def time_head_def)

lemma json_time_text:
  assumes "times_are_text E"
  shows "valid_utf8 (json_time E t)" "CHR 0x7D \<notin> set (json_time E t)"
  using assms by (auto simp: json_time_def times_are_text_def split: sum.splits)

lemma statuses_decode:
  assumes "times_are_text E"
  shows "decoder (json_status E) parse_status tst_Token (\<lambda>st. valid_utf8 (tst_Token st))"
proof
  fix st :: TokenRequestStatus and r
  assume v: "valid_utf8 (tst_Token st)"
  have "dropWhile (\<lambda>c. c \<noteq> CHR 0x7D) (json_time E t @ CHR 0x7D # r) = CHR 0x7D # r" for t
    using json_time_text(2) [OF assms, of t] by (subst dropWhile_append2) auto
  then show "parse_status (json_status E st @ r) = Some (tst_Token st, r)"
    using v by (simp add: parse_status_def json_status_eq parse_json_string)
qed

lemma json_status_utf8:
  assumes "times_are_text E"
  shows "valid_utf8 (json_status E st)"
proof -
  have a: "valid_utf8 [CHR 0x7B]" "valid_utf8 [CHR 0x7D]" "valid_utf8 '',''" "valid_utf8 '':''"
    by (rule is_ascii_valid; simp add: is_ascii_def)+
  have "valid_utf8 token_head"
    using valid_utf8_append [OF a(1) valid_utf8_append [OF json_string_utf8 a(4)]] by (simp add: token_head_def)
  moreover have "valid_utf8 time_head"
    using valid_utf8_append [OF a(3) valid_utf8_append [OF json_string_utf8 a(4)]] by (simp add: time_head_def)
  ultimately show ?thesis
    unfolding json_status_eq using json_time_text(1) [OF assms] json_string_utf8 a(2) by (intro valid_utf8_append)
qed

section \<open>The parameters of a Mount request\<close>

lemma map_of_decoded: "map_of (map (apsnd f) (sorted_list_of_fmap m)) k = map_option f (fmlookup m k)"
proof -
  have "map_of (map (apsnd f) xs) k = map_option f (map_of xs k)" for xs
    by (induction xs) auto
  then show ?thesis by (simp add: map_of_sorted_list)
qed

lemma sorted_fmap_keys:
  "distinct (map fst (sorted_list_of_fmap m))" "set (map fst (sorted_list_of_fmap m)) = fset (fmdom m)"
  by (simp_all add: sorted_list_of_fmap_def comp_def sorted_list_of_fset.rep_eq)

text \<open>Every value that goes into the parameters is text.\<close>

definition parameters_are_text :: "('w, 'z) controller_env_scheme \<Rightarrow> SecretProviderClass \<Rightarrow> string \<Rightarrow> string \<Rightarrow> bool" where
  "parameters_are_text E spc namespace sa \<longleftrightarrow> times_are_text (tokenEnv E)
     \<and> list_all valid_utf8 [Getenv E syncControllerPodName, Getenv E syncControllerPodUID, namespace, sa]
     \<and> (case spc_Parameters spc of None \<Rightarrow> True | Some m \<Rightarrow> fm_all (\<lambda>k v. valid_utf8 k \<and> valid_utf8 v) m)"

definition tokens_are_text :: "call list \<Rightarrow> bool" where
  "tokens_are_text calls \<longleftrightarrow> (\<forall>c \<in> set calls. case c of CreateToken _ _ _ (Some t) \<Rightarrow> valid_utf8 (tst_Token (tr_Status t)) | _ \<Rightarrow> True)"

lemma attribute_keys_utf8:
  "valid_utf8 csiPodName" "valid_utf8 csiPodUID" "valid_utf8 csiPodNamespace" "valid_utf8 csiPodServiceAccountName" "valid_utf8 tokensKey"
  by (rule is_ascii_valid; simp add: is_ascii_def csiPodName_def csiPodUID_def csiPodNamespace_def csiPodServiceAccountName_def tokensKey_def)+

lemma attribute_keys_neq:
  "csiPodUID \<noteq> csiPodName" "csiPodNamespace \<noteq> csiPodName" "csiPodNamespace \<noteq> csiPodUID"
  "csiPodServiceAccountName \<noteq> csiPodName" "csiPodServiceAccountName \<noteq> csiPodUID" "csiPodServiceAccountName \<noteq> csiPodNamespace"
  "csiPodServiceAccountTokens \<noteq> csiPodName" "csiPodServiceAccountTokens \<noteq> csiPodUID"
  "csiPodServiceAccountTokens \<noteq> csiPodNamespace" "csiPodServiceAccountTokens \<noteq> csiPodServiceAccountName"
  by (simp_all add: csiPodName_def csiPodUID_def csiPodNamespace_def csiPodServiceAccountName_def csiPodServiceAccountTokens_def)

lemma tokensKey_is: "tokensKey = csiPodServiceAccountTokens"
  by (simp add: tokensKey_def csiPodServiceAccountTokens_def)

lemma decode_parameters:
  assumes "provider_parameters E spc namespace sa attrs = Ret params" "parameters_are_text E spc namespace sa"
    and "attrs = None \<or> (\<exists>tokens. attrs = Some (fmupd tokensKey tokens fmempty) \<and> valid_utf8 tokens)"
  shows "parse_object parse_string (json_map json_string params @ r) = Some (sorted_list_of_fmap params, r)"
proof -
  have "fm_all (\<lambda>k v. valid_utf8 k \<and> valid_utf8 v) params"
    using assms attribute_keys_utf8
    by (auto simp: provider_parameters_def map_assign_def Let_def parameters_are_text_def fm_all_iff
        split: option.splits intro!: fmpred_upd)
  from strings.parse_json_map [OF this, of r] show ?thesis by (simp add: apsnd_def map_prod_def)
qed

text \<open>The tokens that were put in, by audience, as read by the provider.\<close>

definition reads_tokens :: "call list \<Rightarrow> string \<Rightarrow> string \<Rightarrow> string list \<Rightarrow> string \<Rightarrow> bool" where
  "reads_tokens calls namespace sa audiences tokensJSON \<longleftrightarrow> (\<exists>ts. parse_object parse_status tokensJSON = Some (ts, [])
     \<and> set (map fst ts) = set audiences \<and> distinct (map fst ts)
     \<and> list_all (\<lambda>(aud, token). \<exists>st. token = tst_Token st \<and> issued_for calls namespace sa aud st) ts)"

lemma decode_tokens:
  assumes "times_are_text E" "tokens_are_text calls" "list_all valid_utf8 audiences"
    and "fset (fmdom outputs) = set audiences" "fm_all (issued_for calls namespace sa) outputs"
  shows "reads_tokens calls namespace sa audiences (json_map (json_status E) outputs)"
proof -
  have "valid_utf8 (tst_Token st)" if "issued_for calls namespace sa aud st" for aud st
    using that assms(2) by (force simp: issued_for_def tokens_are_text_def)
  then have "fm_all (\<lambda>k v. valid_utf8 k \<and> valid_utf8 (tst_Token v)) outputs"
    using assms(3-5) by (auto simp: fm_all_iff fmpred_iff list_all_iff dest: fmdomI) blast+
  note d = decoder.parse_json_map [OF statuses_decode [OF assms(1)] this, of "[]"]
  have keys: "map fst (map (apsnd tst_Token) (sorted_list_of_fmap outputs)) = map fst (sorted_list_of_fmap outputs)" by simp
  have "list_all (\<lambda>(aud, token). \<exists>st. token = tst_Token st \<and> issued_for calls namespace sa aud st)
      (map (apsnd tst_Token) (sorted_list_of_fmap outputs))"
    using assms(5) by (fastforce simp: fm_all_def list_all_iff)
  with d show ?thesis
    unfolding reads_tokens_def using sorted_fmap_keys [of outputs] assms(4) by (intro exI conjI) (simp_all only: keys append_Nil2)
qed

text \<open>
  C12: The provider gets what the controller means. Whenever prepareCSIProviderParams returns parameters,
  a JSON reader finds in them, under every key exactly once, the pod and account attributes of the
  controller and its SecretSync, whatever the class says there, and otherwise the parameters of the
  class; and with audiences the token attribute is itself a JSON object, in which the reader finds for
  every audience a token that the API server issued to this account for this audience. All strings are
  valid UTF-8, as the API server guarantees.
\<close>

theorem provider_reads_parameters:
  assumes "run_state (prepareCSIProviderParams E spc namespace sa) (p, w) = (Ret (Inr paramsJSON), (p', w'))"
    and "cache_ok (isPrint (tokenEnv E)) (rc_TokenCache p) (trace w)"
    and "parameters_are_text E spc namespace sa" "tokens_are_text (trace w')" "list_all valid_utf8 (rc_Audiences p)"
  shows "\<exists>es. parse_object parse_string paramsJSON = Some (es, []) \<and> distinct (map fst es)
     \<and> map_of es csiPodName = Some (Getenv E syncControllerPodName) \<and> map_of es csiPodUID = Some (Getenv E syncControllerPodUID)
     \<and> map_of es csiPodNamespace = Some namespace \<and> map_of es csiPodServiceAccountName = Some sa
     \<and> (if rc_Audiences p = [] then map_of es csiPodServiceAccountTokens = nil_lookup (spc_Parameters spc) csiPodServiceAccountTokens
        else \<exists>tokensJSON. map_of es csiPodServiceAccountTokens = Some tokensJSON
          \<and> reads_tokens (trace w') namespace sa (rc_Audiences p) tokensJSON)
     \<and> (\<forall>k. k \<in> {csiPodName, csiPodUID, csiPodNamespace, csiPodServiceAccountName, csiPodServiceAccountTokens}
          \<or> map_of es k = nil_lookup (spc_Parameters spc) k)"
proof -
  obtain a m' w1 where a: "run_state (SecretProviderServiceAccountTokenAttrs (tokenEnv E) namespace sa (rc_Audiences p))
      (rc_TokenCache p, w) = (a, (m', w1))" by (rule run_obtain)
  with assms(1) obtain attrs params where w': "w' = w1" and attrs: "a = Inr attrs" and json: "paramsJSON = json_map json_string params"
    and params: "provider_parameters E spc namespace sa attrs = Ret params"
    by (auto simp: prepareCSIProviderParams_def run_simps split: sum.splits go.splits)
  note toks = run_TokenAttrs [OF assms(2) a, unfolded attrs sum.case]
  have times: "times_are_text (tokenEnv E)" using assms(3) by (simp add: parameters_are_text_def)
  have "valid_utf8 (json_map (json_status (tokenEnv E)) outputs)" for outputs
    by (rule json_map_utf8) (simp add: fm_all_iff fmpred_iff json_status_utf8 [OF times])
  then have shape: "attrs = None \<or> (\<exists>tokens. attrs = Some (fmupd tokensKey tokens fmempty) \<and> valid_utf8 tokens)"
    using toks by (cases "rc_Audiences p = []") auto
  have "attrs = None \<or> (\<exists>tokens. attrs = Some (fmupd tokensKey tokens fmempty))" using shape by blast
  note look = provider_parameters_lookup [OF params this]
  obtain m where m: "spc_Parameters spc = Some m"
    using params by (auto simp: provider_parameters_def map_assign_def split: option.splits)
  let ?es = "sorted_list_of_fmap params"
  note keys = attribute_keys_neq attribute_keys_neq [symmetric]
  have tokens: "if rc_Audiences p = [] then map_of ?es csiPodServiceAccountTokens = nil_lookup (spc_Parameters spc) csiPodServiceAccountTokens
      else \<exists>tokensJSON. map_of ?es csiPodServiceAccountTokens = Some tokensJSON
        \<and> reads_tokens (trace w') namespace sa (rc_Audiences p) tokensJSON"
    using toks decode_tokens [OF times assms(4,5)] m
    by (cases "rc_Audiences p = []") (auto simp: look keys nil_lookup_def w' tokensKey_is)
  have rest: "map_of ?es csiPodName = Some (Getenv E syncControllerPodName)" "map_of ?es csiPodUID = Some (Getenv E syncControllerPodUID)"
    "map_of ?es csiPodNamespace = Some namespace" "map_of ?es csiPodServiceAccountName = Some sa"
    "\<forall>k. k \<in> {csiPodName, csiPodUID, csiPodNamespace, csiPodServiceAccountName, csiPodServiceAccountTokens}
      \<or> map_of ?es k = nil_lookup (spc_Parameters spc) k"
    using m by (simp_all add: look keys nil_lookup_def)
  from decode_parameters [OF params assms(3) shape, of "[]"] have "parse_object parse_string paramsJSON = Some (?es, [])" by (simp add: json)
  with tokens rest sorted_fmap_keys(1) [of params] show ?thesis by blast
qed

text \<open>One audience, a class that tries to name another namespace.\<close>

definition wire_token :: call where
  "wire_token = CreateToken ''ns'' ''sa'' (audience_request ''a'') (Some (demo_token ''sa'' (audience_request ''a'')))"

lemma wire_attrs:
  "\<exists>attrs m'. run_state (SecretProviderServiceAccountTokenAttrs demo_tokens ''ns'' ''sa'' [''a'']) (NewManager True, demo_w0)
     = (Inr attrs, (m', demo_w0\<lparr>trace := [wire_token]\<rparr>))"
  by (simp add: SecretProviderServiceAccountTokenAttrs_def GetServiceAccountToken_def Manager_get_def Manager_set_def
      getToken_def run_simps Let_def NewManager_def demo_tokens_def demo_token_def fm_all_iff fmpred_iff wire_token_def)

theorem provider_reads_parameters_witness:
  "\<exists>json es tokensJSON. fst (run_state (prepareCSIProviderParams (demo_env demo_synced None None)
        (demo_spc\<lparr>spc_Parameters := Some (fmupd csiPodNamespace ''evil'' fmempty)\<rparr>) ''ns'' ''sa'') (demo_rc\<lparr>rc_Audiences := [''a'']\<rparr>, demo_w0)) = Ret (Inr json)
     \<and> parse_object parse_string json = Some (es, []) \<and> map_of es csiPodNamespace = Some ''ns''
     \<and> map_of es csiPodServiceAccountTokens = Some tokensJSON \<and> reads_tokens [wire_token] ''ns'' ''sa'' [''a''] tokensJSON"
proof -
  let ?E = "demo_env demo_synced None None" and ?p = "demo_rc\<lparr>rc_Audiences := [''a'']\<rparr>"
  let ?spc = "demo_spc\<lparr>spc_Parameters := Some (fmupd csiPodNamespace ''evil'' fmempty)\<rparr>"
  have env: "tokenEnv ?E = demo_tokens" "rc_TokenCache ?p = NewManager True" "rc_Audiences ?p = [''a'']" "Getenv ?E n = n" for n
    by (simp_all add: demo_env_def demo_rc_def)
  obtain attrs m' where "run_state (SecretProviderServiceAccountTokenAttrs demo_tokens ''ns'' ''sa'' [''a'']) (NewManager True, demo_w0)
     = (Inr attrs, (m', demo_w0\<lparr>trace := [wire_token]\<rparr>))" using wire_attrs by blast
  then obtain json p' where run: "run_state (prepareCSIProviderParams ?E ?spc ''ns'' ''sa'') (?p, demo_w0)
      = (Ret (Inr json), (p', demo_w0\<lparr>trace := [wire_token]\<rparr>))"
    by (simp add: prepareCSIProviderParams_def run_simps env provider_parameters_def map_assign_def Let_def)
  have utf8: "valid_utf8 ''0''" "valid_utf8 ''ns''" "valid_utf8 ''sa''" "valid_utf8 ''a''" "valid_utf8 ''evil''"
    "valid_utf8 syncControllerPodName" "valid_utf8 syncControllerPodUID"
    by (rule is_ascii_valid; simp add: is_ascii_def syncControllerPodName_def syncControllerPodUID_def)+
  have "parameters_are_text ?E ?spc ''ns'' ''sa''"
    using utf8 attribute_keys_utf8 by (simp add: parameters_are_text_def env times_are_text_def fm_all_iff fmpred_iff) (simp add: demo_tokens_def)
  moreover have "tokens_are_text (trace (demo_w0\<lparr>trace := [wire_token]\<rparr>))"
    using utf8 by (simp add: tokens_are_text_def wire_token_def demo_token_def)
  moreover have "cache_ok (isPrint (tokenEnv ?E)) (rc_TokenCache ?p) (trace demo_w0)" unfolding env by (rule cache_ok_NewManager)
  ultimately show ?thesis
    using provider_reads_parameters [OF run] run utf8(4) by (auto simp: env)
qed

end
