(* ===== verification/DeepCopy.thy ===== *)
theory DeepCopy
  imports SyncProtocol
begin

text \<open>
  \<^verbatim>\<open>api/v1alpha1/zz_generated.deepcopy.go\<close> over an explicit store, because maps, slices and times are
  shared by reference: the copies have the same value and share no cell with the original. With it,
  the label update of serverSidePatchSecret is shown to leave the object that was copied alone and to
  compute the labels of the value-level model. The copiers of the library types (ObjectMeta,
  ListMeta, Condition, Time) are parameters, with the contract of a deep copy as the locale \<open>deep_copier\<close>.
\<close>

section \<open>The store\<close>

type_synonym addr = nat

record SecretObjectP =
  pso_Type :: string
  pso_Data :: "addr option"
  pso_Labels :: "addr option"
  pso_Annotations :: "addr option"

record SecretSyncSpecP =
  psp_SecretSyncControllerName :: string
  psp_SecretProviderClassName :: string
  psp_ServiceAccountName :: string
  psp_SecretObject :: SecretObjectP
  psp_ForceSynchronization :: string

record SecretSyncStatusP =
  pst_SyncHash :: string
  pst_LastSuccessfulSyncTime :: "addr option"
  pst_Conditions :: "addr option"

record 'm SecretSyncP =
  pss_TypeMeta :: TypeMeta
  pss_Meta :: 'm
  pss_Spec :: SecretSyncSpecP
  pss_Status :: SecretSyncStatusP

datatype cell =
    CMap "string gomap"
  | CData "SecretObjectData list"
  | CConds "Condition list"
  | CTime time

record heap =
  hp_cells :: "(addr, cell) fmap"
  hp_next :: addr

definition heap_ok :: "heap \<Rightarrow> bool" where
  "heap_ok h \<longleftrightarrow> fmpred (\<lambda>a _. a < hp_next h) (hp_cells h)"

definition allocated :: "heap \<Rightarrow> addr set" where
  "allocated h = {a. fmlookup (hp_cells h) a \<noteq> None}"

definition alloc :: "cell \<Rightarrow> heap \<Rightarrow> addr \<times> heap" where
  "alloc c h = (hp_next h, h\<lparr>hp_cells := fmupd (hp_next h) c (hp_cells h), hp_next := hp_next h + 1\<rparr>)"

definition store :: "addr \<Rightarrow> cell \<Rightarrow> heap \<Rightarrow> heap" where
  "store a c h = h\<lparr>hp_cells := fmupd a c (hp_cells h)\<rparr>"

text \<open>Reading through a pointer; nil maps and slices read as their zero value.\<close>

definition load :: "addr option \<Rightarrow> heap \<Rightarrow> cell option" where
  "load p h = (case p of None \<Rightarrow> None | Some a \<Rightarrow> fmlookup (hp_cells h) a)"

section \<open>Generated copies\<close>

text \<open>
  \<^verbatim>\<open>make\<close> and a loop over the entries, in any order; \<^verbatim>\<open>make\<close> and \<^verbatim>\<open>copy\<close>; \<^verbatim>\<open>make\<close> and a copy of every
  element. A nil pointer stays nil. The case of a dangling pointer, which Go excludes, is nil, too.
\<close>

definition copy_entries :: "string gomap \<Rightarrow> string gomap" where
  "copy_entries m = foldl (\<lambda>out (key, val). fmupd key val out) fmempty (rev (sorted_list_of_fmap m))"

definition copy_map :: "addr option \<Rightarrow> heap \<Rightarrow> addr option \<times> heap" where
  "copy_map p h = (case load p h of
      Some (CMap m) \<Rightarrow> (let (a, h') = alloc (CMap (copy_entries m)) h in (Some a, h'))
    | _ \<Rightarrow> (None, h))"

definition copy_data :: "addr option \<Rightarrow> heap \<Rightarrow> addr option \<times> heap" where
  "copy_data p h = (case load p h of
      Some (CData ds) \<Rightarrow> (let (a, h') = alloc (CData ds) h in (Some a, h'))
    | _ \<Rightarrow> (None, h))"

definition SecretObject_DeepCopyInto :: "SecretObjectP \<Rightarrow> heap \<Rightarrow> SecretObjectP \<times> heap" where
  "SecretObject_DeepCopyInto x h =
     (let (d, h1) = copy_data (pso_Data x) h;
          (l, h2) = copy_map (pso_Labels x) h1;
          (a, h3) = copy_map (pso_Annotations x) h2
      in (x\<lparr>pso_Data := d, pso_Labels := l, pso_Annotations := a\<rparr>, h3))"

definition SecretSyncSpec_DeepCopyInto :: "SecretSyncSpecP \<Rightarrow> heap \<Rightarrow> SecretSyncSpecP \<times> heap" where
  "SecretSyncSpec_DeepCopyInto x h =
     (let (so, h1) = SecretObject_DeepCopyInto (psp_SecretObject x) h in (x\<lparr>psp_SecretObject := so\<rparr>, h1))"

record library_copiers =
  Time_DeepCopy :: "time \<Rightarrow> time"
  Condition_DeepCopyInto :: "Condition \<Rightarrow> Condition"

definition copy_time :: "library_copiers \<Rightarrow> addr option \<Rightarrow> heap \<Rightarrow> addr option \<times> heap" where
  "copy_time L p h = (case load p h of
      Some (CTime t) \<Rightarrow> (let (a, h') = alloc (CTime (Time_DeepCopy L t)) h in (Some a, h'))
    | _ \<Rightarrow> (None, h))"

definition copy_conds :: "library_copiers \<Rightarrow> addr option \<Rightarrow> heap \<Rightarrow> addr option \<times> heap" where
  "copy_conds L p h = (case load p h of
      Some (CConds cs) \<Rightarrow> (let (a, h') = alloc (CConds (map (Condition_DeepCopyInto L) cs)) h in (Some a, h'))
    | _ \<Rightarrow> (None, h))"

definition SecretSyncStatus_DeepCopyInto :: "library_copiers \<Rightarrow> SecretSyncStatusP \<Rightarrow> heap \<Rightarrow> SecretSyncStatusP \<times> heap" where
  "SecretSyncStatus_DeepCopyInto L x h =
     (let (t, h1) = copy_time L (pst_LastSuccessfulSyncTime x) h;
          (cs, h2) = copy_conds L (pst_Conditions x) h1
      in (x\<lparr>pst_LastSuccessfulSyncTime := t, pst_Conditions := cs\<rparr>, h2))"

type_synonym 'm meta_copier = "'m \<Rightarrow> heap \<Rightarrow> 'm \<times> heap"

definition SecretSync_DeepCopyInto :: "library_copiers \<Rightarrow> 'm meta_copier \<Rightarrow> 'm SecretSyncP \<Rightarrow> heap \<Rightarrow> 'm SecretSyncP \<times> heap" where
  "SecretSync_DeepCopyInto L meta_copy x h =
     (let (mt, h1) = meta_copy (pss_Meta x) h;
          (sp, h2) = SecretSyncSpec_DeepCopyInto (pss_Spec x) h1;
          (st, h3) = SecretSyncStatus_DeepCopyInto L (pss_Status x) h2
      in (x\<lparr>pss_Meta := mt, pss_Spec := sp, pss_Status := st\<rparr>, h3))"

text \<open>DeepCopy of a pointer: nil for nil, otherwise a new object.\<close>

definition DeepCopy :: "('x \<Rightarrow> 'h \<Rightarrow> 'x \<times> 'h) \<Rightarrow> 'x option \<Rightarrow> 'h \<Rightarrow> 'x option \<times> 'h" where
  "DeepCopy DeepCopyInto p h = (case p of
      None \<Rightarrow> (None, h)
    | Some x \<Rightarrow> (let (y, h') = DeepCopyInto x h in (Some y, h')))"

definition SecretObjectData_DeepCopyInto :: "SecretObjectData \<Rightarrow> heap \<Rightarrow> SecretObjectData \<times> heap" where
  "SecretObjectData_DeepCopyInto x h = (x, h)"

text \<open>
  A list of objects. Its backing array holds whole objects, so it lives in a store of its own; its
  elements are copied one after another.
\<close>

record 'm items_store =
  it_cells :: "(addr, 'm SecretSyncP list) fmap"
  it_next :: addr

record 'l SecretSyncListP =
  pl_TypeMeta :: TypeMeta
  pl_ListMeta :: 'l
  pl_Items :: "addr option"

fun copy_items :: "('x \<Rightarrow> heap \<Rightarrow> 'x \<times> heap) \<Rightarrow> 'x list \<Rightarrow> heap \<Rightarrow> 'x list \<times> heap" where
  "copy_items c [] h = ([], h)"
| "copy_items c (x # xs) h = (let (y, h1) = c x h; (ys, h2) = copy_items c xs h1 in (y # ys, h2))"

definition SecretSyncList_DeepCopyInto :: "library_copiers \<Rightarrow> 'm meta_copier \<Rightarrow> 'l meta_copier
    \<Rightarrow> 'l SecretSyncListP \<Rightarrow> heap \<times> 'm items_store \<Rightarrow> 'l SecretSyncListP \<times> (heap \<times> 'm items_store)" where
  "SecretSyncList_DeepCopyInto L meta_copy list_meta_copy x = (\<lambda>(h, it).
     let (lm, h1) = list_meta_copy (pl_ListMeta x) h; out = x\<lparr>pl_ListMeta := lm\<rparr> in
     case Option.bind (pl_Items x) (fmlookup (it_cells it)) of
       None \<Rightarrow> (out\<lparr>pl_Items := None\<rparr>, (h1, it))
     | Some items \<Rightarrow>
         (let (items', h2) = copy_items (SecretSync_DeepCopyInto L meta_copy) items h1
          in (out\<lparr>pl_Items := Some (it_next it)\<rparr>,
              (h2, it\<lparr>it_cells := fmupd (it_next it) items' (it_cells it), it_next := it_next it + 1\<rparr>))))"

text \<open>DeepCopy of every type.\<close>

definition SecretObject_DeepCopy :: "SecretObjectP option \<Rightarrow> heap \<Rightarrow> SecretObjectP option \<times> heap" where
  "SecretObject_DeepCopy = DeepCopy SecretObject_DeepCopyInto"

definition SecretObjectData_DeepCopy :: "SecretObjectData option \<Rightarrow> heap \<Rightarrow> SecretObjectData option \<times> heap" where
  "SecretObjectData_DeepCopy = DeepCopy SecretObjectData_DeepCopyInto"

definition SecretSync_DeepCopy :: "library_copiers \<Rightarrow> 'm meta_copier \<Rightarrow> 'm SecretSyncP option \<Rightarrow> heap
    \<Rightarrow> 'm SecretSyncP option \<times> heap" where
  "SecretSync_DeepCopy L meta_copy = DeepCopy (SecretSync_DeepCopyInto L meta_copy)"

definition SecretSyncList_DeepCopy :: "library_copiers \<Rightarrow> 'm meta_copier \<Rightarrow> 'l meta_copier \<Rightarrow> 'l SecretSyncListP option
    \<Rightarrow> heap \<times> 'm items_store \<Rightarrow> 'l SecretSyncListP option \<times> (heap \<times> 'm items_store)" where
  "SecretSyncList_DeepCopy L meta_copy list_meta_copy = DeepCopy (SecretSyncList_DeepCopyInto L meta_copy list_meta_copy)"

definition SecretSyncSpec_DeepCopy :: "SecretSyncSpecP option \<Rightarrow> heap \<Rightarrow> SecretSyncSpecP option \<times> heap" where
  "SecretSyncSpec_DeepCopy = DeepCopy SecretSyncSpec_DeepCopyInto"

definition SecretSyncStatus_DeepCopy :: "library_copiers \<Rightarrow> SecretSyncStatusP option \<Rightarrow> heap \<Rightarrow> SecretSyncStatusP option \<times> heap" where
  "SecretSyncStatus_DeepCopy L = DeepCopy (SecretSyncStatus_DeepCopyInto L)"

text \<open>DeepCopyObject: an interface value, which is nil when the copied pointer is.\<close>

datatype ('l, 'm) runtime_Object = ObjSecretSync "'m SecretSyncP" | ObjSecretSyncList "'l SecretSyncListP"

definition SecretSync_DeepCopyObject :: "library_copiers \<Rightarrow> 'm meta_copier \<Rightarrow> 'm SecretSyncP option \<Rightarrow> heap
    \<Rightarrow> ('l, 'm) runtime_Object option \<times> heap" where
  "SecretSync_DeepCopyObject L meta_copy p h = (case SecretSync_DeepCopy L meta_copy p h of
      (Some c, h') \<Rightarrow> (Some (ObjSecretSync c), h')
    | (None, h') \<Rightarrow> (None, h'))"

definition SecretSyncList_DeepCopyObject :: "library_copiers \<Rightarrow> 'm meta_copier \<Rightarrow> 'l meta_copier \<Rightarrow> 'l SecretSyncListP option
    \<Rightarrow> heap \<times> 'm items_store \<Rightarrow> ('l, 'm) runtime_Object option \<times> (heap \<times> 'm items_store)" where
  "SecretSyncList_DeepCopyObject L meta_copy list_meta_copy p hs =
     (case SecretSyncList_DeepCopy L meta_copy list_meta_copy p hs of
      (Some c, hs') \<Rightarrow> (Some (ObjSecretSyncList c), hs')
    | (None, hs') \<Rightarrow> (None, hs'))"

text \<open>
  The first lines of serverSidePatchSecret: the labels of the copy, or a new map when there are none,
  get the label of the controller.
\<close>

definition set_controller_label :: "SecretObjectP \<Rightarrow> heap \<Rightarrow> addr \<times> heap" where
  "set_controller_label x h = (case (pso_Labels x, load (pso_Labels x) h) of
      (Some a, Some (CMap m)) \<Rightarrow> (a, store a (CMap (fmupd controllerLabelKey [] m)) h)
    | _ \<Rightarrow> (let (a, h') = alloc (CMap fmempty) h in (a, store a (CMap (fmupd controllerLabelKey [] fmempty)) h')))"

definition patch_labels :: "library_copiers \<Rightarrow> 'm meta_copier \<Rightarrow> 'm SecretSyncP \<Rightarrow> heap \<Rightarrow> ('m SecretSyncP \<times> addr) option \<times> heap" where
  "patch_labels L meta_copy ss h =
     (case SecretSync_DeepCopy L meta_copy (Some ss) h of
        (None, h') \<Rightarrow> (None, h')
      | (Some ssCopy, h') \<Rightarrow>
          (let (controllerLabels, h'') = set_controller_label (psp_SecretObject (pss_Spec ssCopy)) h'
           in (Some (ssCopy, controllerLabels), h'')))"

section \<open>Values of objects\<close>

definition map_value :: "addr option \<Rightarrow> heap \<Rightarrow> string gomap option" where
  "map_value p h = (case load p h of Some (CMap m) \<Rightarrow> Some m | _ \<Rightarrow> None)"

definition data_value :: "addr option \<Rightarrow> heap \<Rightarrow> SecretObjectData list" where
  "data_value p h = (case load p h of Some (CData ds) \<Rightarrow> ds | _ \<Rightarrow> [])"

definition time_value :: "addr option \<Rightarrow> heap \<Rightarrow> time option" where
  "time_value p h = (case load p h of Some (CTime t) \<Rightarrow> Some t | _ \<Rightarrow> None)"

definition conds_value :: "addr option \<Rightarrow> heap \<Rightarrow> Condition list" where
  "conds_value p h = (case load p h of Some (CConds cs) \<Rightarrow> cs | _ \<Rightarrow> [])"

definition object_value :: "SecretObjectP \<Rightarrow> heap \<Rightarrow> SecretObject" where
  "object_value x h = \<lparr>so_Type = pso_Type x, so_Data = data_value (pso_Data x) h,
     so_Labels = map_value (pso_Labels x) h, so_Annotations = map_value (pso_Annotations x) h\<rparr>"

definition spec_value :: "SecretSyncSpecP \<Rightarrow> heap \<Rightarrow> SecretSyncSpec" where
  "spec_value x h = \<lparr>sp_SecretSyncControllerName = psp_SecretSyncControllerName x,
     sp_SecretProviderClassName = psp_SecretProviderClassName x, sp_ServiceAccountName = psp_ServiceAccountName x,
     sp_SecretObject = object_value (psp_SecretObject x) h, sp_ForceSynchronization = psp_ForceSynchronization x\<rparr>"

definition status_value :: "SecretSyncStatusP \<Rightarrow> heap \<Rightarrow> SecretSyncStatus" where
  "status_value x h = \<lparr>st_SyncHash = pst_SyncHash x, st_LastSuccessfulSyncTime = time_value (pst_LastSuccessfulSyncTime x) h,
     st_Conditions = conds_value (pst_Conditions x) h\<rparr>"

definition sync_value :: "('m \<Rightarrow> heap \<Rightarrow> ObjectMeta) \<Rightarrow> 'm SecretSyncP \<Rightarrow> heap \<Rightarrow> SecretSync" where
  "sync_value meta_value x h = \<lparr>ss_TypeMeta = pss_TypeMeta x, ss_Meta = meta_value (pss_Meta x) h,
     ss_Spec = spec_value (pss_Spec x) h, ss_Status = status_value (pss_Status x) h\<rparr>"

text \<open>The cells an object refers to.\<close>

definition ptr_cells :: "addr option \<Rightarrow> addr set" where
  "ptr_cells p = set_option p"

definition object_cells :: "SecretObjectP \<Rightarrow> addr set" where
  "object_cells x = ptr_cells (pso_Data x) \<union> ptr_cells (pso_Labels x) \<union> ptr_cells (pso_Annotations x)"

definition status_cells :: "SecretSyncStatusP \<Rightarrow> addr set" where
  "status_cells x = ptr_cells (pst_LastSuccessfulSyncTime x) \<union> ptr_cells (pst_Conditions x)"

definition sync_cells :: "('m \<Rightarrow> heap \<Rightarrow> addr set) \<Rightarrow> 'm SecretSyncP \<Rightarrow> heap \<Rightarrow> addr set" where
  "sync_cells meta_cells x h = meta_cells (pss_Meta x) h \<union> object_cells (psp_SecretObject (pss_Spec x)) \<union> status_cells (pss_Status x)"

section \<open>The contract of a deep copy\<close>

text \<open>\<open>grows h h'\<close>: every cell of \<open>h\<close> is still there, unchanged.\<close>

definition grows :: "heap \<Rightarrow> heap \<Rightarrow> bool" where
  "grows h h' \<longleftrightarrow> (\<forall>a. a \<in> allocated h \<longrightarrow> fmlookup (hp_cells h') a = fmlookup (hp_cells h) a)"

locale deep_copier =
  fixes copy :: "'x \<Rightarrow> heap \<Rightarrow> 'x \<times> heap"
    and val :: "'x \<Rightarrow> heap \<Rightarrow> 'v"
    and cells :: "'x \<Rightarrow> heap \<Rightarrow> addr set"
  assumes local: "\<lbrakk>\<And>a. a \<in> cells x h \<Longrightarrow> fmlookup (hp_cells h') a = fmlookup (hp_cells h) a\<rbrakk>
      \<Longrightarrow> val x h' = val x h \<and> cells x h' = cells x h"
    and copy_ok: "heap_ok h \<Longrightarrow> copy x h = (y, h') \<Longrightarrow> heap_ok h' \<and> grows h h'"
    and copy_val: "heap_ok h \<Longrightarrow> cells x h \<subseteq> allocated h \<Longrightarrow> copy x h = (y, h') \<Longrightarrow> val y h' = val x h"
    and copy_fresh: "heap_ok h \<Longrightarrow> cells x h \<subseteq> allocated h \<Longrightarrow> copy x h = (y, h')
      \<Longrightarrow> cells y h' \<subseteq> allocated h' - allocated h"
begin

lemma grown: "cells x h \<subseteq> allocated h \<Longrightarrow> grows h h' \<Longrightarrow> val x h' = val x h \<and> cells x h' = cells x h"
  by (rule local) (auto simp: grows_def)

text \<open>Whatever is later done to cells that did not exist before the copy leaves the original's value alone.\<close>

lemma original_kept:
  assumes "cells x h \<subseteq> allocated h" "grows h h''"
  shows "val x h'' = val x h"
  using grown [OF assms] by simp

lemma copy_kept:
  assumes "heap_ok h" "cells x h \<subseteq> allocated h" "copy x h = (y, h')" "grows h' h''"
  shows "val y h'' = val x h \<and> cells y h'' = cells y h'"
  using grown [of y h' h''] copy_fresh [OF assms(1-3)] copy_val [OF assms(1-3)] assms(4) by auto

text \<open>DeepCopy through a pointer: nil for nil, otherwise a new object of the same value that shares no cell.\<close>

lemma pointer_copy:
  assumes "heap_ok h" "DeepCopy copy p h = (q, h')" "\<And>x. p = Some x \<Longrightarrow> cells x h \<subseteq> allocated h"
  shows "heap_ok h' \<and> grows h h' \<and> (case (p, q) of
      (None, None) \<Rightarrow> h' = h
    | (Some x, Some y) \<Rightarrow> val y h' = val x h \<and> val x h' = val x h \<and> cells y h' \<subseteq> allocated h' - allocated h
    | _ \<Rightarrow> False)"
proof (cases p)
  case None
  with assms(1,2) show ?thesis by (auto simp: DeepCopy_def grows_def)
next
  case (Some x)
  with assms(2) obtain y where y: "copy x h = (y, h')" "q = Some y" by (auto simp: DeepCopy_def split: prod.splits)
  have "cells x h \<subseteq> allocated h" using assms(3) Some by blast
  from copy_ok [OF assms(1) y(1)] copy_val [OF assms(1) this y(1)] copy_fresh [OF assms(1) this y(1)] original_kept [OF this]
  show ?thesis by (simp add: Some y(2))
qed

end

section \<open>Copies compose\<close>

lemma grows_refl [simp]: "grows h h"
  by (simp add: grows_def)

lemma grows_allocated: "grows h h' \<Longrightarrow> allocated h \<subseteq> allocated h'"
  unfolding grows_def allocated_def by auto

lemma grows_trans: "grows h h1 \<Longrightarrow> grows h1 h2 \<Longrightarrow> grows h h2"
  unfolding grows_def allocated_def by simp

lemma grows_alloc: "heap_ok h \<Longrightarrow> alloc c h = (a, h') \<Longrightarrow> heap_ok h' \<and> grows h h' \<and> a \<in> allocated h' - allocated h
    \<and> fmlookup (hp_cells h') a = Some c"
  by (auto simp: heap_ok_def alloc_def grows_def allocated_def fmpred_iff less_Suc_eq split: if_splits)

text \<open>Two copies after each other, and a copy of one field of a record.\<close>

definition copy_both :: "('x \<Rightarrow> heap \<Rightarrow> 'x \<times> heap) \<Rightarrow> ('y \<Rightarrow> heap \<Rightarrow> 'y \<times> heap)
    \<Rightarrow> 'x \<times> 'y \<Rightarrow> heap \<Rightarrow> ('x \<times> 'y) \<times> heap" where
  "copy_both c d xy h = (let (x, h1) = c (fst xy) h; (y, h2) = d (snd xy) h1 in ((x, y), h2))"

lemma deep_copier_both:
  assumes C: "deep_copier c v s" and D: "deep_copier d u r"
  shows "deep_copier (copy_both c d) (\<lambda>xy h. (v (fst xy) h, u (snd xy) h)) (\<lambda>xy h. s (fst xy) h \<union> r (snd xy) h)"
proof (unfold_locales, goal_cases)
  case (1 xy h h')
  then show ?case using deep_copier.local [OF C, of "fst xy" h h'] deep_copier.local [OF D, of "snd xy" h h'] by auto
next
  case (2 h xy z h')
  then obtain x h1 y where "c (fst xy) h = (x, h1)" "d (snd xy) h1 = (y, h')" by (auto simp: copy_both_def split: prod.splits)
  with 2(1) show ?case
    using deep_copier.copy_ok [OF C] deep_copier.copy_ok [OF D] by (meson grows_trans)
next
  case (3 h xy z h')
  then obtain x h1 y where c: "c (fst xy) h = (x, h1)" and d: "d (snd xy) h1 = (y, h')" and z: "z = (x, y)"
    by (auto simp: copy_both_def split: prod.splits)
  have 1: "heap_ok h1" "grows h h1" using deep_copier.copy_ok [OF C 3(1) c] by auto
  have 2: "grows h1 h'" using deep_copier.copy_ok [OF D 1(1) d] by auto
  have s: "s (fst xy) h \<subseteq> allocated h" and r: "r (snd xy) h \<subseteq> allocated h" using 3(2) by auto
  note g = deep_copier.grown [OF D r 1(2)]
  have "u y h' = u (snd xy) h1"
    using g r grows_allocated [OF 1(2)] by (intro deep_copier.copy_val [OF D 1(1) _ d]) auto
  with g deep_copier.copy_kept [OF C 3(1) s c 2] show ?case by (simp add: z)
next
  case (4 h xy z h')
  then obtain x h1 y where c: "c (fst xy) h = (x, h1)" and d: "d (snd xy) h1 = (y, h')" and z: "z = (x, y)"
    by (auto simp: copy_both_def split: prod.splits)
  have 1: "heap_ok h1" "grows h h1" using deep_copier.copy_ok [OF C 4(1) c] by auto
  have 2: "grows h1 h'" using deep_copier.copy_ok [OF D 1(1) d] by auto
  have s: "s (fst xy) h \<subseteq> allocated h" and r: "r (snd xy) h \<subseteq> allocated h" using 4(2) by auto
  have "r y h' \<subseteq> allocated h' - allocated h1"
    using deep_copier.grown [OF D r 1(2)] r grows_allocated [OF 1(2)] by (intro deep_copier.copy_fresh [OF D 1(1) _ d]) auto
  with deep_copier.copy_fresh [OF C 4(1) s c] deep_copier.copy_kept [OF C 4(1) s c 2] grows_allocated [OF 1(2)] grows_allocated [OF 2]
  show ?case by (auto simp: z)
qed

lemma deep_copier_field:
  assumes C: "deep_copier c v s" and get: "\<And>y x. get (put y x) = y" and rest: "\<And>y x u. w (put y x) u = w x u"
    and copy: "\<And>x h. copy x h = (let (y, h') = c (get x) h in (put y x, h'))"
    and val: "\<And>x h. val x h = w x (v (get x) h)" and cells: "\<And>x h. cells x h = s (get x) h"
  shows "deep_copier copy val cells"
proof (unfold_locales, goal_cases)
  case (1 x h h')
  then show ?case using deep_copier.local [OF C, of "get x" h h'] by (simp add: val cells)
next
  case (2 h x z h')
  then show ?case using deep_copier.copy_ok [OF C] by (fastforce simp: copy split: prod.splits)
next
  case (3 h x z h')
  then show ?case using deep_copier.copy_val [OF C] by (auto simp: copy val cells get rest split: prod.splits)
next
  case (4 h x z h')
  then obtain y where y: "c (get x) h = (y, h')" and z: "z = put y x" by (auto simp: copy split: prod.splits)
  from deep_copier.copy_fresh [OF C 4(1) _ y] 4(2) show ?case by (simp add: cells get z)
qed

text \<open>The elements of a list one after another.\<close>

lemma copy_items_ok:
  assumes C: "deep_copier c v s"
  shows "heap_ok h \<Longrightarrow> copy_items c xs h = (ys, h') \<Longrightarrow> heap_ok h' \<and> grows h h'"
proof (induction xs arbitrary: h ys)
  case (Cons x xs)
  then obtain y h1 zs where "c x h = (y, h1)" "copy_items c xs h1 = (zs, h')" by (auto split: prod.splits)
  with Cons.IH Cons.prems(1) deep_copier.copy_ok [OF C] show ?case by (meson grows_trans)
qed simp

lemma copy_items_val:
  assumes C: "deep_copier c v s"
  shows "heap_ok h \<Longrightarrow> (\<Union>x \<in> set xs. s x h) \<subseteq> allocated h \<Longrightarrow> copy_items c xs h = (ys, h')
    \<Longrightarrow> map (\<lambda>y. v y h') ys = map (\<lambda>x. v x h) xs \<and> (\<Union>y \<in> set ys. s y h') \<subseteq> allocated h' - allocated h"
proof (induction xs arbitrary: h ys)
  case (Cons x xs)
  then obtain y h1 zs where y: "c x h = (y, h1)" and zs: "copy_items c xs h1 = (zs, h')" and ys: "ys = y # zs"
    by (auto split: prod.splits)
  have 1: "heap_ok h1" "grows h h1" using deep_copier.copy_ok [OF C Cons.prems(1) y] by auto
  have 2: "grows h1 h'" using copy_items_ok [OF C 1(1) zs] by simp
  have s: "s x h \<subseteq> allocated h" using Cons.prems(2) by auto
  have old: "v z h1 = v z h \<and> s z h1 = s z h" if "z \<in> set xs" for z
    using that Cons.prems(2) by (intro deep_copier.grown [OF C _ 1(2)]) auto
  have "(\<Union>x \<in> set xs. s x h1) \<subseteq> allocated h" using old Cons.prems(2) by simp
  then have "(\<Union>x \<in> set xs. s x h1) \<subseteq> allocated h1" using grows_allocated [OF 1(2)] by (rule subset_trans)
  note rest = Cons.IH [OF 1(1) this zs]
  note first = deep_copier.copy_kept [OF C Cons.prems(1) s y 2] deep_copier.copy_fresh [OF C Cons.prems(1) s y]
  have "map (\<lambda>y. v y h') ys = map (\<lambda>x. v x h) (x # xs)" using rest first(1) old by (simp add: ys)
  moreover have "s y h' \<subseteq> allocated h' - allocated h" using first grows_allocated [OF 2] by auto
  moreover have "(\<Union>z \<in> set zs. s z h') \<subseteq> allocated h' - allocated h" using rest grows_allocated [OF 1(2)] by auto
  ultimately show ?case by (simp add: ys)
qed simp

lemma deep_copier_items:
  assumes C: "deep_copier c v s"
  shows "deep_copier (copy_items c) (\<lambda>xs h. map (\<lambda>x. v x h) xs) (\<lambda>xs h. \<Union>x \<in> set xs. s x h)"
proof (unfold_locales, goal_cases)
  case (1 xs h h')
  then have "v x h' = v x h \<and> s x h' = s x h" if "x \<in> set xs" for x
    using that by (intro deep_copier.local [OF C]) auto
  then show ?case by simp
next
  case (2 h xs ys h')
  then show ?case by (rule copy_items_ok [OF C])
next
  case (3 h xs ys h')
  from copy_items_val [OF C 3] show ?case by simp
next
  case (4 h xs ys h')
  from copy_items_val [OF C 4] show ?case by simp
qed

section \<open>The copies of the source\<close>

lemma foldl_entries: "fmlookup (foldl (\<lambda>out (key, val). fmupd key val out) m (rev kvs)) k
    = (case map_of kvs k of None \<Rightarrow> fmlookup m k | Some v \<Rightarrow> Some v)"
  by (induction kvs arbitrary: m) auto

lemma copy_entries_id [simp]: "copy_entries m = m"
  by (rule fmap_ext) (simp add: copy_entries_def foldl_entries split: option.split)

text \<open>A copy through one pointer: a new cell with the same content, or nil.\<close>

lemma deep_copier_ptr:
  assumes copy: "\<And>p h. copy p h = (case load p h of
      Some c \<Rightarrow> if ok c then (let (a, h') = alloc (f c) h in (Some a, h')) else (None, h) | None \<Rightarrow> (None, h))"
    and val: "\<And>p h. val p h = (case load p h of Some c \<Rightarrow> if ok c then g c else z | None \<Rightarrow> z)"
    and same: "\<And>c. ok c \<Longrightarrow> ok (f c) \<and> g (f c) = g c"
  shows "deep_copier copy val (\<lambda>p h. ptr_cells p)"
proof -
  have split: "(q = None \<and> h' = h \<and> val p h = z) \<or> (\<exists>a c. q = Some a \<and> load p h = Some c \<and> ok c \<and> alloc (f c) h = (a, h'))"
    if "copy p h = (q, h')" for p q h h'
    using that by (auto simp: copy val split: option.splits if_splits prod.splits)
  show ?thesis
  proof (unfold_locales, goal_cases)
    case (1 p h h')
    then show ?case by (cases p) (auto simp: val load_def ptr_cells_def)
  next
    case (2 h p q h')
    from split [OF 2(2)] 2(1) show ?case by (auto dest: grows_alloc)
  next
    case (3 h p q h')
    from split [OF 3(3)] show ?case
    proof
      assume "\<exists>a c. q = Some a \<and> load p h = Some c \<and> ok c \<and> alloc (f c) h = (a, h')"
      then obtain a c where c: "q = Some a" "load p h = Some c" "ok c" "alloc (f c) h = (a, h')" by blast
      from grows_alloc [OF 3(1) c(4)] have "load q h' = Some (f c)" by (simp add: load_def c(1))
      with c same [OF c(3)] show ?thesis by (simp add: val)
    qed (simp add: val load_def)
  next
    case (4 h p q h')
    from split [OF 4(3)] show ?case
    proof
      assume "\<exists>a c. q = Some a \<and> load p h = Some c \<and> ok c \<and> alloc (f c) h = (a, h')"
      then obtain a c where c: "q = Some a" "alloc (f c) h = (a, h')" by blast
      from grows_alloc [OF 4(1) c(2)] show ?thesis by (simp add: c(1) ptr_cells_def)
    qed (simp add: ptr_cells_def)
  qed
qed

interpretation maps: deep_copier copy_map map_value "\<lambda>p h. ptr_cells p"
  by (rule deep_copier_ptr [where ok = "\<lambda>c. case c of CMap _ \<Rightarrow> True | _ \<Rightarrow> False"
        and f = "\<lambda>c. case c of CMap m \<Rightarrow> CMap (copy_entries m) | _ \<Rightarrow> c"
        and g = "\<lambda>c. case c of CMap m \<Rightarrow> Some m | _ \<Rightarrow> None" and z = None])
    (auto simp: copy_map_def map_value_def split: option.splits cell.splits)

interpretation datas: deep_copier copy_data data_value "\<lambda>p h. ptr_cells p"
  by (rule deep_copier_ptr [where ok = "\<lambda>c. case c of CData _ \<Rightarrow> True | _ \<Rightarrow> False" and f = "\<lambda>c. c"
        and g = "\<lambda>c. case c of CData ds \<Rightarrow> ds | _ \<Rightarrow> []" and z = "[]"])
    (auto simp: copy_data_def data_value_def split: option.splits cell.splits)

interpretation objects: deep_copier SecretObject_DeepCopyInto object_value "\<lambda>x h. object_cells x"
  by (rule deep_copier_field [OF deep_copier_both [OF datas.deep_copier_axioms
          deep_copier_both [OF maps.deep_copier_axioms maps.deep_copier_axioms]],
        where get = "\<lambda>x. (pso_Data x, pso_Labels x, pso_Annotations x)"
        and put = "\<lambda>(d, l, a) x. x\<lparr>pso_Data := d, pso_Labels := l, pso_Annotations := a\<rparr>"
        and w = "\<lambda>x (d, l, a). \<lparr>so_Type = pso_Type x, so_Data = d, so_Labels = l, so_Annotations = a\<rparr>"])
    (auto simp: SecretObject_DeepCopyInto_def copy_both_def object_value_def object_cells_def split: prod.splits)

interpretation specs: deep_copier SecretSyncSpec_DeepCopyInto spec_value "\<lambda>x h. object_cells (psp_SecretObject x)"
  by (rule deep_copier_field [OF objects.deep_copier_axioms, where get = psp_SecretObject
        and put = "\<lambda>y x. x\<lparr>psp_SecretObject := y\<rparr>"
        and w = "\<lambda>x so. \<lparr>sp_SecretSyncControllerName = psp_SecretSyncControllerName x,
          sp_SecretProviderClassName = psp_SecretProviderClassName x, sp_ServiceAccountName = psp_ServiceAccountName x,
          sp_SecretObject = so, sp_ForceSynchronization = psp_ForceSynchronization x\<rparr>"])
    (auto simp: SecretSyncSpec_DeepCopyInto_def spec_value_def split: prod.splits)

interpretation entries: deep_copier SecretObjectData_DeepCopyInto "\<lambda>x h. x" "\<lambda>x h. {}"
  by unfold_locales (auto simp: SecretObjectData_DeepCopyInto_def grows_def)

text \<open>The library's copiers of times and conditions, which hold no references, return what they are given.\<close>

locale library_laws =
  fixes L :: library_copiers
  assumes time_exact: "Time_DeepCopy L t = t"
    and condition_exact: "Condition_DeepCopyInto L c = c"
begin

lemma conditions_exact: "map (Condition_DeepCopyInto L) cs = cs"
  by (rule map_idI) (rule condition_exact)

end

sublocale library_laws \<subseteq> times: deep_copier "copy_time L" time_value "\<lambda>p h. ptr_cells p"
  by (rule deep_copier_ptr [where ok = "\<lambda>c. case c of CTime _ \<Rightarrow> True | _ \<Rightarrow> False" and f = "\<lambda>c. c"
        and g = "\<lambda>c. case c of CTime t \<Rightarrow> Some t | _ \<Rightarrow> None" and z = None])
    (auto simp: copy_time_def time_value_def time_exact split: option.splits cell.splits)

sublocale library_laws \<subseteq> conditions: deep_copier "copy_conds L" conds_value "\<lambda>p h. ptr_cells p"
  by (rule deep_copier_ptr [where ok = "\<lambda>c. case c of CConds _ \<Rightarrow> True | _ \<Rightarrow> False" and f = "\<lambda>c. c"
        and g = "\<lambda>c. case c of CConds cs \<Rightarrow> cs | _ \<Rightarrow> []" and z = "[]"])
    (auto simp: copy_conds_def conds_value_def conditions_exact split: option.splits cell.splits)

sublocale library_laws \<subseteq> statuses: deep_copier "SecretSyncStatus_DeepCopyInto L" status_value "\<lambda>x h. status_cells x"
  by (rule deep_copier_field [OF deep_copier_both [OF times.deep_copier_axioms conditions.deep_copier_axioms],
        where get = "\<lambda>x. (pst_LastSuccessfulSyncTime x, pst_Conditions x)"
        and put = "\<lambda>(t, cs) x. x\<lparr>pst_LastSuccessfulSyncTime := t, pst_Conditions := cs\<rparr>"
        and w = "\<lambda>x (t, cs). \<lparr>st_SyncHash = pst_SyncHash x, st_LastSuccessfulSyncTime = t, st_Conditions = cs\<rparr>"])
    (auto simp: SecretSyncStatus_DeepCopyInto_def copy_both_def status_value_def status_cells_def split: prod.splits)

locale sync_copiers = library_laws L + meta: deep_copier meta_copy meta_value meta_cells
  for L :: library_copiers and meta_copy :: "'m meta_copier" and meta_value :: "'m \<Rightarrow> heap \<Rightarrow> ObjectMeta"
    and meta_cells :: "'m \<Rightarrow> heap \<Rightarrow> addr set"
begin

lemma sync_copier: "deep_copier (SecretSync_DeepCopyInto L meta_copy) (sync_value meta_value) (sync_cells meta_cells)"
  by (rule deep_copier_field [OF deep_copier_both [OF meta.deep_copier_axioms
          deep_copier_both [OF specs.deep_copier_axioms statuses.deep_copier_axioms]],
        where get = "\<lambda>x. (pss_Meta x, pss_Spec x, pss_Status x)"
        and put = "\<lambda>(m, sp, st) x. x\<lparr>pss_Meta := m, pss_Spec := sp, pss_Status := st\<rparr>"
        and w = "\<lambda>x (m, sp, st). \<lparr>ss_TypeMeta = pss_TypeMeta x, ss_Meta = m, ss_Spec = sp, ss_Status = st\<rparr>"])
    (auto simp: SecretSync_DeepCopyInto_def copy_both_def sync_value_def sync_cells_def split: prod.splits)

end

sublocale sync_copiers \<subseteq> syncs: deep_copier "SecretSync_DeepCopyInto L meta_copy" "sync_value meta_value" "sync_cells meta_cells"
  by (rule sync_copier)

sublocale sync_copiers \<subseteq> items: deep_copier "copy_items (SecretSync_DeepCopyInto L meta_copy)"
    "\<lambda>xs h. map (\<lambda>x. sync_value meta_value x h) xs" "\<lambda>xs h. \<Union>x \<in> set xs. sync_cells meta_cells x h"
  by (rule deep_copier_items [OF sync_copier])

text \<open>
  The copy of a list has the value of the original, a backing array of its own, and elements that
  refer only to new cells.
\<close>

definition items_of :: "'l SecretSyncListP \<Rightarrow> 'm items_store \<Rightarrow> 'm SecretSyncP list" where
  "items_of x it = (case Option.bind (pl_Items x) (fmlookup (it_cells it)) of None \<Rightarrow> [] | Some items \<Rightarrow> items)"

definition list_value :: "('m \<Rightarrow> heap \<Rightarrow> ObjectMeta) \<Rightarrow> ('l \<Rightarrow> heap \<Rightarrow> ListMeta) \<Rightarrow> 'l SecretSyncListP
    \<Rightarrow> heap \<times> 'm items_store \<Rightarrow> SecretSyncList" where
  "list_value meta_value list_meta_value x = (\<lambda>(h, it). \<lparr>sl_TypeMeta = pl_TypeMeta x,
     sl_ListMeta = list_meta_value (pl_ListMeta x) h, sl_Items = map (\<lambda>x. sync_value meta_value x h) (items_of x it)\<rparr>)"

definition list_cells :: "('m \<Rightarrow> heap \<Rightarrow> addr set) \<Rightarrow> ('l \<Rightarrow> heap \<Rightarrow> addr set) \<Rightarrow> 'l SecretSyncListP
    \<Rightarrow> heap \<times> 'm items_store \<Rightarrow> addr set" where
  "list_cells meta_cells list_meta_cells x = (\<lambda>(h, it). list_meta_cells (pl_ListMeta x) h
     \<union> (\<Union>x \<in> set (items_of x it). sync_cells meta_cells x h))"

lemma list_copy_ok:
  assumes "sync_copiers L meta_copy meta_value meta_cells" "deep_copier list_meta_copy list_meta_value list_meta_cells"
    and "heap_ok h" "fmlookup (it_cells it) (it_next it) = None"
    and "list_cells meta_cells list_meta_cells x (h, it) \<subseteq> allocated h"
    and "SecretSyncList_DeepCopyInto L meta_copy list_meta_copy x (h, it) = (y, (h', it'))"
  shows "list_value meta_value list_meta_value y (h', it') = list_value meta_value list_meta_value x (h, it)
     \<and> list_value meta_value list_meta_value x (h', it') = list_value meta_value list_meta_value x (h, it)
     \<and> list_cells meta_cells list_meta_cells y (h', it') \<subseteq> allocated h' - allocated h
     \<and> (case pl_Items y of None \<Rightarrow> True | Some a \<Rightarrow> pl_Items x \<noteq> Some a)"
proof -
  let ?v = "\<lambda>xs h. map (\<lambda>x. sync_value meta_value x h) xs"
  let ?s = "\<lambda>xs h. \<Union>x \<in> set xs. sync_cells meta_cells x h"
  note B = deep_copier_both [OF assms(2) deep_copier_items [OF sync_copiers.sync_copier [OF assms(1)]]]
  let ?items = "items_of x it"
  have new: "\<forall>a zs. fmlookup (it_cells it) a = Some zs \<longrightarrow> a \<noteq> it_next it" using assms(4) by auto
  obtain z where both: "copy_both list_meta_copy (copy_items (SecretSync_DeepCopyInto L meta_copy)) (pl_ListMeta x, ?items) h = (z, h')"
    and z: "fst z = pl_ListMeta y" "snd z = items_of y it'" "pl_TypeMeta y = pl_TypeMeta x" "items_of x it' = ?items"
      "case pl_Items y of None \<Rightarrow> True | Some a \<Rightarrow> pl_Items x \<noteq> Some a"
    using new assms(6) unfolding SecretSyncList_DeepCopyInto_def Let_def copy_both_def items_of_def
    by (cases "pl_Items x") (auto split: prod.splits option.splits)
  have cells: "list_meta_cells (fst (pl_ListMeta x, ?items)) h \<union> ?s (snd (pl_ListMeta x, ?items)) h \<subseteq> allocated h"
    using assms(5) by (simp add: list_cells_def)
  have "grows h h'" using deep_copier.copy_ok [OF B assms(3) both] by simp
  from deep_copier.original_kept [OF B cells this] deep_copier.copy_val [OF B assms(3) cells both]
    deep_copier.copy_fresh [OF B assms(3) cells both] z
  show ?thesis by (simp add: list_value_def list_cells_def)
qed

text \<open>
  C39: What the informer caches hand out can be changed freely. DeepCopyObject of a list of SecretSyncs
  is nil exactly for a nil pointer; otherwise it is a list with the same value, with a backing array of
  its own and elements that refer to newly allocated cells only, and the original keeps its value.
\<close>

theorem SecretSyncList_DeepCopyObject_fresh:
  assumes "sync_copiers L meta_copy meta_value meta_cells" "deep_copier list_meta_copy list_meta_value list_meta_cells"
    and "heap_ok h" "fmlookup (it_cells it) (it_next it) = None"
    and "\<And>x. p = Some x \<Longrightarrow> list_cells meta_cells list_meta_cells x (h, it) \<subseteq> allocated h"
    and "SecretSyncList_DeepCopyObject L meta_copy list_meta_copy p (h, it) = (q, (h', it'))"
  shows "case (p, q) of
      (None, None) \<Rightarrow> h' = h \<and> it' = it
    | (Some x, Some (ObjSecretSyncList y)) \<Rightarrow>
        list_value meta_value list_meta_value y (h', it') = list_value meta_value list_meta_value x (h, it)
        \<and> list_value meta_value list_meta_value x (h', it') = list_value meta_value list_meta_value x (h, it)
        \<and> list_cells meta_cells list_meta_cells y (h', it') \<subseteq> allocated h' - allocated h
        \<and> (pl_Items y = None \<or> pl_Items y \<noteq> pl_Items x)
    | _ \<Rightarrow> False"
proof (cases p)
  case None
  with assms(6) show ?thesis
    by (simp add: SecretSyncList_DeepCopyObject_def SecretSyncList_DeepCopy_def DeepCopy_def)
next
  case (Some x)
  obtain y where y: "SecretSyncList_DeepCopyInto L meta_copy list_meta_copy x (h, it) = (y, (h', it'))" "q = Some (ObjSecretSyncList y)"
    using assms(6) by (auto simp: Some SecretSyncList_DeepCopyObject_def SecretSyncList_DeepCopy_def DeepCopy_def split: prod.splits)
  from list_copy_ok [OF assms(1-4) assms(5) [OF Some] y(1)] show ?thesis
    by (auto simp: Some y(2) split: option.splits)
qed

section \<open>The label of the controller\<close>

lemma set_label:
  assumes "heap_ok h" "set_controller_label x h = (a, h')"
  shows "map_value (Some a) h' = Some (fmupd controllerLabelKey [] (case map_value (pso_Labels x) h of None \<Rightarrow> fmempty | Some m \<Rightarrow> m))
     \<and> (pso_Labels x = Some a \<or> a \<notin> allocated h)
     \<and> (\<forall>b. b \<noteq> a \<longrightarrow> fmlookup (hp_cells h') b = fmlookup (hp_cells h) b)"
proof -
  show ?thesis
  proof (cases "\<exists>b m. pso_Labels x = Some b \<and> fmlookup (hp_cells h) b = Some (CMap m)")
    case True
    with assms(2) show ?thesis
      by (auto simp: set_controller_label_def store_def map_value_def load_def)
  next
    case False
    then have none: "map_value (pso_Labels x) h = None"
      "set_controller_label x h = (let (a, h') = alloc (CMap fmempty) h in (a, store a (CMap (fmupd controllerLabelKey [] fmempty)) h'))"
      by (cases "pso_Labels x"; simp add: map_value_def load_def set_controller_label_def split: option.splits cell.splits)+
    obtain b h1 where b: "alloc (CMap fmempty) h = (b, h1)" by fastforce
    with none assms(2) have eq: "a = b" "h' = store b (CMap (fmupd controllerLabelKey [] fmempty)) h1" by auto
    from grows_alloc [OF assms(1) b] b none(1) show ?thesis
      by (auto simp: eq store_def map_value_def load_def alloc_def)
  qed
qed

text \<open>Copied labels and annotations are different maps, even where the original shares one.\<close>

lemma copied_maps_apart:
  assumes "heap_ok h" "SecretObject_DeepCopyInto x h = (y, h')" "pso_Labels y = Some a"
  shows "pso_Annotations y \<noteq> Some a"
proof -
  obtain d h1 where d: "copy_data (pso_Data x) h = (d, h1)" by fastforce
  obtain l h2 where l: "copy_map (pso_Labels x) h1 = (l, h2)" by fastforce
  obtain n h3 where n: "copy_map (pso_Annotations x) h2 = (n, h3)" by fastforce
  have y: "pso_Labels y = l" "pso_Annotations y = n"
    using assms(2) d l n by (auto simp: SecretObject_DeepCopyInto_def)
  have 1: "heap_ok h1" using datas.copy_ok [OF assms(1) d] by simp
  have 2: "heap_ok h2" using maps.copy_ok [OF 1 l] by simp
  have "a \<in> allocated h2"
    using l y assms(3) grows_alloc [OF 1] by (auto simp: copy_map_def split: option.splits cell.splits prod.splits)
  moreover have "b \<notin> allocated h2" if "n = Some b" for b
    using n that grows_alloc [OF 2] by (auto simp: copy_map_def split: option.splits cell.splits prod.splits)
  ultimately show ?thesis using y by blast
qed

lemma sync_copy_object:
  assumes "heap_ok h" "SecretSync_DeepCopyInto L meta_copy x h = (y, h')"
    and "\<And>m h n h'. heap_ok h \<Longrightarrow> meta_copy m h = (n, h') \<Longrightarrow> heap_ok h'"
    and "pso_Labels (psp_SecretObject (pss_Spec y)) = Some a"
  shows "pso_Annotations (psp_SecretObject (pss_Spec y)) \<noteq> Some a"
proof -
  obtain m h1 where m: "meta_copy (pss_Meta x) h = (m, h1)" by fastforce
  obtain so h2 where so: "SecretObject_DeepCopyInto (psp_SecretObject (pss_Spec x)) h1 = (so, h2)" by fastforce
  have "psp_SecretObject (pss_Spec y) = so"
    using assms(2) m so by (auto simp: SecretSync_DeepCopyInto_def SecretSyncSpec_DeepCopyInto_def Let_def split: prod.splits)
  with copied_maps_apart [OF assms(3) [OF assms(1) m] so] assms(4) show ?thesis by simp
qed

text \<open>
  C40: The deep copy of serverSidePatchSecret does its job. For every store in which the object is
  whole, and library copiers that keep the contract of a deep copy, putting the controller's label on
  the copy leaves the value of the original object as it was, and the label and annotation maps it
  leaves are exactly those of the Secret that the value-level model patches, even where labels and
  annotations of the original are one shared map.
\<close>

theorem patch_leaves_object:
  assumes "sync_copiers L meta_copy meta_value meta_cells" "heap_ok h" "sync_cells meta_cells ss h \<subseteq> allocated h"
  shows "\<exists>ssCopy labels h'. patch_labels L meta_copy ss h = (Some (ssCopy, labels), h')
     \<and> sync_value meta_value ss h' = sync_value meta_value ss h
     \<and> map_value (Some labels) h' = om_Labels (sec_Meta (secretPatchData (sync_value meta_value ss h) datamap))
     \<and> map_value (pso_Annotations (psp_SecretObject (pss_Spec ssCopy))) h'
         = om_Annotations (sec_Meta (secretPatchData (sync_value meta_value ss h) datamap))"
proof -
  note C = sync_copiers.sync_copier [OF assms(1)]
  note M = deep_copier.copy_ok [OF sync_copiers.axioms(2) [OF assms(1)]]
  obtain y h1 where y: "SecretSync_DeepCopyInto L meta_copy ss h = (y, h1)" by fastforce
  let ?y = "psp_SecretObject (pss_Spec y)"
  obtain a h2 where a: "set_controller_label ?y h1 = (a, h2)" by fastforce
  have h1: "heap_ok h1" "grows h h1" using deep_copier.copy_ok [OF C assms(2) y] by auto
  have fresh: "sync_cells meta_cells y h1 \<subseteq> allocated h1 - allocated h" by (rule deep_copier.copy_fresh [OF C assms(2,3) y])
  note lab = set_label [OF h1(1) a]
  have "a \<notin> allocated h"
    using lab fresh grows_allocated [OF h1(2)] by (auto simp: sync_cells_def object_cells_def ptr_cells_def)
  then have "grows h h2" using lab h1(2) by (auto simp: grows_def)
  from deep_copier.original_kept [OF C assms(3) this] have kept: "sync_value meta_value ss h2 = sync_value meta_value ss h" .
  have o: "object_value ?y h1 = sp_SecretObject (ss_Spec (sync_value meta_value ss h))"
    using deep_copier.copy_val [OF C assms(2,3) y] by (simp add: sync_value_def spec_value_def)
  have vals: "map_value (pso_Labels ?y) h1 = so_Labels (sp_SecretObject (ss_Spec (sync_value meta_value ss h)))"
    "map_value (pso_Annotations ?y) h1 = so_Annotations (sp_SecretObject (ss_Spec (sync_value meta_value ss h)))"
    using arg_cong [OF o, of so_Labels] arg_cong [OF o, of so_Annotations] by (simp_all add: object_value_def)
  have "pso_Annotations ?y \<noteq> Some a"
    using lab fresh sync_copy_object [OF assms(2) y, of a] M by (auto simp: sync_cells_def object_cells_def ptr_cells_def)
  then have "map_value (pso_Annotations ?y) h2 = map_value (pso_Annotations ?y) h1"
    using lab by (cases "pso_Annotations ?y") (auto simp: map_value_def load_def)
  with y a kept vals lab show ?thesis
    by (auto simp: patch_labels_def SecretSync_DeepCopy_def DeepCopy_def secretPatchData_def Let_def)
qed

text \<open>A concrete store: labels and annotations of the object are one and the same map, in cell 0.\<close>

definition demo_library :: library_copiers where
  "demo_library = \<lparr>Time_DeepCopy = (\<lambda>t. t), Condition_DeepCopyInto = (\<lambda>c. c)\<rparr>"

definition demo_meta_copy :: "(ObjectMeta \<times> addr option) meta_copier" where
  "demo_meta_copy x h = (let (p, h') = copy_map (snd x) h in ((fst x, p), h'))"

definition demo_meta_value :: "ObjectMeta \<times> addr option \<Rightarrow> heap \<Rightarrow> ObjectMeta" where
  "demo_meta_value x h = (fst x)\<lparr>om_Labels := map_value (snd x) h\<rparr>"

interpretation demo_copiers: sync_copiers demo_library demo_meta_copy demo_meta_value "\<lambda>x h. ptr_cells (snd x)"
proof (intro_locales)
  show "library_laws demo_library" by unfold_locales (simp_all add: demo_library_def)
  show "deep_copier demo_meta_copy demo_meta_value (\<lambda>x h. ptr_cells (snd x))"
    by (rule deep_copier_field [OF maps.deep_copier_axioms, where get = snd and put = "\<lambda>p x. (fst x, p)"
          and w = "\<lambda>x l. (fst x)\<lparr>om_Labels := l\<rparr>"])
      (auto simp: demo_meta_copy_def demo_meta_value_def split: prod.splits)
qed

definition demo_heap :: heap where
  "demo_heap = \<lparr>hp_cells = fmupd 0 (CMap (fmupd ''app'' ''x'' fmempty)) fmempty, hp_next = 1\<rparr>"

definition demo_shared :: "(ObjectMeta \<times> addr option) SecretSyncP" where
  "demo_shared = \<lparr>pss_TypeMeta = ss_TypeMeta (demo_ss demo_synced), pss_Meta = (ss_Meta (demo_ss demo_synced), None),
     pss_Spec = \<lparr>psp_SecretSyncControllerName = [], psp_SecretProviderClassName = ''spc'', psp_ServiceAccountName = ''sa'',
       psp_SecretObject = \<lparr>pso_Type = ''Opaque'', pso_Data = None, pso_Labels = Some 0, pso_Annotations = Some 0\<rparr>,
       psp_ForceSynchronization = []\<rparr>,
     pss_Status = \<lparr>pst_SyncHash = [], pst_LastSuccessfulSyncTime = None, pst_Conditions = None\<rparr>\<rparr>"

theorem patch_leaves_object_witness:
  "\<exists>ssCopy labels h'. patch_labels demo_library demo_meta_copy demo_shared demo_heap = (Some (ssCopy, labels), h')
     \<and> map_value (Some labels) h' = Some (fmupd controllerLabelKey [] (fmupd ''app'' ''x'' fmempty))
     \<and> map_value (pso_Annotations (psp_SecretObject (pss_Spec ssCopy))) h' = Some (fmupd ''app'' ''x'' fmempty)"
proof -
  have "heap_ok demo_heap" by (simp add: heap_ok_def demo_heap_def fmpred_iff)
  moreover have "sync_cells (\<lambda>x h. ptr_cells (snd x)) demo_shared demo_heap \<subseteq> allocated demo_heap"
    by (simp add: sync_cells_def object_cells_def status_cells_def ptr_cells_def demo_shared_def allocated_def demo_heap_def)
  moreover have "map_value (Some 0) demo_heap = Some (fmupd ''app'' ''x'' fmempty)"
    by (simp add: map_value_def load_def demo_heap_def)
  ultimately show ?thesis
    using patch_leaves_object [OF demo_copiers.sync_copiers_axioms, of demo_heap demo_shared fmempty]
    by (auto simp: secretPatchData_def Let_def sync_value_def spec_value_def object_value_def demo_shared_def)
qed

text \<open>A list of two objects, both with the shared map.\<close>

definition demo_list :: "addr option SecretSyncListP" where
  "demo_list = \<lparr>pl_TypeMeta = ss_TypeMeta (demo_ss demo_synced), pl_ListMeta = None, pl_Items = Some 0\<rparr>"

definition demo_items :: "(ObjectMeta \<times> addr option) items_store" where
  "demo_items = \<lparr>it_cells = fmupd 0 [demo_shared, demo_shared] fmempty, it_next = 1\<rparr>"

definition demo_list_meta :: "addr option \<Rightarrow> heap \<Rightarrow> ListMeta" where
  "demo_list_meta p h = \<lparr>lm_SelfLink = [], lm_ResourceVersion = ''7'', lm_Continue = [], lm_RemainingItemCount = None\<rparr>"

interpretation demo_list_metas: deep_copier "\<lambda>p h. (None, h)" demo_list_meta "\<lambda>p h. {}"
  by unfold_locales (auto simp: demo_list_meta_def)

theorem SecretSyncList_DeepCopyObject_fresh_witness:
  "\<exists>y h' it'. SecretSyncList_DeepCopyObject demo_library demo_meta_copy (\<lambda>p h. (None, h)) (Some demo_list) (demo_heap, demo_items)
       = (Some (ObjSecretSyncList y), (h', it'))
     \<and> list_value demo_meta_value demo_list_meta y (h', it') = list_value demo_meta_value demo_list_meta demo_list (demo_heap, demo_items)
     \<and> list_cells (\<lambda>x h. ptr_cells (snd x)) (\<lambda>p h. {}) y (h', it') \<inter> {0} = {}"
proof -
  let ?p = "Some demo_list"
  obtain q h' it' where q: "SecretSyncList_DeepCopyObject demo_library demo_meta_copy (\<lambda>p h. (None, h)) ?p (demo_heap, demo_items) = (q, (h', it'))"
    by (metis prod.collapse)
  have "heap_ok demo_heap" by (simp add: heap_ok_def demo_heap_def fmpred_iff)
  moreover have "fmlookup (it_cells demo_items) (it_next demo_items) = None" by (simp add: demo_items_def)
  moreover have "list_cells (\<lambda>x h. ptr_cells (snd x)) (\<lambda>p h. {}) x (demo_heap, demo_items) \<subseteq> allocated demo_heap" if "?p = Some x" for x
    using that by (auto simp: list_cells_def items_of_def demo_items_def demo_list_def sync_cells_def object_cells_def status_cells_def
        ptr_cells_def demo_shared_def allocated_def demo_heap_def)
  moreover have "0 \<in> allocated demo_heap" by (simp add: allocated_def demo_heap_def)
  ultimately show ?thesis
    using SecretSyncList_DeepCopyObject_fresh [OF demo_copiers.sync_copiers_axioms demo_list_metas.deep_copier_axioms _ _ _ q] q
    by (auto split: option.splits runtime_Object.splits)
qed

end
