(* ===== verification/Startup.thy ===== *)
theory Startup
  imports Driver
begin

text \<open>
  What happens before and beside the controller: the registration of the API types
  (\<^verbatim>\<open>api/v1alpha1/groupversion_info.go\<close> and the init function of \<^verbatim>\<open>cmd/main.go\<close>) and the metrics backend
  (\<^verbatim>\<open>pkg/metrics\<close>). Both mostly call libraries, which are fields of an environment record.
\<close>

primrec go_bind :: "'a go \<Rightarrow> ('a \<Rightarrow> 'b go) \<Rightarrow> 'b go" where
  "go_bind (Ret a) f = f a"
| "go_bind (Panic m) f = Panic m"
| "go_bind Diverges f = Diverges"

lemma go_bind_Ret: "go_bind x f = Ret b \<longleftrightarrow> (\<exists>a. x = Ret a \<and> f a = Ret b)"
  by (cases x) simp_all

section \<open>Registration of the API types\<close>

record GroupVersion =
  gv_Group :: string
  gv_Version :: string

definition SecretSync_GroupVersion :: GroupVersion where
  "SecretSync_GroupVersion = \<lparr>gv_Group = ''secret-sync.x-k8s.io'', gv_Version = ''v1alpha1''\<rparr>"

text \<open>
  A scheme of the library has an unknown representation \<open>'s\<close>. Functions on it change it in place and
  may panic (AddKnownTypes does when a kind is registered for two types).
\<close>

type_synonym 's scheme_fun = "'s \<Rightarrow> (error option \<times> 's) go"

record 's scheme_lib =
  NewScheme :: 's
  AddKnownTypes :: "GroupVersion \<Rightarrow> string list \<Rightarrow> 's \<Rightarrow> 's go"
  AddToGroupVersion :: "GroupVersion \<Rightarrow> 's \<Rightarrow> 's"
  SchemeBuilder_AddToScheme :: "'s scheme_fun list \<Rightarrow> 's scheme_fun"
  clientgoscheme_AddToScheme :: "'s scheme_fun"
  secretsstorecsi_AddToScheme :: "'s scheme_fun"
  utilruntime_Must :: "error option \<Rightarrow> unit go"

definition addKnownTypes :: "'s scheme_lib \<Rightarrow> 's scheme_fun" where
  "addKnownTypes S scheme =
     go_bind (AddKnownTypes S SecretSync_GroupVersion [''SecretSync'', ''SecretSyncList''] scheme)
       (\<lambda>scheme. Ret (None, AddToGroupVersion S SecretSync_GroupVersion scheme))"

definition SchemeBuilder :: "'s scheme_lib \<Rightarrow> 's scheme_fun list" where
  "SchemeBuilder S = [addKnownTypes S]"

definition AddToScheme :: "'s scheme_lib \<Rightarrow> 's scheme_fun" where
  "AddToScheme S = SchemeBuilder_AddToScheme S (SchemeBuilder S)"

text \<open>One line of init: the registration, and Must on its error.\<close>

definition must_add :: "'s scheme_lib \<Rightarrow> 's scheme_fun \<Rightarrow> 's \<Rightarrow> 's go" where
  "must_add S f scheme = go_bind (f scheme) (\<lambda>(err, scheme'). go_bind (utilruntime_Must S err) (\<lambda>_. Ret scheme'))"

definition init :: "'s scheme_lib \<Rightarrow> 's go" where
  "init S =
     go_bind (must_add S (clientgoscheme_AddToScheme S) (NewScheme S)) (\<lambda>scheme.
     go_bind (must_add S (AddToScheme S) scheme) (\<lambda>scheme.
     must_add S (secretsstorecsi_AddToScheme S) scheme))"

text \<open>
  What the library documents: Must panics exactly on an error; a scheme builder applies its functions
  in order and stops at the first error.
\<close>

fun apply_all :: "'s scheme_fun list \<Rightarrow> 's scheme_fun" where
  "apply_all [] s = Ret (None, s)"
| "apply_all (f # fs) s = go_bind (f s) (\<lambda>(err, s'). if err = None then apply_all fs s' else Ret (err, s'))"

definition scheme_laws :: "'s scheme_lib \<Rightarrow> bool" where
  "scheme_laws S \<longleftrightarrow> (\<forall>err. utilruntime_Must S err = Ret () \<longleftrightarrow> err = None) \<and> SchemeBuilder_AddToScheme S = apply_all"

lemma must_add_Ret: "scheme_laws S \<Longrightarrow> must_add S f s = Ret s' \<longleftrightarrow> f s = Ret (None, s')"
  by (auto simp: must_add_def go_bind_Ret scheme_laws_def)

text \<open>
  The process gets past init exactly when every registration works, and then with all three
  registrations, in order, in its scheme.
\<close>

lemma init_registers:
  assumes "scheme_laws S"
  shows "init S = Ret s \<longleftrightarrow> (\<exists>s1 s2. clientgoscheme_AddToScheme S (NewScheme S) = Ret (None, s1)
     \<and> AddKnownTypes S SecretSync_GroupVersion [''SecretSync'', ''SecretSyncList''] s1 = Ret s2
     \<and> secretsstorecsi_AddToScheme S (AddToGroupVersion S SecretSync_GroupVersion s2) = Ret (None, s))"
proof -
  have "AddToScheme S s1 = Ret (None, s2') \<longleftrightarrow> (\<exists>s2. AddKnownTypes S SecretSync_GroupVersion [''SecretSync'', ''SecretSyncList''] s1 = Ret s2
      \<and> s2' = AddToGroupVersion S SecretSync_GroupVersion s2)" for s1 s2'
    using assms by (auto simp: AddToScheme_def SchemeBuilder_def scheme_laws_def addKnownTypes_def go_bind_Ret)
  then show ?thesis by (auto simp: init_def must_add_Ret [OF assms] go_bind_Ret)
qed

section \<open>Metrics\<close>

text \<open>
  The registry of controller-runtime is an interface value; asserting that it is a Prometheus registry
  panics when it is something else. Exporters and registries are opaque. The float constants of the
  source are only passed on.
\<close>

datatype registry = PrometheusRegistry nat | OtherRegistry

record view =
  vw_InstrumentKind :: string
  vw_Boundaries :: "rat list"

record meter_provider =
  mp_Reader :: nat
  mp_View :: view

record metrics_lib =
  metrics_Registry :: registry
  prometheus_New :: "nat \<Rightarrow> error + nat"
  ExponentialBucketsRange :: "rat \<Rightarrow> rat \<Rightarrow> nat \<Rightarrow> rat list"

primrec assert_registry :: "registry \<Rightarrow> nat go" where
  "assert_registry (PrometheusRegistry r) = Ret r"
| "assert_registry OtherRegistry = Panic ''interface conversion''"

text \<open>The state is the global meter provider of OpenTelemetry.\<close>

definition initPrometheusExporter :: "metrics_lib \<Rightarrow> meter_provider \<Rightarrow> (error option \<times> meter_provider) go" where
  "initPrometheusExporter M global = go_bind (assert_registry (metrics_Registry M)) (\<lambda>r.
     case prometheus_New M r of
       Inl err \<Rightarrow> Ret (Some err, global)
     | Inr exporter \<Rightarrow>
         (let meterProvider = \<lparr>mp_Reader = exporter,
            mp_View = \<lparr>vw_InstrumentKind = ''Histogram'', vw_Boundaries = ExponentialBucketsRange M (1/10) 2 11\<rparr>\<rparr>
          in Ret (None, meterProvider)))"

definition metricsBackend_default :: string where
  "metricsBackend_default = ''Prometheus''"

definition prometheusExporter :: string where
  "prometheusExporter = ''prometheus''"

definition to_lower :: "char \<Rightarrow> char" where
  "to_lower c = (if in_range 65 90 c then char_of (of_char c + 32 :: nat) else c)"

text \<open>\<^verbatim>\<open>strings.ToLower\<close> on ASCII; no other code point has a lower case in the word compared with.\<close>

definition InitMetricsExporter :: "metrics_lib \<Rightarrow> string \<Rightarrow> meter_provider \<Rightarrow> (error option \<times> meter_provider) go" where
  "InitMetricsExporter M metricsBackend global =
     (let mb = map to_lower metricsBackend in
      if mb = prometheusExporter then initPrometheusExporter M global
      else Ret (Some (ErrorString (''unsupported metrics backend '' @ metricsBackend)), global))"

text \<open>
  The metrics backend. The default is accepted in whatever case it is written; any other name is
  an error that leaves the global meter provider alone, as does a failing exporter. On success
  histograms get eleven boundaries from 0.1 to 2 seconds (by the documented meaning of
  ExponentialBucketsRange), so the last bucket starts at two seconds.
\<close>

theorem InitMetricsExporter_outcome:
  assumes "\<And>lo hi n. 1 < n \<Longrightarrow> length (ExponentialBucketsRange M lo hi n) = n
      \<and> hd (ExponentialBucketsRange M lo hi n) = lo \<and> last (ExponentialBucketsRange M lo hi n) = hi"
  shows "InitMetricsExporter M metricsBackend_default global = initPrometheusExporter M global
     \<and> (case InitMetricsExporter M b global of
          Ret (Some err, global') \<Rightarrow> global' = global
            \<and> (if map to_lower b = prometheusExporter
               then \<exists>r. metrics_Registry M = PrometheusRegistry r \<and> prometheus_New M r = Inl err
               else err = ErrorString (''unsupported metrics backend '' @ b))
        | Ret (None, global') \<Rightarrow> map to_lower b = prometheusExporter
            \<and> (\<exists>r. metrics_Registry M = PrometheusRegistry r \<and> prometheus_New M r = Inr (mp_Reader global'))
            \<and> length (vw_Boundaries (mp_View global')) = 11
            \<and> hd (vw_Boundaries (mp_View global')) = 1/10 \<and> last (vw_Boundaries (mp_View global')) = 2
        | Panic m \<Rightarrow> metrics_Registry M = OtherRegistry
        | Diverges \<Rightarrow> False)"
proof -
  have "map to_lower metricsBackend_default = prometheusExporter" by code_simp
  moreover note assms [of 11 "1/10" 2]
  ultimately show ?thesis
    by (cases "metrics_Registry M") (auto simp: InitMetricsExporter_def initPrometheusExporter_def Let_def split: sum.splits)
qed

theorem InitMetricsExporter_outcome_witness:
  "\<exists>mp. InitMetricsExporter \<lparr>metrics_Registry = PrometheusRegistry 0, prometheus_New = (\<lambda>r. Inr 7),
       ExponentialBucketsRange = (\<lambda>lo hi n. lo # replicate (n - 1) hi)\<rparr> ''PROMETHEUS''
       \<lparr>mp_Reader = 0, mp_View = \<lparr>vw_InstrumentKind = [], vw_Boundaries = []\<rparr>\<rparr> = Ret (None, mp)
     \<and> mp_Reader mp = 7 \<and> last (vw_Boundaries (mp_View mp)) = 2"
proof -
  let ?M = "\<lparr>metrics_Registry = PrometheusRegistry 0, prometheus_New = (\<lambda>r. Inr 7),
       ExponentialBucketsRange = (\<lambda>lo hi n. lo # replicate (n - 1) hi)\<rparr>"
  let ?g = "\<lparr>mp_Reader = 0, mp_View = \<lparr>vw_InstrumentKind = [], vw_Boundaries = []\<rparr>\<rparr>"
  have low: "map to_lower ''PROMETHEUS'' = prometheusExporter" by code_simp
  have "InitMetricsExporter ?M ''PROMETHEUS'' ?g = initPrometheusExporter ?M ?g"
    unfolding InitMetricsExporter_def low by simp
  then obtain mp where mp: "InitMetricsExporter ?M ''PROMETHEUS'' ?g = Ret (None, mp)"
    by (simp add: initPrometheusExporter_def)
  with InitMetricsExporter_outcome [of ?M ?g "''PROMETHEUS''"] show ?thesis
    unfolding mp by (intro exI [of _ mp]) simp
qed

end
