(* ===== verification/Spec2Isabelle.thy ===== *)
theory Spec2Isabelle
  imports Isolation Progress Wire DeepCopy Startup
begin

text \<open>
  Verification of the secrets-store sync controller.

  The controller watches SecretSync objects. For each of them it fetches secret material from an
  external provider plugin on behalf of a service account and keeps a Kubernetes Secret of the same
  name and namespace up to date with it. This library models its Go code as HOL functions and proves
  what the code promises.

  \<^bold>\<open>The program.\<close> \<^verbatim>\<open>cmd/main.go\<close> builds a client builder, a token manager and a reconciler and starts
  controller-runtime, which calls Reconcile for new and changed objects and for every object that the
  polling goroutine sends. Reconcile (\<^verbatim>\<open>internal/controller/secretsync_controller.go\<close>) reads the object
  and its SecretProviderClass, asks the token manager (\<^verbatim>\<open>pkg/token\<close>) for tokens of the object's
  service account, asks the client builder (\<^verbatim>\<open>pkg/provider\<close>) for the provider's gRPC client, mounts,
  turns the returned files into Secret data (\<^verbatim>\<open>pkg/util/secretutil\<close>), compares a hash of the state
  with the one of the last sync, patches the Secret and records conditions and hash in the status
  (\<^verbatim>\<open>internal/controller/conditions.go\<close>).

  \<^bold>\<open>How it is modelled.\<close> A Go function that has effects is a state transformer over its own state (the
  record of the component: \<open>Manager\<close>, \<open>PluginClientBuilder\<close>, \<open>SecretSyncReconciler\<close>) and a \<open>world\<close>, which
  is the state of everything outside and the trace of the calls made to it. What is outside (the API
  server, the file system, gRPC, the clock, PEM and X.509 parsers, PBKDF2, the JSON form of a Secret)
  is a field of an environment record, a function that gives an answer and a new outside state; every
  theorem holds for all of them, apart from the documented laws it names as hypotheses. Errors are
  values \<open>Inl e\<close> or \<open>Some e\<close>, panics the value \<open>Panic\<close> of the result type \<open>go\<close>. Go maps are finite maps,
  where ranging over a map in the source depends on no order; nil maps are \<open>None\<close> where a write to them
  panics. Byte strings are char lists, UTF-8 is decoded where Go decodes it. Durations and lifetimes
  are 64-bit words where arithmetic could wrap.

  \<^bold>\<open>Theories.\<close>

  \<^item> \<open>Prelude\<close>: Go results, maps and integers; programs and worlds; which calls a program emits
    (\<open>emits\<close>), which results it yields (\<open>yields\<close>), which invariants it keeps (\<open>keeps\<close>); the locales
    \<open>effect_relation\<close> (what the calls of a program do), \<open>keyed_store\<close> (a cache) and \<open>invariant_system\<close>
    (a step relation with an invariant).
  \<^item> \<open>GoStrings\<close>, \<open>Encodings\<close>: the functions of Go's standard library on strings that the code uses,
    and which encodings can be read back (locales \<open>prefix_code\<close>, \<open>quoted_code\<close>, \<open>json_value\<close>,
    interpreted on quoted strings, JSON strings, byte strings and maps).
  \<^item> \<open>ApiTypes\<close>: the types of \<^verbatim>\<open>api/v1alpha1/secretsync_types.go\<close> and the fields of library types that
    are used.
  \<^item> \<open>Regex\<close>: regular expressions, their languages, and an executable matcher by derivatives, for the
    validation patterns.
  \<^item> \<open>SecretUtil\<close>: \<^verbatim>\<open>pkg/util/secretutil/secret.go\<close>; the data of a Secret, certificate and key
    extraction, that all loops end.
  \<^item> \<open>TokenManager\<close>: \<^verbatim>\<open>pkg/token/token_manager.go\<close>; the cache key is injective, a token reaches only
    whom it was issued for, renewal times do not overflow, clean-up.
  \<^item> \<open>ProviderClient\<close>: \<^verbatim>\<open>pkg/provider/provider_client.go\<close>; confinement of socket paths, the options of a
    connection with its retry policy, the registry of clients, Get, Cleanup, HealthCheck, Version and
    MountContent on every branch.
  \<^item> \<open>Concurrency\<close>: the lock regions of token manager and client builder as step relations for any
    number of parallel callers; isolation and agreement for all interleavings, and that the sequential
    models are runs of the step relations.
  \<^item> \<open>Conditions\<close>, \<open>StateHash\<close>: \<^verbatim>\<open>conditions.go\<close> and computeCurrentStateHash; the input of PBKDF2
    determines the state, and the hash determines the derived key.
  \<^item> \<open>Reconciler\<close>: Reconcile and what it calls, the abstract relation \<open>reconcile_spec\<close> between the object
    read, the result and the calls, and the proof that every run satisfies it.
  \<^item> \<open>SyncProtocol\<close>: the properties of Reconcile that follow, for new objects (which first get their
    conditions) and known ones: a status with a new hash is backed by a patch, a refused patch is rolled
    back, an unchanged state writes nothing, a sync is followed by a Reconcile that writes nothing, what an
    error leaves in the last status update, and where a retry does not settle. The programs \<open>fetched_data\<close> and
    \<open>hashed_state\<close> say what a Reconcile fetches and hashes.
  \<^item> \<open>Wire\<close>: a reader of the JSON the provider receives (locale \<open>decoder\<close>), which finds in the parameters
    of a Mount request what the controller has put in, down to the token of each audience.
  \<^item> \<open>Driver\<close>: the event filter, SetupWithManager, the polling goroutine and its channel as a step
    relation, \<^verbatim>\<open>cmd/main.go\<close> and \<^verbatim>\<open>pkg/version\<close>.
  \<^item> \<open>Startup\<close>: the registration of the API types (\<^verbatim>\<open>groupversion_info.go\<close> and the init function of
    \<^verbatim>\<open>cmd/main.go\<close>) and \<^verbatim>\<open>pkg/metrics\<close>, over parameters for the libraries they call.
  \<^item> \<open>Isolation\<close>: the running controller as a transition system over all components. Its invariant
    gives the end-to-end property that every Mount request carries the tokens of exactly the account
    it names, over a socket of a valid provider dialed with the configured options; and that a Reconcile
    calls only on behalf of its object.
  \<^item> \<open>Admission\<close>: the validation markers of the API types and the schema of conditions as executable
    predicates, what the controller's own checks can still find in a validated object, and that a
    status the controller sends is valid again exactly when its messages are not too long.
  \<^item> \<open>ApiServer\<close>: what the calls of the controller do to the cluster, as the locale \<open>api_server\<close> over a view
    of the stored objects, all their versions and what was last applied to each Secret. Reads come from a
    cache and may be outdated; a status update is accepted only for the version that is stored (optimistic
    locking); during every call others may change the cluster. Every run of Reconcile is tracked by the
    effects of its calls, interleaved with those changes.
  \<^item> \<open>Cluster\<close>: on these laws the invariant that a stored sync hash vouches for the applied Secret, whatever
    versions the Reconciles had read and whatever others did meanwhile, for all objects but those that have
    lost the status write after their last patch; the next patch that works brings them back. The step
    relation carries the set of the inputs that were hashed so far. As long as PBKDF2 derived different keys
    from the different ones of these finitely many inputs (a hypothesis, which a hash of 32 bytes can satisfy),
    it gives the purpose of the controller: when a Reconcile succeeds that patched, or read the current version
    of an object that has not lost its status, there was a moment of the run when the data it fetched was in
    the Secret. A concrete site shows what goes wrong after an outdated read and a refused status write.
  \<^item> \<open>Progress\<close>: an API server without faults (locale \<open>available_server\<close>, an extension of the one of
    \<open>Cluster\<close>, interpreted on the concrete site): a Reconcile of a current version that has not lost its
    status, with data from the provider, does succeed, from the first conditions to the status, unless somebody else has replaced the
    version meanwhile.
  \<^item> \<open>DeepCopy\<close>: \<^verbatim>\<open>zz_generated.deepcopy.go\<close> over a store with shared maps and slices (locale
    \<open>deep_copier\<close>, interpreted for every copied type and lifted to lists), which shows that the values
    of \<open>Reconciler\<close> are what the mutable objects hold when serverSidePatchSecret sets its label.

  \<^bold>\<open>Loops.\<close> Loops over lists, maps and arrays are structural recursion or folds. The two PEM loops of
  secretutil recurse on what the parser leaves, so they are partial functions into \<open>option\<close>; that they
  return is a theorem under the documented law that a decoded block consumes input. The polling loop,
  HealthCheck and the parallel callers never return by themselves and are step relations or functions
  of the number of ticks. No other bound or fuel is used.

  \<^bold>\<open>Not modelled.\<close> Flag parsing and logging; what gRPC does with its options (the retry policy
  \<^verbatim>\<open>ServiceConfig\<close> is passed to the library); the build tools, tests, manifests and charts. Reconciles
  run one after another, as with the controller's default of one worker; others may change the cluster at
  any time; parallelism inside the controller is modelled where the code has locks.
\<close>

end
